(* ===== verification/Prelude.thy ===== *)
theory Prelude
  imports Main "HOL-Library.Word"
begin

text \<open>
  Shared ground of the development: the Go integer types the program uses, the error values
  its functions return, the big-endian coding of \<open>uint32\<close> (package \<open>encoding/binary\<close>), decimal
  printing (\<open>fmt\<close>'s verb \<open>%d\<close>), the string functions of package \<open>strings\<close> the sources call, and
  the generic lemmas on lists the components share. Nothing here is specific to one component.

  Go's \<open>int64\<close> and \<open>int\<close> are \<open>int\<close> with the wrap-around written out (\<open>wrap64\<close>, \<open>wrap32\<close>)
  wherever the program does arithmetic that can overflow; \<open>uint8\<close> and \<open>uint32\<close> are words.
  A Go string is a byte sequence, here a list of characters.
\<close>

unbundle bit_operations_syntax

section \<open>Types\<close>

type_synonym byte = "8 word"
type_synonym bytes = "byte list"
type_synonym uint8 = "8 word"
type_synonym uint32 = "32 word"
type_synonym int64 = int
type_synonym int32 = int

text \<open>The conversion \<open>int64(x)\<close> (and \<open>int32(x)\<close>) of a value out of range: two's complement.\<close>

definition wrap64 :: "int \<Rightarrow> int64" where
  "wrap64 x = (x + 2 ^ 63) mod 2 ^ 64 - 2 ^ 63"

definition wrap32 :: "int \<Rightarrow> int32" where
  "wrap32 x = (x + 2 ^ 31) mod 2 ^ 32 - 2 ^ 31"

lemma wrap64_id [simp]: "- (2 ^ 63) \<le> x \<Longrightarrow> x < 2 ^ 63 \<Longrightarrow> wrap64 x = x"
  by (simp add: wrap64_def)

lemma wrap32_id [simp]: "- (2 ^ 31) \<le> x \<Longrightarrow> x < 2 ^ 31 \<Longrightarrow> wrap32 x = x"
  by (simp add: wrap32_def)

lemma wrap64_range: "- (2 ^ 63) \<le> wrap64 x \<and> wrap64 x < 2 ^ 63"
proof -
  have "(x + 2 ^ 63) mod 2 ^ 64 < (2::int) ^ 64" by (rule pos_mod_bound) simp
  moreover have "0 \<le> (x + 2 ^ 63) mod (2::int) ^ 64" by (rule pos_mod_sign) simp
  ultimately show ?thesis by (simp add: wrap64_def)
qed

section \<open>Errors\<close>

text \<open>
  The errors of the operating system the program distinguishes or prints, and the error values
  of the sources: the sentinels of \<open>message/message.go\<close>, those of \<open>io\<close>, \<open>os\<close> and \<open>context\<close>, and
  \<open>Errorf\<close> for an error made by \<open>fmt.Errorf\<close> or \<open>errors.New\<close> (only its text can be observed).
  \<open>PanicAssertion\<close> stands for a failed type assertion and \<open>PanicNil\<close> for the use of a nil pointer, which
  end the program; as values they make those paths branches of the model like any other.
\<close>

datatype errno = ENOENT | EEXIST | EISDIR | ENOTDIR | EACCES | EBADF | EINVAL | EIO
  | EClosed | ENegativeOffset

datatype goerror =
    ErrIncompletePacket
  | ErrBadProtocol
  | ErrMsgType
  | ErrHeadSize
  | ErrAuthRequired
  | ErrShortBuffer
  | ErrEOF
  | ErrUnexpectedEOF
  | ErrCanceled
  | PathError string string errno
  | Errorf string
  | PanicAssertion
  | PanicNil

fun errno_text :: "errno \<Rightarrow> string" where
  "errno_text ENOENT = ''no such file or directory''"
| "errno_text EEXIST = ''file exists''"
| "errno_text EISDIR = ''is a directory''"
| "errno_text ENOTDIR = ''not a directory''"
| "errno_text EACCES = ''permission denied''"
| "errno_text EBADF = ''bad file descriptor''"
| "errno_text EINVAL = ''invalid argument''"
| "errno_text EIO = ''input/output error''"
| "errno_text EClosed = ''file already closed''"
| "errno_text ENegativeOffset = ''negative offset''"

text \<open>The method \<open>Error()\<close> of an error value.\<close>

fun err_text :: "goerror \<Rightarrow> string" where
  "err_text ErrIncompletePacket = ''incomplete packet''"
| "err_text ErrBadProtocol = ''bad protocol''"
| "err_text ErrMsgType = ''unrecognized message type''"
| "err_text ErrHeadSize = ''short head size''"
| "err_text ErrAuthRequired = ''authentication required''"
| "err_text ErrShortBuffer = ''short buffer''"
| "err_text ErrEOF = ''EOF''"
| "err_text ErrUnexpectedEOF = ''unexpected EOF''"
| "err_text ErrCanceled = ''context canceled''"
| "err_text (PathError op p e) = op @ '' '' @ p @ '': '' @ errno_text e"
| "err_text (Errorf s) = s"
| "err_text PanicAssertion = ''interface conversion''"
| "err_text PanicNil = ''invalid memory address or nil pointer dereference''"

text \<open>\<open>errors.Is(err, os.ErrNotExist)\<close>.\<close>

fun is_not_exist :: "goerror \<Rightarrow> bool" where
  "is_not_exist (PathError _ _ ENOENT) = True"
| "is_not_exist _ = False"

section \<open>Big-endian coding of 32-bit words\<close>

definition PutUint32 :: "uint32 \<Rightarrow> bytes" where
  "PutUint32 v = [ucast (drop_bit 24 v), ucast (drop_bit 16 v), ucast (drop_bit 8 v), ucast v]"

definition Uint32 :: "bytes \<Rightarrow> uint32" where
  "Uint32 b = ucast (b ! 3) OR push_bit 8 (ucast (b ! 2)) OR push_bit 16 (ucast (b ! 1))
     OR push_bit 24 (ucast (b ! 0))"

lemma length_PutUint32 [simp]: "length (PutUint32 v) = 4"
  by (simp add: PutUint32_def)

lemma Uint32_PutUint32 [simp]: "Uint32 (PutUint32 v) = v"
proof (rule bit_word_eqI)
  fix n
  assume "n < LENGTH(32)"
  then have n: "n < 32" by simp
  consider "n < 8" | "8 \<le> n \<and> n < 16" | "16 \<le> n \<and> n < 24" | "24 \<le> n" by linarith
  then show "bit (Uint32 (PutUint32 v)) n = bit v n"
    by cases (use n in \<open>auto simp: Uint32_def PutUint32_def bit_or_iff bit_push_bit_iff
      bit_ucast_iff bit_drop_bit_eq numeral_3_eq_3 numeral_2_eq_2\<close>)
qed

lemma unat_uint32_less: "unat (v :: uint32) < 2 ^ 32"
  using unsigned_less [of v, where ?'a = nat] by simp

lemma unat_of_nat_uint32: "n < 2 ^ 32 \<Longrightarrow> unat (of_nat n :: uint32) = n"
  by (simp add: unat_of_nat)

section \<open>Strings\<close>

text \<open>\<open>[]byte(s)\<close> and \<open>string(b)\<close>.\<close>

definition bytes_of :: "string \<Rightarrow> bytes" where
  "bytes_of s = map (\<lambda>c. of_nat (of_char c)) s"

text \<open>The verb \<open>%d\<close> of \<open>fmt\<close>.\<close>

fun dec_nat :: "nat \<Rightarrow> string" where
  "dec_nat n = (if n < 10 then [char_of (48 + n)] else dec_nat (n div 10) @ [char_of (48 + n mod 10)])"

declare dec_nat.simps [simp del]

definition dec_int :: "int \<Rightarrow> string" where
  "dec_int i = (if i < 0 then CHR ''-'' # dec_nat (nat (- i)) else dec_nat (nat i))"

text \<open>The verb \<open>%q\<close>, for text that needs no escapes.\<close>

definition quoted :: "string \<Rightarrow> string" where
  "quoted s = CHR 0x22 # s @ [CHR 0x22]"

text \<open>\<open>strings.HasPrefix\<close>, \<open>HasSuffix\<close>, \<open>Contains\<close> of one character, \<open>Index\<close>, \<open>LastIndex\<close>, \<open>Split\<close>.\<close>

definition HasPrefix :: "string \<Rightarrow> string \<Rightarrow> bool" where
  "HasPrefix s p = (take (length p) s = p)"

definition HasSuffix :: "string \<Rightarrow> string \<Rightarrow> bool" where
  "HasSuffix s p = (length p \<le> length s \<and> drop (length s - length p) s = p)"

fun IndexChar :: "char \<Rightarrow> string \<Rightarrow> nat option" where
  "IndexChar c [] = None"
| "IndexChar c (x # xs) = (if x = c then Some 0 else map_option Suc (IndexChar c xs))"

definition LastIndexChar :: "char \<Rightarrow> string \<Rightarrow> nat option" where
  "LastIndexChar c s = map_option (\<lambda>i. length s - Suc i) (IndexChar c (rev s))"

fun SplitChar :: "char \<Rightarrow> string \<Rightarrow> string list" where
  "SplitChar c [] = [[]]"
| "SplitChar c (x # xs) =
     (if x = c then [] # SplitChar c xs
      else (case SplitChar c xs of [] \<Rightarrow> [[x]] | w # ws \<Rightarrow> (x # w) # ws))"

lemma IndexChar_None_iff: "IndexChar c s = None \<longleftrightarrow> c \<notin> set s"
  by (induction s) auto

lemma IndexChar_Some:
  "IndexChar c s = Some i \<Longrightarrow> i < length s \<and> s ! i = c \<and> c \<notin> set (take i s)"
  by (induction s arbitrary: i) (auto split: if_splits)

lemma IndexChar_append [simp]: "c \<notin> set s \<Longrightarrow> IndexChar c (s @ c # t) = Some (length s)"
  by (induction s) auto

lemma SplitChar_ne [simp]: "SplitChar c s \<noteq> []"
  by (cases s) (auto split: list.splits)

section \<open>Lists\<close>

lemma take_add_append: "n = length xs \<Longrightarrow> take (n + k) (xs @ ys) = xs @ take k ys"
  by simp

lemma filter_eq_single:
  "distinct xs \<Longrightarrow> x \<in> set xs \<Longrightarrow> filter (\<lambda>y. y = x) xs = [x]"
  by (induction xs) (auto simp: filter_empty_conv)

lemma prefix_take: "xs = ys @ zs \<Longrightarrow> ys = take (length ys) xs"
  by simp

end
