(* ===== verification/GoPath.thy ===== *)
theory GoPath
  imports Prelude
begin

text \<open>
  The functions of Go's packages \<open>path\<close> and \<open>path/filepath\<close> (on Unix) that the sources call:
  \<open>Clean\<close>, \<open>Join\<close>, \<open>Base\<close>, \<open>Dir\<close>, \<open>IsAbs\<close>, \<open>Split\<close>. They are lexical. \<open>Clean\<close> is the rule of
  its documentation: drop empty and \<open>.\<close> elements, let \<open>..\<close> remove the element before it, drop
  \<open>..\<close> at the root. Shown: \<open>Clean\<close> is idempotent, and a cleaned rooted path has no empty, \<open>.\<close> or
  \<open>..\<close> element; these carry the path properties of the server.
\<close>

fun join_slash :: "string list \<Rightarrow> string" where
  "join_slash [] = []"
| "join_slash [c] = c"
| "join_slash (c # d # cs) = c @ CHR ''/'' # join_slash (d # cs)"

text \<open>The elements of a path that count: not empty and not a dot.\<close>

definition elements :: "string \<Rightarrow> string list" where
  "elements s = filter (\<lambda>c. c \<noteq> [] \<and> c \<noteq> ''.'') (SplitChar (CHR ''/'') s)"

fun clean_stack :: "bool \<Rightarrow> string list \<Rightarrow> string list \<Rightarrow> string list" where
  "clean_stack rooted st [] = rev st"
| "clean_stack rooted st (c # cs) =
     (if c = ''..'' then
        (case st of
           [] \<Rightarrow> clean_stack rooted (if rooted then [] else [''..'']) cs
         | t # ts \<Rightarrow> clean_stack rooted (if t = ''..'' then ''..'' # st else ts) cs)
      else clean_stack rooted (c # st) cs)"

definition IsAbs :: "string \<Rightarrow> bool" where
  "IsAbs s = HasPrefix s ''/''"

definition clean_elements :: "string \<Rightarrow> string list" where
  "clean_elements s = clean_stack (IsAbs s) [] (elements s)"

definition Clean :: "string \<Rightarrow> string" where
  "Clean s =
     (if IsAbs s then CHR ''/'' # join_slash (clean_elements s)
      else if clean_elements s = [] then ''.''
      else join_slash (clean_elements s))"

text \<open>\<open>Join\<close> skips empty leading elements; all empty gives the empty path.\<close>

fun Join :: "string list \<Rightarrow> string" where
  "Join [] = []"
| "Join (e # es) = (if e = [] then Join es else Clean (join_slash (e # es)))"

definition strip_slashes :: "string \<Rightarrow> string" where
  "strip_slashes s = rev (dropWhile (\<lambda>c. c = CHR ''/'') (rev s))"

definition Base :: "string \<Rightarrow> string" where
  "Base s =
     (if s = [] then ''.''
      else let b = rev (takeWhile (\<lambda>c. c \<noteq> CHR ''/'') (rev (strip_slashes s)))
           in if b = [] then ''/'' else b)"

text \<open>\<open>path.Split\<close>: up to and including the last slash, and what follows it.\<close>

definition Split :: "string \<Rightarrow> string \<times> string" where
  "Split s = (rev (dropWhile (\<lambda>c. c \<noteq> CHR ''/'') (rev s)), rev (takeWhile (\<lambda>c. c \<noteq> CHR ''/'') (rev s)))"

definition Dir :: "string \<Rightarrow> string" where
  "Dir s = Clean (fst (Split s))"

section \<open>Cleaned paths\<close>

text \<open>An element of a cleaned path: not empty, not a dot, and without a slash.\<close>

definition element :: "string \<Rightarrow> bool" where
  "element c \<longleftrightarrow> c \<noteq> [] \<and> c \<noteq> ''.'' \<and> CHR ''/'' \<notin> set c"

lemma SplitChar_no_sep: "w \<in> set (SplitChar c s) \<Longrightarrow> c \<notin> set w"
  by (induction s arbitrary: w) (auto split: if_splits list.splits)

lemma elements_element: "c \<in> set (elements s) \<Longrightarrow> element c"
  by (auto simp: elements_def element_def dest: SplitChar_no_sep)

lemma SplitChar_word [simp]: "c \<notin> set w \<Longrightarrow> SplitChar c w = [w]"
  by (induction w) auto

lemma SplitChar_append: "c \<notin> set w \<Longrightarrow> SplitChar c (w @ c # s) = w # SplitChar c s"
  by (induction w) auto

lemma SplitChar_join:
  "cs \<noteq> [] \<Longrightarrow> (\<And>c. c \<in> set cs \<Longrightarrow> CHR ''/'' \<notin> set c) \<Longrightarrow> SplitChar (CHR ''/'') (join_slash cs) = cs"
  by (induction cs rule: join_slash.induct) (auto simp: SplitChar_append)

lemma elements_join: "list_all element cs \<Longrightarrow> elements (join_slash cs) = cs"
proof (cases "cs = []")
  case False
  assume cs: "list_all element cs"
  then have "SplitChar (CHR ''/'') (join_slash cs) = cs"
    using False by (intro SplitChar_join) (auto simp: list_all_iff element_def)
  then show ?thesis
    using cs by (auto simp: elements_def list_all_iff element_def filter_id_conv)
qed (simp add: elements_def)

lemma elements_slash [simp]: "elements (CHR ''/'' # s) = elements s"
  by (simp add: elements_def)

text \<open>What \<open>clean_stack\<close> returns: elements, with \<open>..\<close> only at the front, and nowhere if rooted.\<close>

fun dots_first :: "string list \<Rightarrow> bool" where
  "dots_first [] = True"
| "dots_first (c # cs) = (if c = ''..'' then dots_first cs else ''..'' \<notin> set cs)"

lemma dots_first_no_dots: "''..'' \<notin> set cs \<Longrightarrow> dots_first cs"
  by (induction cs) auto

lemma dots_first_append:
  "dots_first (cs @ [c]) \<longleftrightarrow> dots_first cs \<and> (c = ''..'' \<longrightarrow> set cs \<subseteq> {''..''})"
  by (induction cs) auto

lemma dots_first_append2:
  "dots_first (cs @ [t, c]) \<longleftrightarrow> dots_first (cs @ [t]) \<and> (c = ''..'' \<longrightarrow> t = ''..'' \<and> set cs \<subseteq> {''..''})"
  using dots_first_append [of "cs @ [t]" c] by auto

lemma clean_stack_elements:
  "list_all element st \<Longrightarrow> list_all element cs \<Longrightarrow> list_all element (clean_stack rooted st cs)"
  by (induction rooted st cs rule: clean_stack.induct)
     (auto simp: element_def split: list.splits)

lemma clean_stack_dots_first:
  "dots_first (rev st) \<Longrightarrow> dots_first (clean_stack rooted st cs)"
proof (induction rooted st cs rule: clean_stack.induct)
  case (2 rooted st c cs)
  show ?case
  proof (cases st)
    case Nil
    with 2 show ?thesis by (auto)
  next
    case (Cons t ts)
    then have "t = ''..'' \<Longrightarrow> set ts \<subseteq> {''..''}" using 2(4) by (auto simp: dots_first_append)
    with Cons 2 show ?thesis by (auto simp: dots_first_append dots_first_append2)
  qed
qed simp

lemma clean_stack_rooted_no_dots:
  "rooted \<Longrightarrow> ''..'' \<notin> set st \<Longrightarrow> ''..'' \<notin> set (clean_stack rooted st cs)"
  by (induction rooted st cs rule: clean_stack.induct) (auto split: list.splits)

lemma clean_stack_push:
  "''..'' \<notin> set cs \<Longrightarrow> clean_stack rooted st cs = rev st @ cs"
  by (induction cs arbitrary: st) auto

lemma clean_stack_fixed_dots:
  "dots_first cs \<Longrightarrow> set st \<subseteq> {''..''} \<Longrightarrow> clean_stack False st cs = rev st @ cs"
proof (induction cs arbitrary: st)
  case (Cons c cs)
  show ?case
  proof (cases "c = ''..''")
    case True
    with Cons show ?thesis by (cases st) auto
  next
    case False
    with Cons.prems show ?thesis by (simp add: clean_stack_push)
  qed
qed simp

lemma list_all_elements [simp]: "list_all element (elements s)"
  by (auto simp: list_all_iff elements_element)

lemma list_all_clean_elements [simp]: "list_all element (clean_elements s)"
  by (simp add: clean_elements_def clean_stack_elements)

lemma clean_elements_no_dots: "IsAbs s \<Longrightarrow> ''..'' \<notin> set (clean_elements s)"
  by (simp add: clean_elements_def clean_stack_rooted_no_dots)

lemma join_slash_Nil_iff: "list_all element cs \<Longrightarrow> join_slash cs = [] \<longleftrightarrow> cs = []"
  by (cases cs rule: join_slash.cases) (auto simp: element_def)

lemma hd_join_slash: "list_all element cs \<Longrightarrow> cs \<noteq> [] \<Longrightarrow> hd (join_slash cs) \<noteq> CHR ''/''"
  by (cases cs rule: join_slash.cases) (auto simp: element_def hd_append dest: hd_in_set split: if_splits)

lemma IsAbs_Cons [simp]: "IsAbs (c # s) \<longleftrightarrow> c = CHR ''/''"
  by (simp add: IsAbs_def HasPrefix_def)

lemma IsAbs_Nil [simp]: "\<not> IsAbs []"
  by (simp add: IsAbs_def HasPrefix_def)

lemma IsAbs_hd: "IsAbs s \<longleftrightarrow> s \<noteq> [] \<and> hd s = CHR ''/''"
  by (cases s) auto

lemma IsAbs_append [simp]: "IsAbs (s @ t) \<longleftrightarrow> (if s = [] then IsAbs t else IsAbs s)"
  by (cases s) auto

lemma IsAbs_Clean [simp]: "IsAbs (Clean s) = IsAbs s"
  by (auto simp: Clean_def IsAbs_hd [of "join_slash _"] hd_join_slash)

lemma elements_Clean: "elements (Clean s) = clean_elements s"
  by (simp add: Clean_def elements_join) (simp add: elements_def)

lemma clean_elements_Clean: "clean_elements (Clean s) = clean_elements s"
proof (cases "IsAbs s")
  case True
  then show ?thesis
    using clean_elements_no_dots [OF True]
    by (subst clean_elements_def) (simp add: elements_Clean clean_stack_push)
next
  case False
  have "dots_first (clean_elements s)"
    by (simp add: clean_elements_def clean_stack_dots_first)
  with False show ?thesis
    by (subst clean_elements_def) (simp add: elements_Clean clean_stack_fixed_dots)
qed

lemma Clean_idem [simp]: "Clean (Clean s) = Clean s"
  by (subst (1 3) Clean_def) (simp add: clean_elements_Clean)

text \<open>A path that \<open>Clean\<close> leaves as it is, and is rooted: the form the server resolves names to.\<close>

definition abs_clean :: "string \<Rightarrow> bool" where
  "abs_clean s \<longleftrightarrow> IsAbs s \<and> Clean s = s"

lemma abs_clean_Clean: "IsAbs s \<Longrightarrow> abs_clean (Clean s)"
  by (simp add: abs_clean_def)

lemma abs_clean_no_dots: "abs_clean s \<Longrightarrow> ''..'' \<notin> set (elements s) \<and> ''.'' \<notin> set (elements s)"
  using clean_elements_no_dots [of s] elements_Clean [of s] elements_element [of "''.''" s]
  by (auto simp: abs_clean_def element_def)

lemma Join_abs:
  assumes "IsAbs (hd es)" and "es \<noteq> []"
  shows "abs_clean (Join es)"
proof -
  obtain e ds where es: "es = e # ds" using assms(2) by (cases es) auto
  then have "e \<noteq> []" and "IsAbs e" using assms(1) by auto
  moreover have "IsAbs (join_slash (e # ds))" using \<open>IsAbs e\<close> \<open>e \<noteq> []\<close> by (cases ds) auto
  ultimately show ?thesis by (simp add: es abs_clean_Clean)
qed

text \<open>A cleaned path is its elements; appending one element to it is \<open>Join\<close>.\<close>

lemma clean_elements_append_slash:
  "IsAbs d \<Longrightarrow> elements (d @ CHR ''/'' # s) = elements d @ elements s"
proof -
  have "SplitChar (CHR ''/'') (d @ CHR ''/'' # s) = SplitChar (CHR ''/'') d @ SplitChar (CHR ''/'') s"
    by (induction d) (auto split: list.splits)
  then show ?thesis by (simp add: elements_def)
qed

lemma Join_child:
  assumes "abs_clean d" and "element c" and "c \<noteq> ''..''"
  shows "clean_elements (Join [d, c]) = clean_elements d @ [c]" and "IsAbs (Join [d, c])"
proof -
  have d: "IsAbs d" "elements d = clean_elements d" "d \<noteq> []"
    using assms(1) elements_Clean [of d] by (auto simp: abs_clean_def)
  have c: "elements c = [c]" using assms(2) elements_join [of "[c]"] by simp
  have "clean_elements (d @ CHR ''/'' # c) = clean_elements d @ [c]"
    using d c assms(3) clean_elements_no_dots [OF d(1)]
    by (subst clean_elements_def) (simp add: clean_elements_append_slash clean_stack_push)
  then show "clean_elements (Join [d, c]) = clean_elements d @ [c]"
    using d(3) by (simp add: clean_elements_Clean)
  show "IsAbs (Join [d, c])" using d by simp
qed

end
