(* ===== verification/GoOS.thy ===== *)
theory GoOS
  imports GoPath
begin

text \<open>
  The operating system as the sources use it through package \<open>os\<close>: a file system of names,
  inodes and open files, with the operations \<open>Stat\<close>, \<open>MkdirAll\<close>, \<open>OpenFile\<close>, \<open>Close\<close>, \<open>ReadAt\<close>,
  \<open>WriteAt\<close>, \<open>Truncate\<close>, \<open>File.Stat\<close>, \<open>ReadDir\<close>, \<open>Chmod\<close>, \<open>Rename\<close>, \<open>Remove\<close> and reading a whole
  file. An open file refers to an inode, not to a name, as on Unix: it outlives the removal of
  the name. Handles are never reused, as a Go \<open>*os.File\<close> is not.

  What the environment may do is the oracle \<open>faults\<close>: the \<open>k\<close>-th system call fails with
  \<open>faults k\<close>, after transferring the given number of bytes if it is a read or a write. Theorems
  hold for every oracle unless they say otherwise. Permission failures, a full disk or a broken
  device are such faults; permission bits are stored but not enforced. Symbolic links and special
  files are not modelled, and a directory has size 0.
\<close>

section \<open>State\<close>

type_synonym ino = nat
type_synonym fd = nat

record inode =
  i_dir :: bool
  i_data :: bytes
  i_mode :: uint32
  i_mtime :: int64

record os_state =
  names :: "(string \<times> ino) list"
  inodes :: "ino \<Rightarrow> inode option"
  next_ino :: ino
  fds :: "fd \<Rightarrow> (string \<times> ino \<times> bool) option"
  next_fd :: fd
  cwd :: string
  umask :: uint32
  clock :: int64
  faults :: "nat \<Rightarrow> (errno \<times> nat) option"
  ticks :: nat

record FileInfo =
  fi_Name :: string
  fi_Size :: int64
  fi_Mode :: uint32
  fi_ModTime :: int64
  fi_IsDir :: bool

definition ModeDir :: uint32 where "ModeDir = 0x80000000"

definition Perm :: "uint32 \<Rightarrow> uint32" where "Perm m = m AND 511"

definition info_of :: "string \<Rightarrow> inode \<Rightarrow> FileInfo" where
  "info_of p i = \<lparr>fi_Name = Base p, fi_Size = int (length (i_data i)),
     fi_Mode = (if i_dir i then ModeDir OR i_mode i else i_mode i),
     fi_ModTime = i_mtime i, fi_IsDir = i_dir i\<rparr>"

definition tick :: "os_state \<Rightarrow> (errno \<times> nat) option \<times> os_state" where
  "tick s = (faults s (ticks s), s\<lparr>ticks := Suc (ticks s)\<rparr>)"

section \<open>Names\<close>

definition resolve :: "os_state \<Rightarrow> string \<Rightarrow> string" where
  "resolve s p = (if IsAbs p then Clean p else Join [cwd s, p])"

definition path_of :: "string list \<Rightarrow> string" where
  "path_of cs = CHR ''/'' # join_slash cs"

text \<open>The directories on the way to a path, the root excluded, and the path itself, in order.\<close>

definition ancestors :: "string \<Rightarrow> string list" where
  "ancestors p = map (\<lambda>n. path_of (take (Suc n) (elements p))) [0..<length (elements p)]"

definition lookup :: "os_state \<Rightarrow> string \<Rightarrow> (ino \<times> inode) option" where
  "lookup s p =
     (if p = [] then None
      else (case map_of (names s) (resolve s p) of
        None \<Rightarrow> None
      | Some i \<Rightarrow> (case inodes s i of None \<Rightarrow> None | Some n \<Rightarrow> Some (i, n))))"

definition is_file :: "os_state \<Rightarrow> string \<Rightarrow> bool" where
  "is_file s p = (case lookup s p of None \<Rightarrow> False | Some (_, n) \<Rightarrow> \<not> i_dir n)"

definition is_directory :: "os_state \<Rightarrow> string \<Rightarrow> bool" where
  "is_directory s p = (case lookup s p of None \<Rightarrow> False | Some (_, n) \<Rightarrow> i_dir n)"

text \<open>The error for a name that does not exist: a component of it may be a file.\<close>

definition missing_errno :: "os_state \<Rightarrow> string \<Rightarrow> errno" where
  "missing_errno s p = (if list_ex (is_file s) (butlast (ancestors (resolve s p))) then ENOTDIR else ENOENT)"

definition add_inode :: "string \<Rightarrow> inode \<Rightarrow> os_state \<Rightarrow> os_state" where
  "add_inode p n s = s\<lparr>names := (p, next_ino s) # names s, inodes := (inodes s)(next_ino s \<mapsto> n),
     next_ino := Suc (next_ino s)\<rparr>"

section \<open>Operations on names\<close>

definition os_Stat :: "string \<Rightarrow> os_state \<Rightarrow> (goerror + FileInfo) \<times> os_state" where
  "os_Stat p s =
     (case tick s of
        (Some (e, _), s') \<Rightarrow> (Inl (PathError ''stat'' p e), s')
      | (None, s') \<Rightarrow>
          (case lookup s p of
             None \<Rightarrow> (Inl (PathError ''stat'' p (missing_errno s p)), s')
           | Some (_, n) \<Rightarrow> (Inr (info_of p n), s')))"

fun mkdir_list :: "uint32 \<Rightarrow> string list \<Rightarrow> os_state \<Rightarrow> goerror option \<times> os_state" where
  "mkdir_list perm [] s = (None, s)"
| "mkdir_list perm (p # ps) s =
     (case lookup s p of
        Some (_, n) \<Rightarrow>
          if i_dir n then mkdir_list perm ps s else (Some (PathError ''mkdir'' p ENOTDIR), s)
      | None \<Rightarrow>
          (case tick s of
             (Some (e, _), s') \<Rightarrow> (Some (PathError ''mkdir'' p e), s')
           | (None, s') \<Rightarrow>
               mkdir_list perm ps
                 (add_inode p \<lparr>i_dir = True, i_data = [], i_mode = Perm perm AND NOT (umask s),
                    i_mtime = clock s\<rparr> s')))"

definition os_MkdirAll :: "string \<Rightarrow> uint32 \<Rightarrow> os_state \<Rightarrow> goerror option \<times> os_state" where
  "os_MkdirAll p perm s =
     (if p = [] then (Some (PathError ''mkdir'' p ENOENT), s)
      else mkdir_list perm (ancestors (resolve s p)) s)"

text \<open>\<open>O_RDONLY\<close> or \<open>O_RDWR\<close> (the first argument), \<open>O_CREATE\<close>, \<open>O_TRUNC\<close>.\<close>

record OpenFlags =
  o_rdwr :: bool
  o_create :: bool
  o_trunc :: bool

definition open_ino :: "string \<Rightarrow> ino \<Rightarrow> bool \<Rightarrow> os_state \<Rightarrow> fd \<times> os_state" where
  "open_ino p i w s = (next_fd s, s\<lparr>fds := (fds s)(next_fd s \<mapsto> (p, i, w)), next_fd := Suc (next_fd s)\<rparr>)"

definition os_OpenFile :: "string \<Rightarrow> OpenFlags \<Rightarrow> uint32 \<Rightarrow> os_state \<Rightarrow> (goerror + fd) \<times> os_state" where
  "os_OpenFile p fl perm s =
     (case tick s of
        (Some (e, _), s') \<Rightarrow> (Inl (PathError ''open'' p e), s')
      | (None, s') \<Rightarrow>
          (case lookup s p of
             Some (i, n) \<Rightarrow>
               if i_dir n \<and> (o_rdwr fl \<or> o_create fl) then (Inl (PathError ''open'' p EISDIR), s')
               else
                 (let s'' = (if o_trunc fl
                             then s'\<lparr>inodes := (inodes s')(i \<mapsto> n\<lparr>i_data := [], i_mtime := clock s\<rparr>)\<rparr>
                             else s');
                      (f, s3) = open_ino p i (o_rdwr fl) s''
                  in (Inr f, s3))
           | None \<Rightarrow>
               if \<not> o_create fl \<or> p = [] then (Inl (PathError ''open'' p (missing_errno s p)), s')
               else if \<not> is_directory s (Dir (resolve s p)) then
                 (Inl (PathError ''open'' p (missing_errno s p)), s')
               else
                 (let s'' = add_inode (resolve s p) \<lparr>i_dir = False, i_data = [],
                        i_mode = Perm perm AND NOT (umask s), i_mtime = clock s\<rparr> s';
                      (f, s3) = open_ino p (next_ino s) (o_rdwr fl) s''
                  in (Inr f, s3))))"

definition children :: "os_state \<Rightarrow> string \<Rightarrow> (string \<times> ino) list" where
  "children s d = filter (\<lambda>(q, _). q \<noteq> ''/'' \<and> Dir q = d) (names s)"

text \<open>\<open>os.ReadDir\<close> returns the entries sorted by name; the information of an entry is read at once.\<close>

fun insert_by :: "('a \<Rightarrow> 'a \<Rightarrow> bool) \<Rightarrow> 'a \<Rightarrow> 'a list \<Rightarrow> 'a list" where
  "insert_by lt x [] = [x]"
| "insert_by lt x (y # ys) = (if lt y x then y # insert_by lt x ys else x # y # ys)"

definition sort_by :: "('a \<Rightarrow> 'a \<Rightarrow> bool) \<Rightarrow> 'a list \<Rightarrow> 'a list" where
  "sort_by lt xs = foldr (insert_by lt) xs []"

fun string_less :: "string \<Rightarrow> string \<Rightarrow> bool" where
  "string_less s [] = False"
| "string_less [] (c # t) = True"
| "string_less (b # s) (c # t) = ((of_char b :: nat) < of_char c \<or> b = c \<and> string_less s t)"

definition os_ReadDir :: "string \<Rightarrow> os_state \<Rightarrow> (goerror + FileInfo list) \<times> os_state" where
  "os_ReadDir p s =
     (case tick s of
        (Some (e, _), s') \<Rightarrow> (Inl (PathError ''open'' p e), s')
      | (None, s') \<Rightarrow>
          (case lookup s p of
             None \<Rightarrow> (Inl (PathError ''open'' p (missing_errno s p)), s')
           | Some (_, n) \<Rightarrow>
               if \<not> i_dir n then (Inl (PathError ''readdirent'' p ENOTDIR), s')
               else (Inr (sort_by (\<lambda>a b. string_less (fi_Name a) (fi_Name b))
                       (List.map_filter (\<lambda>(q, i). map_option (info_of q) (inodes s i))
                          (children s (resolve s p)))), s')))"

definition os_Chmod :: "string \<Rightarrow> uint32 \<Rightarrow> os_state \<Rightarrow> goerror option \<times> os_state" where
  "os_Chmod p mode s =
     (case tick s of
        (Some (e, _), s') \<Rightarrow> (Some (PathError ''chmod'' p e), s')
      | (None, s') \<Rightarrow>
          (case lookup s p of
             None \<Rightarrow> (Some (PathError ''chmod'' p (missing_errno s p)), s')
           | Some (i, n) \<Rightarrow> (None, s'\<lparr>inodes := (inodes s')(i \<mapsto> n\<lparr>i_mode := Perm mode\<rparr>)\<rparr>)))"

definition remove_name :: "string \<Rightarrow> os_state \<Rightarrow> os_state" where
  "remove_name q s = s\<lparr>names := filter (\<lambda>(r, _). r \<noteq> q) (names s)\<rparr>"

definition os_Remove :: "string \<Rightarrow> os_state \<Rightarrow> goerror option \<times> os_state" where
  "os_Remove p s =
     (case tick s of
        (Some (e, _), s') \<Rightarrow> (Some (PathError ''remove'' p e), s')
      | (None, s') \<Rightarrow>
          (case lookup s p of
             None \<Rightarrow> (Some (PathError ''remove'' p (missing_errno s p)), s')
           | Some (_, n) \<Rightarrow>
               if i_dir n \<and> children s (resolve s p) \<noteq> [] then (Some (PathError ''remove'' p EEXIST), s')
               else (None, remove_name (resolve s p) s')))"

text \<open>\<open>os.Rename\<close> of a file replaces the target's name in one step.\<close>

definition os_Rename :: "string \<Rightarrow> string \<Rightarrow> os_state \<Rightarrow> goerror option \<times> os_state" where
  "os_Rename p q s =
     (case tick s of
        (Some (e, _), s') \<Rightarrow> (Some (PathError ''rename'' p e), s')
      | (None, s') \<Rightarrow>
          (case lookup s p of
             None \<Rightarrow> (Some (PathError ''rename'' p (missing_errno s p)), s')
           | Some (i, n) \<Rightarrow>
               if is_directory s q then (Some (PathError ''rename'' p EEXIST), s')
               else if \<not> is_directory s (Dir (resolve s q)) then
                 (Some (PathError ''rename'' p (missing_errno s q)), s')
               else (None, s'\<lparr>names := (resolve s q, i) #
                   filter (\<lambda>(r, _). r \<noteq> resolve s p \<and> r \<noteq> resolve s q) (names s)\<rparr>)))"

section \<open>Operations on open files\<close>

text \<open>Writing at an offset: a gap is filled with zeros; nothing to write changes nothing.\<close>

definition write_at :: "bytes \<Rightarrow> nat \<Rightarrow> bytes \<Rightarrow> bytes" where
  "write_at c off d =
     (if d = [] then c
      else take off (c @ replicate (off - length c) 0) @ d @ drop (off + length d) c)"

definition os_Close :: "fd \<Rightarrow> os_state \<Rightarrow> os_state" where
  "os_Close f s = s\<lparr>fds := (fds s)(f := None)\<rparr>"

text \<open>\<open>Close\<close> where the code looks at its error: the handle is gone in any case.\<close>

definition os_CloseErr :: "fd \<Rightarrow> os_state \<Rightarrow> goerror option \<times> os_state" where
  "os_CloseErr f s =
     (case fds s f of
        None \<Rightarrow> (Some (PathError ''close'' [] EClosed), s)
      | Some (p, _, _) \<Rightarrow>
          (case tick s of
             (Some (e, _), s') \<Rightarrow> (Some (PathError ''close'' p e), os_Close f s')
           | (None, s') \<Rightarrow> (None, os_Close f s')))"

definition fd_Stat :: "fd \<Rightarrow> os_state \<Rightarrow> (goerror + FileInfo) \<times> os_state" where
  "fd_Stat f s =
     (case fds s f of
        None \<Rightarrow> (Inl (PathError ''stat'' [] EClosed), s)
      | Some (p, i, _) \<Rightarrow>
          (case tick s of
             (Some (e, _), s') \<Rightarrow> (Inl (PathError ''stat'' p e), s')
           | (None, s') \<Rightarrow>
               (case inodes s i of
                  None \<Rightarrow> (Inl (PathError ''stat'' p EBADF), s')
                | Some n \<Rightarrow> (Inr (info_of p n), s'))))"

text \<open>\<open>ReadAt\<close> of \<open>n\<close> bytes: the bytes read and the error, if any. It reads until \<open>n\<close> bytes are
  there, the end of the file or an error.\<close>

definition os_ReadAt :: "fd \<Rightarrow> nat \<Rightarrow> int64 \<Rightarrow> os_state \<Rightarrow> (bytes \<times> goerror option) \<times> os_state" where
  "os_ReadAt f n off s =
     (let name = (case fds s f of None \<Rightarrow> [] | Some (p, _, _) \<Rightarrow> p)
      in if off < 0 then (([], Some (PathError ''readat'' name ENegativeOffset)), s)
         else if n = 0 then (([], None), s)
         else (case fds s f of
           None \<Rightarrow> (([], Some (PathError ''read'' name EClosed)), s)
         | Some (p, i, _) \<Rightarrow>
             (case inodes s i of
                None \<Rightarrow> (([], Some (PathError ''read'' p EBADF)), s)
              | Some nd \<Rightarrow>
                  if i_dir nd then (([], Some (PathError ''read'' p EISDIR)), s)
                  else
                    (let d = take n (drop (nat off) (i_data nd))
                     in (case tick s of
                           (Some (e, k), s') \<Rightarrow> ((take k d, Some (PathError ''read'' p e)), s')
                         | (None, s') \<Rightarrow> ((d, if length d < n then Some ErrEOF else None), s'))))))"

definition os_WriteAt :: "fd \<Rightarrow> bytes \<Rightarrow> int64 \<Rightarrow> os_state \<Rightarrow> (nat \<times> goerror option) \<times> os_state" where
  "os_WriteAt f d off s =
     (let name = (case fds s f of None \<Rightarrow> [] | Some (p, _, _) \<Rightarrow> p)
      in if off < 0 then ((0, Some (PathError ''writeat'' name ENegativeOffset)), s)
         else if d = [] then ((0, None), s)
         else (case fds s f of
           None \<Rightarrow> ((0, Some (PathError ''write'' name EClosed)), s)
         | Some (p, i, w) \<Rightarrow>
             (case inodes s i of
                None \<Rightarrow> ((0, Some (PathError ''write'' p EBADF)), s)
              | Some nd \<Rightarrow>
                  if \<not> w \<or> i_dir nd then ((0, Some (PathError ''write'' p EBADF)), s)
                  else
                    (case tick s of
                       (Some (e, k), s') \<Rightarrow>
                         ((length (take k d), Some (PathError ''write'' p e)),
                          s'\<lparr>inodes := (inodes s')(i \<mapsto> nd\<lparr>i_data := write_at (i_data nd) (nat off) (take k d),
                             i_mtime := clock s\<rparr>)\<rparr>)
                     | (None, s') \<Rightarrow>
                         ((length d, None),
                          s'\<lparr>inodes := (inodes s')(i \<mapsto> nd\<lparr>i_data := write_at (i_data nd) (nat off) d,
                             i_mtime := clock s\<rparr>)\<rparr>)))))"

definition os_Truncate :: "fd \<Rightarrow> int64 \<Rightarrow> os_state \<Rightarrow> goerror option \<times> os_state" where
  "os_Truncate f sz s =
     (case fds s f of
        None \<Rightarrow> (Some (PathError ''truncate'' [] EClosed), s)
      | Some (p, i, w) \<Rightarrow>
          (case inodes s i of
             None \<Rightarrow> (Some (PathError ''truncate'' p EBADF), s)
           | Some nd \<Rightarrow>
               if sz < 0 \<or> \<not> w then (Some (PathError ''truncate'' p EINVAL), s)
               else
                 (case tick s of
                    (Some (e, _), s') \<Rightarrow> (Some (PathError ''truncate'' p e), s')
                  | (None, s') \<Rightarrow>
                      (None, s'\<lparr>inodes := (inodes s')(i \<mapsto> nd\<lparr>i_data :=
                         take (nat sz) (i_data nd @ replicate (nat sz - length (i_data nd)) 0),
                         i_mtime := clock s\<rparr>)\<rparr>))))"

text \<open>\<open>Seek(0, io.SeekStart)\<close>: only its error can be observed, every read that follows starts at 0.\<close>

definition fd_Seek :: "fd \<Rightarrow> os_state \<Rightarrow> goerror option \<times> os_state" where
  "fd_Seek f s =
     (case fds s f of
        None \<Rightarrow> (Some (PathError ''seek'' [] EClosed), s)
      | Some (p, _, _) \<Rightarrow>
          (case tick s of
             (Some (e, _), s') \<Rightarrow> (Some (PathError ''seek'' p e), s')
           | (None, s') \<Rightarrow> (None, s')))"

text \<open>\<open>io.Copy\<close> from the start of an open file to its end: what a hash consumes.\<close>

definition os_ReadAll :: "fd \<Rightarrow> os_state \<Rightarrow> (goerror + bytes) \<times> os_state" where
  "os_ReadAll f s =
     (case fds s f of
        None \<Rightarrow> (Inl (PathError ''read'' [] EClosed), s)
      | Some (p, i, _) \<Rightarrow>
          (case inodes s i of
             None \<Rightarrow> (Inl (PathError ''read'' p EBADF), s)
           | Some nd \<Rightarrow>
               if i_dir nd then (Inl (PathError ''read'' p EISDIR), s)
               else
                 (case tick s of
                    (Some (e, _), s') \<Rightarrow> (Inl (PathError ''read'' p e), s')
                  | (None, s') \<Rightarrow> (Inr (i_data nd), s'))))"

section \<open>Contents\<close>

lemma length_write_at [simp]:
  "length (write_at c off d) = (if d = [] then length c else max (length c) (off + length d))"
  by (auto simp: write_at_def)

lemma write_at_Nil [simp]: "write_at c off [] = c"
  by (simp add: write_at_def)

lemma nth_write_at:
  "j < length (write_at c off d) \<Longrightarrow>
     write_at c off d ! j =
       (if off \<le> j \<and> j < off + length d then d ! (j - off) else if j < length c then c ! j else 0)"
  by (auto simp: write_at_def nth_append min_def)

text \<open>What was written is read back, and bytes outside are as before.\<close>

lemma read_write_same: "take (length d) (drop off (write_at c off d)) = d"
  by (auto simp: write_at_def)

lemma write_at_other:
  "j < off \<or> off + length d \<le> j \<Longrightarrow> j < length c \<Longrightarrow> write_at c off d ! j = c ! j"
  by (cases "d = []") (auto simp: nth_write_at)

section \<open>Well-formed states\<close>

text \<open>Names and open files refer to inodes that exist, no two names share an inode (no hard links), the
  allocators are ahead of both, and the working directory is an absolute path.\<close>

definition os_wf :: "os_state \<Rightarrow> bool" where
  "os_wf s \<longleftrightarrow>
     (\<forall>p i. (p, i) \<in> set (names s) \<longrightarrow> inodes s i \<noteq> None)
   \<and> (\<forall>f p i w. fds s f = Some (p, i, w) \<longrightarrow> f < next_fd s \<and> inodes s i \<noteq> None)
   \<and> (\<forall>i. inodes s i \<noteq> None \<longrightarrow> i < next_ino s)
   \<and> distinct (map snd (names s))
   \<and> IsAbs (cwd s)"

named_theorems os_wf_intros

lemma os_wf_tick [os_wf_intros]: "os_wf s \<Longrightarrow> os_wf (s\<lparr>ticks := t\<rparr>)"
  by (auto simp: os_wf_def)

lemma os_wf_set_inode [os_wf_intros]:
  "os_wf s \<Longrightarrow> inodes s i \<noteq> None \<Longrightarrow> os_wf (s\<lparr>inodes := (inodes s)(i \<mapsto> n)\<rparr>)"
  by (auto simp: os_wf_def)

lemma os_wf_add_inode [os_wf_intros]: "os_wf s \<Longrightarrow> os_wf (add_inode p n s)"
  by (fastforce simp: os_wf_def add_inode_def)

lemma os_wf_open_ino [os_wf_intros]:
  "os_wf s \<Longrightarrow> inodes s i \<noteq> None \<Longrightarrow> os_wf (snd (open_ino p i w s))"
  by (auto simp: os_wf_def open_ino_def less_Suc_eq)

lemma os_wf_Close [os_wf_intros]: "os_wf s \<Longrightarrow> os_wf (os_Close f s)"
  by (auto simp: os_wf_def os_Close_def)

lemma lookup_inode: "lookup s p = Some (i, n) \<Longrightarrow> inodes s i = Some n"
  by (auto simp: lookup_def split: if_splits option.splits)

lemma os_wf_Stat [os_wf_intros]: "os_wf s \<Longrightarrow> os_wf (snd (os_Stat p s))"
  by (auto simp: os_Stat_def tick_def intro!: os_wf_intros split: option.splits)

lemma os_wf_mkdir_list [os_wf_intros]: "os_wf s \<Longrightarrow> os_wf (snd (mkdir_list perm ps s))"
  by (induction perm ps s rule: mkdir_list.induct)
     (auto simp: tick_def os_wf_tick os_wf_add_inode split: option.splits)

lemma os_wf_MkdirAll [os_wf_intros]: "os_wf s \<Longrightarrow> os_wf (snd (os_MkdirAll p perm s))"
  by (simp add: os_MkdirAll_def os_wf_mkdir_list)

lemma os_wf_OpenFile [os_wf_intros]: "os_wf s \<Longrightarrow> os_wf (snd (os_OpenFile p fl perm s))"
proof -
  assume wf: "os_wf s"
  let ?s = "s\<lparr>ticks := Suc (ticks s)\<rparr>"
  have old: "os_wf (snd (open_ino p i w ?s))"
    "os_wf (snd (open_ino p i w (?s\<lparr>inodes := (inodes s)(i \<mapsto> m)\<rparr>)))"
    if "lookup s p = Some (i, n)" for i n m w
    using wf lookup_inode [OF that] os_wf_set_inode [OF os_wf_tick [OF wf], where i = i and n = m]
    by (auto intro!: os_wf_open_ino os_wf_tick)
  have new: "os_wf (snd (open_ino p (next_ino s) w (add_inode q m ?s)))" for q m w
    using wf by (intro os_wf_open_ino os_wf_add_inode os_wf_tick) (auto simp: add_inode_def)
  show ?thesis
  proof (cases "lookup s p")
    case None
    then show ?thesis
      using os_wf_tick [OF wf] new
      by (auto simp: os_OpenFile_def tick_def Let_def case_prod_beta split: option.splits)
  next
    case (Some x)
    then obtain i n where x: "lookup s p = Some (i, n)" by (cases x) auto
    then show ?thesis
      using os_wf_tick [OF wf] old [OF x]
      by (auto simp: os_OpenFile_def tick_def Let_def case_prod_beta split: option.splits)
  qed
qed

lemma os_wf_ReadDir [os_wf_intros]: "os_wf s \<Longrightarrow> os_wf (snd (os_ReadDir p s))"
  by (auto simp: os_ReadDir_def tick_def intro!: os_wf_intros split: option.splits)

lemma os_wf_Chmod [os_wf_intros]: "os_wf s \<Longrightarrow> os_wf (snd (os_Chmod p m s))"
  using os_wf_set_inode [OF os_wf_tick]
  by (fastforce simp: os_Chmod_def tick_def dest: lookup_inode intro!: os_wf_tick split: option.splits)

lemma os_wf_Remove [os_wf_intros]: "os_wf s \<Longrightarrow> os_wf (snd (os_Remove p s))"
  by (auto simp: os_Remove_def tick_def remove_name_def os_wf_def distinct_map_filter split: option.splits)

text \<open>Names that share an inode are the same name.\<close>

lemma os_wf_name_unique:
  assumes "os_wf s" and "(p, i) \<in> set (names s)" and "(q, i) \<in> set (names s)"
  shows "p = q"
proof -
  have "inj_on snd (set (names s))" using assms(1) by (simp add: os_wf_def distinct_map)
  then show ?thesis using assms(2,3) by (metis Pair_inject inj_onD snd_conv)
qed

lemma lookup_name: "lookup s p = Some (i, n) \<Longrightarrow> (resolve s p, i) \<in> set (names s)"
  by (auto simp: lookup_def dest: map_of_SomeD split: if_splits option.splits)

lemma lookup_same_inode:
  "os_wf s \<Longrightarrow> lookup s p = Some (i, n) \<Longrightarrow> lookup s q = Some (i, m) \<Longrightarrow> resolve s p = resolve s q"
  using os_wf_name_unique lookup_name by blast

lemma os_wf_Rename [os_wf_intros]:
  assumes wf: "os_wf s"
  shows "os_wf (snd (os_Rename p q s))"
proof -
  have "os_wf (s\<lparr>ticks := Suc (ticks s),
      names := (resolve s q, i) # filter (\<lambda>(r, _). r \<noteq> resolve s p \<and> r \<noteq> resolve s q) (names s)\<rparr>)"
    if "lookup s p = Some (i, n)" for i n
    using wf lookup_inode [OF that] os_wf_name_unique [OF wf _ lookup_name [OF that]]
    by (auto simp: os_wf_def distinct_map_filter)
  then show ?thesis
    using os_wf_tick [OF wf] by (auto simp: os_Rename_def tick_def split: option.splits)
qed

lemma os_wf_CloseErr [os_wf_intros]: "os_wf s \<Longrightarrow> os_wf (snd (os_CloseErr f s))"
  by (auto simp: os_CloseErr_def tick_def intro!: os_wf_intros split: option.splits)

lemma os_wf_fd_Stat [os_wf_intros]: "os_wf s \<Longrightarrow> os_wf (snd (fd_Stat f s))"
  by (auto simp: fd_Stat_def tick_def intro!: os_wf_intros split: option.splits)

lemma os_wf_ReadAt [os_wf_intros]: "os_wf s \<Longrightarrow> os_wf (snd (os_ReadAt f n off s))"
  by (auto simp: os_ReadAt_def tick_def Let_def intro!: os_wf_intros split: option.splits)

lemma os_wf_fd_Seek [os_wf_intros]: "os_wf s \<Longrightarrow> os_wf (snd (fd_Seek f s))"
  by (auto simp: fd_Seek_def tick_def intro!: os_wf_intros split: option.splits)

lemma os_wf_ReadAll [os_wf_intros]: "os_wf s \<Longrightarrow> os_wf (snd (os_ReadAll f s))"
  by (auto simp: os_ReadAll_def tick_def intro!: os_wf_intros split: option.splits)

lemma os_wf_WriteAt [os_wf_intros]: "os_wf s \<Longrightarrow> os_wf (snd (os_WriteAt f d off s))"
  using os_wf_set_inode [OF os_wf_tick]
  by (fastforce simp: os_WriteAt_def tick_def Let_def split: option.splits)

lemma os_wf_Truncate [os_wf_intros]: "os_wf s \<Longrightarrow> os_wf (snd (os_Truncate f sz s))"
  using os_wf_set_inode [OF os_wf_tick]
  by (fastforce simp: os_Truncate_def tick_def intro!: os_wf_tick split: option.splits)

section \<open>Which open files an operation changes\<close>

lemma tick_simps [simp]:
  "fst (tick s) = faults s (ticks s)" "snd (tick s) = s\<lparr>ticks := Suc (ticks s)\<rparr>"
  by (simp_all add: tick_def)

lemma OpenFile_Inl_fds:
  "os_OpenFile p fl perm s = (Inl e, s') \<Longrightarrow> fds s' = fds s \<and> names s' = names s \<and> inodes s' = inodes s"
  by (auto simp: os_OpenFile_def tick_def Let_def case_prod_beta split: option.splits if_splits)

lemma OpenFile_Inr_fds:
  "os_OpenFile p fl perm s = (Inr f, s') \<Longrightarrow>
     f = next_fd s \<and> next_fd s' = Suc (next_fd s) \<and> (\<exists>i. fds s' = (fds s)(f \<mapsto> (p, i, o_rdwr fl)))"
  by (auto simp: os_OpenFile_def tick_def Let_def case_prod_beta open_ino_def add_inode_def
      split: option.splits if_splits)

text \<open>Opening an existing name without truncation gives a handle on its inode and changes no
  name and no content.\<close>

lemma OpenFile_existing:
  assumes "os_OpenFile p fl perm s = (Inr f, s')" and "lookup s p = Some (i, n)" and "\<not> o_trunc fl"
  shows "fds s' f = Some (p, i, o_rdwr fl) \<and> inodes s' = inodes s \<and> names s' = names s"
  using assms by (auto simp: os_OpenFile_def tick_def Let_def case_prod_beta open_ino_def
      split: option.splits if_splits)

lemma mkdir_list_fds: "fds (snd (mkdir_list perm ps s)) = fds s"
  by (induction perm ps s rule: mkdir_list.induct)
     (auto simp: tick_def add_inode_def split: option.splits)

lemma fds_unchanged [simp]:
  "fds (snd (os_Stat p s)) = fds s"
  "fds (snd (os_MkdirAll p perm s)) = fds s"
  "fds (snd (os_ReadDir p s)) = fds s"
  "fds (snd (os_Chmod p perm s)) = fds s"
  "fds (snd (os_Remove p s)) = fds s"
  "fds (snd (os_Rename p q s)) = fds s"
  "fds (snd (fd_Stat f s)) = fds s"
  "fds (snd (os_ReadAt f n off s)) = fds s"
  "fds (snd (os_WriteAt f d off s)) = fds s"
  "fds (snd (os_Truncate f sz s)) = fds s"
  "fds (snd (os_ReadAll f s)) = fds s"
  "fds (snd (fd_Seek f s)) = fds s"
  by (auto simp: fd_Seek_def os_Stat_def os_MkdirAll_def os_ReadDir_def os_Chmod_def os_Remove_def os_Rename_def
      fd_Stat_def os_ReadAt_def os_WriteAt_def os_Truncate_def os_ReadAll_def tick_def remove_name_def
      mkdir_list_fds Let_def split: option.splits)

lemma fds_Close [simp]: "fds (os_Close f s) = (fds s)(f := None)"
  by (simp add: os_Close_def)

text \<open>States with the same files: same names, inodes and working directory.\<close>

definition same_files :: "os_state \<Rightarrow> os_state \<Rightarrow> bool" where
  "same_files s t \<longleftrightarrow> names t = names s \<and> inodes t = inodes s \<and> cwd t = cwd s"

lemma same_files_refl [simp]: "same_files s s"
  by (simp add: same_files_def)

lemma same_files_trans: "same_files s t \<Longrightarrow> same_files t u \<Longrightarrow> same_files s u"
  by (simp add: same_files_def)

lemma same_files_lookup: "same_files s t \<Longrightarrow> lookup t p = lookup s p"
  unfolding same_files_def lookup_def resolve_def by (elim conjE) (simp only:)

lemma same_files_ReadAll: "same_files s (snd (os_ReadAll f s))"
  by (auto simp: same_files_def os_ReadAll_def tick_def split: option.splits)

lemma same_files_Close: "same_files s (os_Close f s)"
  by (simp add: same_files_def os_Close_def)

lemma same_files_CloseErr: "same_files s (snd (os_CloseErr f s))"
  by (simp add: same_files_def os_CloseErr_def tick_def os_Close_def split: option.splits)

lemma same_files_OpenFile:
  "\<not> o_create fl \<Longrightarrow> \<not> o_trunc fl \<Longrightarrow> same_files s (snd (os_OpenFile p fl perm s))"
  by (auto simp: same_files_def os_OpenFile_def tick_def Let_def open_ino_def split: option.splits)

lemma ReadAll_open:
  "os_ReadAll f s = (Inr b, s') \<Longrightarrow> fds s f = Some (p, i, w) \<Longrightarrow>
     \<exists>n. inodes s i = Some n \<and> \<not> i_dir n \<and> b = i_data n"
  by (auto simp: os_ReadAll_def tick_def split: option.splits if_splits)

text \<open>A machine with an empty root directory, no open files and no faults, for concrete runs.\<close>

definition empty_os :: os_state where
  "empty_os = \<lparr>names = [(''/'', 0)],
     inodes = [0 \<mapsto> \<lparr>i_dir = True, i_data = [], i_mode = 493, i_mtime = 0\<rparr>], next_ino = 1,
     fds = Map.empty, next_fd = 0, cwd = ''/'', umask = 18, clock = 100, faults = Map.empty, ticks = 0\<rparr>"

lemma os_wf_empty_os: "os_wf empty_os"
  by (simp add: os_wf_def empty_os_def)

lemma fds_empty_os [simp]: "fds empty_os = Map.empty"
  by (simp add: empty_os_def)

end
