(* ===== verification/FdCache.thy ===== *)
theory FdCache
  imports GoOS "HOL-Library.AList"
begin

text \<open>
  The file descriptor cache of the server (\<open>fdEntry\<close>, \<open>fdCache\<close>, \<open>newFDCache\<close>, \<open>get\<close>, \<open>evict\<close>,
  \<open>close\<close>, \<open>sweepLoop\<close> in \<open>serve.go\<close>), as functions on the cache and the operating system. Every
  method runs under the cache's mutex, so one call is one step. \<open>time.Now()\<close> is the clock of the
  operating system's state.

  The invariant \<open>fc_inv\<close> ties the cache to the open files: each entry holds an open handle for
  its own path with the access it records, and no other handle is open, so nothing dangles and
  nothing leaks. The interface of the cache is the locale \<open>fd_cache\<close>: what its clients, the
  request handlers, rely on.
\<close>

record fdEntry =
  e_file :: fd
  e_writable :: bool
  e_lastAccess :: int64

record fdCache =
  idleTimeout :: int64
  files :: "(string \<times> fdEntry) list"

definition newFDCache :: "int64 \<Rightarrow> fdCache" where
  "newFDCache t = \<lparr>idleTimeout = t, files = []\<rparr>"

definition O_RDONLY :: OpenFlags where
  "O_RDONLY = \<lparr>o_rdwr = False, o_create = False, o_trunc = False\<rparr>"

definition O_RDWR :: OpenFlags where
  "O_RDWR = \<lparr>o_rdwr = True, o_create = False, o_trunc = False\<rparr>"

lemma o_flags [simp]: "o_rdwr O_RDWR" "\<not> o_rdwr O_RDONLY" "\<not> o_trunc O_RDWR" "\<not> o_trunc O_RDONLY"
  "o_rdwr (if w then O_RDWR else O_RDONLY) = w"
  by (simp_all add: O_RDWR_def O_RDONLY_def)

type_synonym cache_state = "fdCache \<times> os_state"

definition fc_get :: "string \<Rightarrow> bool \<Rightarrow> cache_state \<Rightarrow> (goerror + fd) \<times> cache_state" where
  "fc_get path writable = (\<lambda>(fc, s).
     case map_of (files fc) path of
       Some e \<Rightarrow>
         if writable \<and> \<not> e_writable e then
           (case os_OpenFile path O_RDWR 420 (os_Close (e_file e) s) of
              (Inl err, s') \<Rightarrow> (Inl err, fc\<lparr>files := AList.delete path (files fc)\<rparr>, s')
            | (Inr f, s') \<Rightarrow>
                (Inr f, fc\<lparr>files := AList.update path
                   (e\<lparr>e_file := f, e_writable := True, e_lastAccess := clock s'\<rparr>) (files fc)\<rparr>, s'))
         else (Inr (e_file e),
               fc\<lparr>files := AList.update path (e\<lparr>e_lastAccess := clock s\<rparr>) (files fc)\<rparr>, s)
     | None \<Rightarrow>
         (case os_OpenFile path (if writable then O_RDWR else O_RDONLY) 420 s of
            (Inl err, s') \<Rightarrow> (Inl err, fc, s')
          | (Inr f, s') \<Rightarrow>
              (Inr f, fc\<lparr>files := AList.update path
                 \<lparr>e_file = f, e_writable = writable, e_lastAccess = clock s'\<rparr> (files fc)\<rparr>, s')))"

definition fc_evict :: "string \<Rightarrow> cache_state \<Rightarrow> cache_state" where
  "fc_evict path = (\<lambda>(fc, s).
     case map_of (files fc) path of
       Some e \<Rightarrow> (fc\<lparr>files := AList.delete path (files fc)\<rparr>, os_Close (e_file e) s)
     | None \<Rightarrow> (fc, s))"

definition close_files :: "(string \<times> fdEntry) list \<Rightarrow> os_state \<Rightarrow> os_state" where
  "close_files es s = fold (\<lambda>(_, e). os_Close (e_file e)) es s"

text \<open>\<open>close\<close>, after the sweep goroutine has stopped.\<close>

definition fc_close :: "cache_state \<Rightarrow> cache_state" where
  "fc_close = (\<lambda>(fc, s). (fc\<lparr>files := []\<rparr>, close_files (files fc) s))"

text \<open>One tick of \<open>sweepLoop\<close>: entries idle for longer than the timeout are closed and removed.\<close>

definition idle :: "int64 \<Rightarrow> fdCache \<Rightarrow> fdEntry \<Rightarrow> bool" where
  "idle now fc e = (now - e_lastAccess e > idleTimeout fc)"

definition fc_sweep :: "int64 \<Rightarrow> cache_state \<Rightarrow> cache_state" where
  "fc_sweep now = (\<lambda>(fc, s).
     (fc\<lparr>files := filter (\<lambda>(_, e). \<not> idle now fc e) (files fc)\<rparr>,
      close_files (filter (\<lambda>(_, e). idle now fc e) (files fc)) s))"

section \<open>The invariant\<close>

text \<open>How a cache, as a map, and the table of open handles correspond.\<close>

definition ties :: "(string \<Rightarrow> fdEntry option) \<Rightarrow> (fd \<Rightarrow> (string \<times> ino \<times> bool) option) \<Rightarrow> bool" where
  "ties m h \<longleftrightarrow>
     (\<forall>p e. m p = Some e \<longrightarrow> (\<exists>i. h (e_file e) = Some (p, i, e_writable e)))
   \<and> (\<forall>f x. h f = Some x \<longrightarrow> (\<exists>p e. m p = Some e \<and> e_file e = f))"

lemma tiesD: "ties m h \<Longrightarrow> m p = Some e \<Longrightarrow> \<exists>i. h (e_file e) = Some (p, i, e_writable e)"
  by (simp add: ties_def)

lemma tiesD2: "ties m h \<Longrightarrow> h f = Some x \<Longrightarrow> \<exists>p e. m p = Some e \<and> e_file e = f"
  unfolding ties_def by blast

lemma tiesI:
  assumes "\<And>p e. m p = Some e \<Longrightarrow> \<exists>i. h (e_file e) = Some (p, i, e_writable e)"
    and "\<And>f x. h f = Some x \<Longrightarrow> \<exists>p e. m p = Some e \<and> e_file e = f"
  shows "ties m h"
  using assms unfolding ties_def by blast

lemma ties_same: "ties m h \<Longrightarrow> m p = Some e \<Longrightarrow> m q = Some e' \<Longrightarrow> e_file e = e_file e' \<Longrightarrow> p = q"
  by (metis tiesD option.inject prod.inject)

lemma ties_empty: "ties Map.empty Map.empty"
  by (simp add: ties_def)

lemma ties_add:
  assumes "ties m h" and "h (e_file e) = None" and "m p = None"
  shows "ties (m(p \<mapsto> e)) (h(e_file e \<mapsto> (p, i, e_writable e)))"
proof (rule tiesI)
  fix q e'
  assume q: "(m(p \<mapsto> e)) q = Some e'"
  show "\<exists>j. (h(e_file e \<mapsto> (p, i, e_writable e))) (e_file e') = Some (q, j, e_writable e')"
  proof (cases "q = p")
    case False
    then obtain j where "h (e_file e') = Some (q, j, e_writable e')"
      using q tiesD [OF assms(1), of q e'] by auto
    then show ?thesis using assms(2) by auto
  qed (use q in auto)
next
  fix f x
  assume "(h(e_file e \<mapsto> (p, i, e_writable e))) f = Some x"
  then consider "f = e_file e" | "h f = Some x" by (auto split: if_splits)
  then show "\<exists>q e'. (m(p \<mapsto> e)) q = Some e' \<and> e_file e' = f"
  proof cases
    case 1
    then show ?thesis by (intro exI [of _ p] exI [of _ e]) simp
  next
    case 2
    then obtain q d where "m q = Some d" "e_file d = f" using tiesD2 [OF assms(1)] by blast
    then show ?thesis using assms(3) by (intro exI [of _ q] exI [of _ d]) auto
  qed
qed

lemma ties_touch:
  assumes "ties m h" and "m p = Some e" and "e_file e' = e_file e" and "e_writable e' = e_writable e"
  shows "ties (m(p \<mapsto> e')) h"
proof (rule tiesI)
  fix q d
  assume "(m(p \<mapsto> e')) q = Some d"
  then show "\<exists>i. h (e_file d) = Some (q, i, e_writable d)"
    using tiesD [OF assms(1)] assms(2-) by (cases "q = p") auto
next
  fix f x
  assume "h f = Some x"
  then obtain q d where "m q = Some d" "e_file d = f" using tiesD2 [OF assms(1)] by blast
  then show "\<exists>q d. (m(p \<mapsto> e')) q = Some d \<and> e_file d = f"
    using assms(2,3) by (cases "q = p") auto
qed

lemma ties_restrict:
  assumes "ties m h"
    and m': "\<And>p. m' p = (case m p of None \<Rightarrow> None | Some e \<Rightarrow> if P p e then Some e else None)"
    and h': "\<And>f. h' f = (if \<exists>p e. m p = Some e \<and> \<not> P p e \<and> e_file e = f then None else h f)"
  shows "ties m' h'"
proof (rule tiesI)
  fix p e
  assume "m' p = Some e"
  then have e: "m p = Some e" "P p e" using m' by (auto split: option.splits if_splits)
  then have "\<nexists>q d. m q = Some d \<and> \<not> P q d \<and> e_file d = e_file e"
    using ties_same [OF assms(1)] by fastforce
  then show "\<exists>i. h' (e_file e) = Some (p, i, e_writable e)"
    using h' tiesD [OF assms(1) e(1)] by simp
next
  fix f x
  assume f: "h' f = Some x"
  then have "h f = Some x" and no: "\<nexists>p e. m p = Some e \<and> \<not> P p e \<and> e_file e = f"
    using h' [of f] by (auto split: if_splits)
  then obtain p e where "m p = Some e" "e_file e = f" using tiesD2 [OF assms(1)] by blast
  then show "\<exists>p e. m' p = Some e \<and> e_file e = f"
    using no m' [of p] by (intro exI [of _ p] exI [of _ e]) auto
qed

lemma ties_drop:
  assumes "ties m h" and "m p = Some e"
  shows "ties (m(p := None)) (h(e_file e := None))"
  using assms(2) ties_same [OF assms(1)]
  by (intro ties_restrict [OF assms(1), where P = "\<lambda>q _. q \<noteq> p"]) (auto split: option.splits)

definition fc_inv :: "cache_state \<Rightarrow> bool" where
  "fc_inv = (\<lambda>(fc, s). distinct (map fst (files fc)) \<and> os_wf s \<and> ties (map_of (files fc)) (fds s))"

lemma fc_invD:
  assumes "fc_inv (fc, s)"
  shows "distinct (map fst (files fc))" "os_wf s" "ties (map_of (files fc)) (fds s)"
  using assms by (simp_all add: fc_inv_def)

lemma fc_invI:
  "distinct (map fst (files fc)) \<Longrightarrow> os_wf s \<Longrightarrow> ties (map_of (files fc)) (fds s) \<Longrightarrow> fc_inv (fc, s)"
  by (simp add: fc_inv_def)

lemma fds_close_files:
  "fds (close_files es s) f = (if f \<in> (\<lambda>x. e_file (snd x)) ` set es then None else fds s f)"
  unfolding close_files_def
  by (induction es arbitrary: s) (auto simp: case_prod_beta)

lemma os_wf_close_files: "os_wf s \<Longrightarrow> os_wf (close_files es s)"
  unfolding close_files_def
  by (induction es arbitrary: s) (auto simp: case_prod_beta os_wf_Close)

lemma map_of_filter_snd:
  "distinct (map fst xs) \<Longrightarrow>
     map_of (filter (\<lambda>(_, e). P e) xs) p =
       (case map_of xs p of None \<Rightarrow> None | Some e \<Rightarrow> if P e then Some e else None)"
  by (induction xs) (auto simp: map_of_eq_None_iff rev_image_eqI split: option.splits)

lemma distinct_map_fst_filter: "distinct (map fst xs) \<Longrightarrow> distinct (map fst (filter P xs))"
  by (induction xs) auto

lemma fc_inv_open:
  assumes "fc_inv (fc, s)" and "map_of (files fc) p = None"
    and "os_OpenFile p fl perm s = (Inr (e_file e), s')" and "e_writable e = o_rdwr fl"
  shows "fc_inv (fc\<lparr>files := AList.update p e (files fc)\<rparr>, s')"
proof (rule fc_invI)
  obtain i where f: "e_file e = next_fd s" and fds: "fds s' = (fds s)(e_file e \<mapsto> (p, i, o_rdwr fl))"
    using OpenFile_Inr_fds [OF assms(3)] by auto
  have "fds s (e_file e) = None"
    using fc_invD(2) [OF assms(1)] f unfolding os_wf_def
    by (metis less_irrefl not_None_eq prod_cases3)
  then show "ties (map_of (files (fc\<lparr>files := AList.update p e (files fc)\<rparr>))) (fds s')"
    using ties_add [OF fc_invD(3) [OF assms(1)] _ assms(2), of e i] fds assms(4) by (simp add: update_conv')
  show "os_wf s'" using os_wf_OpenFile [of s p fl perm] fc_invD(2) [OF assms(1)] assms(3) by simp
qed (use fc_invD(1) [OF assms(1)] in \<open>simp add: distinct_update\<close>)

lemma fc_inv_touch:
  assumes "fc_inv (fc, s)" and "map_of (files fc) p = Some e"
    and "e_file e' = e_file e" and "e_writable e' = e_writable e"
  shows "fc_inv (fc\<lparr>files := AList.update p e' (files fc)\<rparr>, s)"
  using fc_invD [OF assms(1)] ties_touch [OF fc_invD(3) [OF assms(1)] assms(2-)]
  by (simp add: fc_inv_def update_conv' distinct_update)

lemma fc_inv_drop:
  assumes "fc_inv (fc, s)" and "map_of (files fc) p = Some e"
  shows "fc_inv (fc\<lparr>files := AList.delete p (files fc)\<rparr>, os_Close (e_file e) s)"
  using fc_invD [OF assms(1)] ties_drop [OF fc_invD(3) [OF assms(1)] assms(2)]
  by (simp add: fc_inv_def delete_conv' distinct_delete os_wf_Close)

lemma fc_inv_os:
  assumes "fc_inv (fc, s)" and "fds s' = fds s" and "os_wf s'"
  shows "fc_inv (fc, s')"
  using assms(2,3) fc_invD [OF assms(1)] by (intro fc_invI) simp_all

lemma OpenFile_Inl_inv:
  assumes "fc_inv (fc, s)" and "os_OpenFile p fl perm s = (Inl e, s')"
  shows "fc_inv (fc, s')"
  using OpenFile_Inl_fds [OF assms(2)] os_wf_OpenFile [OF fc_invD(2) [OF assms(1)], of p fl perm] assms
  by (intro fc_inv_os [OF assms(1)]) simp_all

lemma fc_inv_upgrade:
  assumes "fc_inv (fc, s)" and "map_of (files fc) p = Some e"
    and "os_OpenFile p fl perm (os_Close (e_file e) s) = (Inr (e_file e'), s')" and "e_writable e' = o_rdwr fl"
  shows "fc_inv (fc\<lparr>files := AList.update p e' (files fc)\<rparr>, s')"
proof (rule fc_invI)
  let ?fc = "fc\<lparr>files := AList.delete p (files fc)\<rparr>"
  have "fc_inv (?fc\<lparr>files := AList.update p e' (files ?fc)\<rparr>, s')"
    using assms(3,4) by (intro fc_inv_open [OF fc_inv_drop [OF assms(1,2)]]) (simp_all add: delete_conv')
  then have "ties ((map_of (AList.delete p (files fc)))(p \<mapsto> e')) (fds s')" and wf: "os_wf s'"
    by (simp_all add: fc_inv_def update_conv')
  then show "ties (map_of (files (fc\<lparr>files := AList.update p e' (files fc)\<rparr>))) (fds s')"
    by (simp add: update_conv' delete_conv')
  show "os_wf s'" by (rule wf)
qed (use fc_invD(1) [OF assms(1)] in \<open>simp add: distinct_update\<close>)

text \<open>Every operation keeps the invariant.\<close>

lemma fc_get_inv:
  assumes "fc_inv st" and "fc_get path writable st = (r, st')"
  shows "fc_inv st'"
proof -
  obtain fc s where st: "st = (fc, s)" by (cases st)
  then have inv: "fc_inv (fc, s)" using assms(1) by simp
  show ?thesis
  proof (cases "map_of (files fc) path")
    case None
    let ?fl = "if writable then O_RDWR else O_RDONLY"
    show ?thesis
      using assms(2) unfolding st fc_get_def
      by (auto simp: None intro!: fc_inv_open [OF inv None, where fl = ?fl] OpenFile_Inl_inv [OF inv]
          split: prod.splits sum.splits)
  next
    case (Some e)
    show ?thesis
    proof (cases "writable \<and> \<not> e_writable e")
      case True
      then show ?thesis
        using assms(2) unfolding st fc_get_def
        by (auto simp: Some intro!: fc_inv_upgrade [OF inv Some, where fl = O_RDWR]
            OpenFile_Inl_inv [OF fc_inv_drop [OF inv Some]] split: prod.splits sum.splits)
    next
      case False
      then show ?thesis
        using assms(2) unfolding st fc_get_def
        by (auto simp: Some intro!: fc_inv_touch [OF inv Some])
    qed
  qed
qed

text \<open>A handle that \<open>get\<close> returns is open on the path it was asked for, with write access if that
  was asked for, and is the one in the cache.\<close>

lemma fc_get_usable:
  assumes "fc_inv (fc, s)" and "fc_get path writable (fc, s) = (Inr f, fc', s')"
  shows "\<exists>i w. fds s' f = Some (path, i, w) \<and> (writable \<longrightarrow> w)
    \<and> (\<exists>e. map_of (files fc') path = Some e \<and> e_file e = f \<and> e_writable e = w)"
proof -
  obtain e where e: "map_of (files fc') path = Some e" "e_file e = f" "writable \<longrightarrow> e_writable e"
    using assms(2)
    by (auto simp: fc_get_def update_conv' split: option.splits if_splits prod.splits sum.splits)
  have "fc_inv (fc', s')" using assms by (rule fc_get_inv)
  from tiesD [OF fc_invD(3) [OF this] e(1)] e show ?thesis by auto
qed

lemma fc_evict_inv: "fc_inv st \<Longrightarrow> fc_inv (fc_evict path st)"
  by (cases st) (auto simp: fc_evict_def fc_inv_drop split: option.splits)

lemma fc_evict_gone: "fc_inv (fc, s) \<Longrightarrow> map_of (files (fst (fc_evict path (fc, s)))) path = None"
  by (auto simp: fc_evict_def delete_conv' split: option.splits)

lemma in_close_files:
  "distinct (map fst xs) \<Longrightarrow>
     f \<in> (\<lambda>x. e_file (snd x)) ` set (filter (\<lambda>(_, e). P e) xs) \<longleftrightarrow>
       (\<exists>p e. map_of xs p = Some e \<and> P e \<and> e_file e = f)"
  by force

lemma fc_sweep_inv: "fc_inv st \<Longrightarrow> fc_inv (fc_sweep now st)"
proof -
  assume "fc_inv st"
  then obtain fc s where st: "st = (fc, s)" and inv: "fc_inv (fc, s)" by (cases st) auto
  note d = fc_invD(1) [OF inv]
  have "ties (map_of (filter (\<lambda>(_, e). \<not> idle now fc e) (files fc)))
      (fds (close_files (filter (\<lambda>(_, e). idle now fc e) (files fc)) s))"
    by (rule ties_restrict [OF fc_invD(3) [OF inv], where P = "\<lambda>_ e. \<not> idle now fc e"])
       (simp_all only: map_of_filter_snd [OF d] fds_close_files in_close_files [OF d] not_not)
  then show ?thesis
    using d fc_invD(2) [OF inv]
    by (simp add: st fc_sweep_def fc_inv_def distinct_map_fst_filter os_wf_close_files)
qed

lemma fc_close_all: "fc_inv (fc, s) \<Longrightarrow> fds (snd (fc_close (fc, s))) = Map.empty"
proof
  fix f
  assume inv: "fc_inv (fc, s)"
  have "f \<in> (\<lambda>x. e_file (snd x)) ` set (files fc)" if "fds s f = Some x" for x
    using tiesD2 [OF fc_invD(3) [OF inv] that] by (metis image_eqI map_of_SomeD snd_conv)
  then show "fds (snd (fc_close (fc, s))) f = None"
    by (cases "fds s f") (auto simp: fc_close_def fds_close_files)
qed

lemma fc_close_inv: "fc_inv st \<Longrightarrow> fc_inv (fc_close st)"
proof -
  assume "fc_inv st"
  then obtain fc s where st: "st = (fc, s)" and inv: "fc_inv (fc, s)" by (cases st) auto
  show ?thesis
    using fc_close_all [OF inv] fc_invD(2) [OF inv] ties_empty
    by (simp add: st fc_close_def fc_inv_def os_wf_close_files)
qed

lemma newFDCache_inv: "os_wf s \<Longrightarrow> fds s = Map.empty \<Longrightarrow> fc_inv (newFDCache t, s)"
  by (simp add: fc_inv_def newFDCache_def ties_empty)

section \<open>The interface of the cache\<close>

datatype cache_op = Get string bool | Evict string | Sweep int64

definition cache_step :: "cache_op \<Rightarrow> cache_state \<Rightarrow> cache_state" where
  "cache_step op st =
     (case op of Get p w \<Rightarrow> snd (fc_get p w st) | Evict p \<Rightarrow> fc_evict p st | Sweep now \<Rightarrow> fc_sweep now st)"

text \<open>What the request handlers rely on: the operations keep an invariant, and a handle that
  \<open>get\<close> returned is open on its path with the access asked for, until the path is evicted.\<close>

locale fd_cache =
  fixes get :: "string \<Rightarrow> bool \<Rightarrow> 'st \<Rightarrow> (goerror + fd) \<times> 'st"
    and evict :: "string \<Rightarrow> 'st \<Rightarrow> 'st"
    and inv :: "'st \<Rightarrow> bool"
    and holds :: "'st \<Rightarrow> fd \<Rightarrow> string \<Rightarrow> bool \<Rightarrow> bool"
  assumes get_inv: "inv st \<Longrightarrow> get p w st = (r, st') \<Longrightarrow> inv st'"
    and get_holds: "inv st \<Longrightarrow> get p w st = (Inr f, st') \<Longrightarrow> holds st' f p w"
    and evict_inv: "inv st \<Longrightarrow> inv (evict p st)"
    and evict_releases: "inv st \<Longrightarrow> \<not> holds (evict p st) f p w"
begin

lemma get_snd_inv: "inv st \<Longrightarrow> inv (snd (get p w st))"
  using get_inv by (metis prod.collapse)

text \<open>The pattern of the hash handler: get a handle, use it, evict the path.\<close>

lemma get_use_evict:
  assumes "inv st" and "\<And>st'. inv st' \<Longrightarrow> inv (use st')"
  shows "inv (evict p (use (snd (get p w st))))" "\<not> holds (evict p (use (snd (get p w st)))) f p w'"
  using assms get_snd_inv evict_inv evict_releases by blast+

end

text \<open>A handle is open on a path, with write access if asked for.\<close>

definition open_on :: "cache_state \<Rightarrow> fd \<Rightarrow> string \<Rightarrow> bool \<Rightarrow> bool" where
  "open_on st f p w = (case fds (snd st) f of None \<Rightarrow> False | Some (q, _, w') \<Rightarrow> q = p \<and> (w \<longrightarrow> w'))"

lemma fc_evict_releases: "fc_inv st \<Longrightarrow> \<not> open_on (fc_evict p st) f p w"
proof
  assume inv: "fc_inv st" and "open_on (fc_evict p st) f p w"
  then obtain fc s i w' where st: "fc_evict p st = (fc, s)" and f: "fds s f = Some (p, i, w')"
    by (cases "fc_evict p st") (auto simp: open_on_def split: option.splits)
  have inv': "fc_inv (fc, s)" using fc_evict_inv [OF inv, of p] st by simp
  then obtain q e where q: "map_of (files fc) q = Some e" "e_file e = f"
    using tiesD2 [OF fc_invD(3) f] by blast
  then have "q = p" using tiesD [OF fc_invD(3) [OF inv'] q(1)] f by auto
  then show False using q(1) st inv fc_evict_gone [of "fst st" "snd st" p] by simp
qed

interpretation fcache: fd_cache fc_get fc_evict fc_inv open_on
proof unfold_locales
  fix st p w f st'
  assume "fc_inv st" and "fc_get p w st = (Inr f, st')"
  then show "open_on st' f p w"
    using fc_get_usable [of "fst st" "snd st" p w f "fst st'" "snd st'"] by (auto simp: open_on_def)
qed (auto intro: fc_get_inv fc_evict_inv dest: fc_evict_releases)

lemma cache_step_inv: "fc_inv st \<Longrightarrow> fc_inv (cache_step op st)"
  by (cases op) (auto simp: cache_step_def fcache.get_snd_inv fc_evict_inv fc_sweep_inv)

lemma cache_run_inv: "fc_inv st \<Longrightarrow> fc_inv (fold cache_step ops st)"
  by (induction ops arbitrary: st) (auto simp: cache_step_inv)

section \<open>Properties of the cache\<close>

text \<open>Whatever the sequence of \<open>get\<close>, \<open>evict\<close> and sweep calls and whichever system calls
  fail, the open files of the server are exactly the cached ones, each on its own path with the
  access its entry records (nothing dangles, nothing leaks), and after \<open>close\<close> no file is open.\<close>

theorem fdCache_no_leak:
  assumes "os_wf s" and "fds s = Map.empty"
    and "fold cache_step ops (newFDCache t, s) = (fc, s')"
  shows "(\<forall>f. fds s' f \<noteq> None \<longleftrightarrow> (\<exists>p e. map_of (files fc) p = Some e \<and> e_file e = f))
    \<and> (\<forall>p e. map_of (files fc) p = Some e \<longrightarrow> (\<exists>i. fds s' (e_file e) = Some (p, i, e_writable e)))
    \<and> fds (snd (fc_close (fc, s'))) = Map.empty"
proof -
  have inv: "fc_inv (fc, s')"
    using cache_run_inv [OF newFDCache_inv [OF assms(1,2)], of ops t] assms(3) by simp
  note t = fc_invD(3) [OF inv]
  have "fds s' f \<noteq> None \<longleftrightarrow> (\<exists>p e. map_of (files fc) p = Some e \<and> e_file e = f)" for f
    using tiesD [OF t] tiesD2 [OF t] by (metis not_None_eq)
  then show ?thesis using tiesD [OF t] fc_close_all [OF inv] by blast
qed

theorem fdCache_no_leak_witness:
  "fds (snd (fc_close (fold cache_step [Get ''/'' False, Sweep 5, Get ''/'' True, Evict ''/'']
      (newFDCache 30, empty_os)))) = Map.empty"
  using fdCache_no_leak [OF os_wf_empty_os fds_empty_os]
  by (metis prod.collapse)

text \<open>C27: a handle returned by \<open>get\<close> is open, on the path asked for, writable if write access was
  asked for (a read-only entry is upgraded, never handed out for writing), and it is the cached one.\<close>

theorem fdCache_get_correct:
  assumes "fc_inv (fc, s)" and "fc_get path writable (fc, s) = (Inr f, fc', s')"
  shows "(\<exists>i w. fds s' f = Some (path, i, w) \<and> (writable \<longrightarrow> w)
      \<and> (\<exists>e. map_of (files fc') path = Some e \<and> e_file e = f \<and> e_writable e = w))
    \<and> fc_inv (fc', s')"
  using fc_get_usable [OF assms] fc_get_inv [OF assms] by blast

theorem fdCache_get_correct_witness:
  "\<exists>i w. fds (snd (snd (fc_get ''/'' False (newFDCache 30, empty_os)))) 0 = Some (''/'', i, w)"
proof -
  have "fc_inv (newFDCache 30, empty_os)" by (simp add: newFDCache_inv os_wf_empty_os)
  moreover have "fst (fc_get ''/'' False (newFDCache 30, empty_os)) = Inr 0"
    by code_simp
  ultimately show ?thesis
    using fdCache_get_correct [of "newFDCache 30" empty_os "''/''" False 0] by (metis prod.collapse)
qed

text \<open>A sweep closes exactly the entries idle for longer than the timeout, and leaves every
  other entry with its handle open.\<close>

theorem fdCache_sweep_exact:
  assumes "fc_inv (fc, s)" and "fc_sweep now (fc, s) = (fc', s')" and "map_of (files fc) p = Some e"
  shows "if now - e_lastAccess e > idleTimeout fc
    then map_of (files fc') p = None \<and> fds s' (e_file e) = None
    else map_of (files fc') p = Some e \<and> fds s' (e_file e) = fds s (e_file e)"
proof -
  note d = fc_invD(1) [OF assms(1)]
  have same: "\<not> idle now fc d" if "map_of (files fc) q = Some d" "e_file d = e_file e" "\<not> idle now fc e" for q d
    using ties_same [OF fc_invD(3) [OF assms(1)] that(1) assms(3) that(2)] that assms(3) by simp
  have m: "map_of (files fc') p = (if idle now fc e then None else Some e)"
    and h: "fds s' (e_file e) =
      (if \<exists>q d. map_of (files fc) q = Some d \<and> idle now fc d \<and> e_file d = e_file e then None else fds s (e_file e))"
    using assms(2,3)
    by (auto simp: fc_sweep_def map_of_filter_snd [OF d] fds_close_files in_close_files [OF d] simp del: set_filter)
  have "(\<exists>q d. map_of (files fc) q = Some d \<and> idle now fc d \<and> e_file d = e_file e) \<longleftrightarrow> idle now fc e"
    using same assms(3) by blast
  then show ?thesis using m h by (simp add: idle_def)
qed

theorem fdCache_sweep_exact_witness:
  "fds (snd (fc_sweep 200 (snd (fc_get ''/'' False (newFDCache 30, empty_os))))) 0 = None"
proof -
  let ?st = "snd (fc_get ''/'' False (newFDCache 30, empty_os))"
  have inv: "fc_inv ?st" by (simp add: fcache.get_snd_inv newFDCache_inv os_wf_empty_os)
  have e: "map_of (files (fst ?st)) ''/'' = Some \<lparr>e_file = 0, e_writable = False, e_lastAccess = 100\<rparr>"
    "idleTimeout (fst ?st) = 30"
    by code_simp+
  show ?thesis
    using fdCache_sweep_exact [of "fst ?st" "snd ?st" 200 "fst (fc_sweep 200 ?st)" "snd (fc_sweep 200 ?st)" "''/''"]
      inv e by simp
qed

end
