(* ===== verification/GoHash.thy ===== *)
theory GoHash
  imports Prelude
begin

text \<open>
  The checksums of Go's standard library the program uses: CRC-32 with the IEEE polynomial
  (\<open>hash/crc32\<close>), SHA-256 (\<open>crypto/sha256\<close>) and \<open>encoding/hex\<close>. They are the published algorithms
  as executable functions; shown are their output lengths, a check value of CRC-32, and
  that the hexadecimal text determines the bytes.
\<close>

section \<open>CRC-32\<close>

definition crc_step :: "uint32 \<Rightarrow> uint32" where
  "crc_step c = (if bit c 0 then drop_bit 1 c XOR 0xEDB88320 else drop_bit 1 c)"

definition crc_byte :: "uint32 \<Rightarrow> byte \<Rightarrow> uint32" where
  "crc_byte c b = crc_step (crc_step (crc_step (crc_step (crc_step (crc_step (crc_step (crc_step
     (c XOR ucast b))))))))"

definition ChecksumIEEE :: "bytes \<Rightarrow> uint32" where
  "ChecksumIEEE b = NOT (foldl crc_byte (NOT 0) b)"

lemma ChecksumIEEE_check: "ChecksumIEEE [97] = 0xE8B7BE43"
  by code_simp

section \<open>SHA-256\<close>

definition rotr :: "nat \<Rightarrow> uint32 \<Rightarrow> uint32" where
  "rotr n x = drop_bit n x OR push_bit (32 - n) x"

definition sha_K :: "uint32 list" where
  "sha_K = [
    1116352408, 1899447441, 3049323471, 3921009573, 961987163, 1508970993, 2453635748, 2870763221,
    3624381080, 310598401, 607225278, 1426881987, 1925078388, 2162078206, 2614888103, 3248222580,
    3835390401, 4022224774, 264347078, 604807628, 770255983, 1249150122, 1555081692, 1996064986,
    2554220882, 2821834349, 2952996808, 3210313671, 3336571891, 3584528711, 113926993, 338241895,
    666307205, 773529912, 1294757372, 1396182291, 1695183700, 1986661051, 2177026350, 2456956037,
    2730485921, 2820302411, 3259730800, 3345764771, 3516065817, 3600352804, 4094571909, 275423344,
    430227734, 506948616, 659060556, 883997877, 958139571, 1322822218, 1537002063, 1747873779,
    1955562222, 2024104815, 2227730452, 2361852424, 2428436474, 2756734187, 3204031479, 3329325298]"

definition sha_init :: "uint32 list" where
  "sha_init = [1779033703, 3144134277, 1013904242, 2773480762, 1359893119, 2600822924, 528734635, 1541459225]"

text \<open>Padding: a one bit, zeros, and the length in bits as 64 bits, to a multiple of 64 bytes.\<close>

definition sha_pad :: "bytes \<Rightarrow> bytes" where
  "sha_pad m =
     (let n = 8 * length m
      in m @ [0x80] @ replicate ((119 - length m mod 64) mod 64) 0
           @ PutUint32 (of_nat (n div 2 ^ 32)) @ PutUint32 (of_nat n))"

fun sha_words :: "bytes \<Rightarrow> uint32 list" where
  "sha_words (a # b # c # d # r) = Uint32 [a, b, c, d] # sha_words r"
| "sha_words _ = []"

text \<open>The message schedule, newest word first.\<close>

fun sha_schedule :: "nat \<Rightarrow> uint32 list \<Rightarrow> uint32 list" where
  "sha_schedule 0 w = w"
| "sha_schedule (Suc n) w =
     (let w15 = w ! 14; w2 = w ! 1;
          s0 = rotr 7 w15 XOR rotr 18 w15 XOR drop_bit 3 w15;
          s1 = rotr 17 w2 XOR rotr 19 w2 XOR drop_bit 10 w2
      in sha_schedule n ((w ! 15 + s0 + w ! 6 + s1) # w))"

fun sha_round :: "uint32 list \<Rightarrow> uint32 \<times> uint32 \<Rightarrow> uint32 list" where
  "sha_round [a, b, c, d, e, f, g, h] (k, w) =
     (let s1 = rotr 6 e XOR rotr 11 e XOR rotr 25 e;
          ch = (e AND f) XOR (NOT e AND g);
          t1 = h + s1 + ch + k + w;
          s0 = rotr 2 a XOR rotr 13 a XOR rotr 22 a;
          maj = (a AND b) XOR (a AND c) XOR (b AND c);
          t2 = s0 + maj
      in [t1 + t2, a, b, c, d + t1, e, f, g])"
| "sha_round hs kw = hs"

definition sha_block :: "uint32 list \<Rightarrow> bytes \<Rightarrow> uint32 list" where
  "sha_block hs blk =
     map2 (+) hs (foldl sha_round hs (zip sha_K (rev (sha_schedule 48 (rev (sha_words blk))))))"

fun sha_blocks :: "nat \<Rightarrow> uint32 list \<Rightarrow> bytes \<Rightarrow> uint32 list" where
  "sha_blocks 0 hs m = hs"
| "sha_blocks (Suc n) hs m = sha_blocks n (sha_block hs (take 64 m)) (drop 64 m)"

definition Sum256 :: "bytes \<Rightarrow> bytes" where
  "Sum256 m = (let p = sha_pad m in concat (map PutUint32 (sha_blocks (length p div 64) sha_init p)))"

lemma length_sha_round [simp]: "length hs = 8 \<Longrightarrow> length (sha_round hs kw) = 8"
  by (cases "(hs, kw)" rule: sha_round.cases) (auto simp: Let_def)

lemma length_foldl_sha_round: "length hs = 8 \<Longrightarrow> length (foldl sha_round hs xs) = 8"
  by (induction xs arbitrary: hs) auto

lemma length_sha_block [simp]: "length hs = 8 \<Longrightarrow> length (sha_block hs blk) = 8"
  by (simp add: sha_block_def length_foldl_sha_round)

lemma length_sha_blocks: "length hs = 8 \<Longrightarrow> length (sha_blocks n hs m) = 8"
  by (induction n arbitrary: hs m) auto

lemma length_Sum256 [simp]: "length (Sum256 m) = 32"
proof -
  have "length (concat (map PutUint32 ws)) = 4 * length ws" for ws
    by (induction ws) auto
  then show ?thesis
    by (simp add: Sum256_def Let_def length_sha_blocks sha_init_def)
qed

section \<open>Hexadecimal text\<close>

definition hex_digit :: "nat \<Rightarrow> char" where
  "hex_digit n = (if n < 10 then char_of (48 + n) else char_of (87 + n))"

definition EncodeToString :: "bytes \<Rightarrow> string" where
  "EncodeToString b = concat (map (\<lambda>x. [hex_digit (unat x div 16), hex_digit (unat x mod 16)]) b)"

lemma length_EncodeToString [simp]: "length (EncodeToString b) = 2 * length b"
  by (induction b) (auto simp: EncodeToString_def)

lemma hex_digit_inj: "m < 16 \<Longrightarrow> n < 16 \<Longrightarrow> hex_digit m = hex_digit n \<longleftrightarrow> m = n"
proof -
  assume "m < 16" "n < 16"
  then have "(if m < 10 then 48 + m else 87 + m) < 256" "(if n < 10 then 48 + n else 87 + n) < 256"
    by auto
  then have "hex_digit m = hex_digit n \<longleftrightarrow> (if m < 10 then 48 + m else 87 + m) = (if n < 10 then 48 + n else 87 + n)"
    by (auto simp: hex_digit_def dest!: arg_cong [where f = "of_char :: char \<Rightarrow> nat"])
  then show ?thesis using \<open>m < 16\<close> \<open>n < 16\<close> by (auto split: if_splits)
qed

lemma EncodeToString_inj: "EncodeToString a = EncodeToString b \<Longrightarrow> a = b"
proof (induction a arbitrary: b)
  case Nil
  then show ?case by (cases b) (auto simp: EncodeToString_def)
next
  case (Cons x a)
  then obtain y c where b: "b = y # c" by (cases b) (auto simp: EncodeToString_def)
  have "unat z div 16 < 16" for z :: byte
    using unsigned_less [of z, where ?'a = nat] by (simp add: less_mult_imp_div_less)
  then have "unat x div 16 = unat y div 16" "unat x mod 16 = unat y mod 16"
    using Cons.prems b by (auto simp: EncodeToString_def hex_digit_inj)
  then have "unat x = unat y" by (metis div_mult_mod_eq)
  then have "x = y" by (simp add: word_unat_eq_iff)
  then show ?case
    using Cons b by (auto simp: EncodeToString_def)
qed

end
