(* ===== verification/Auth.thy ===== *)
theory Auth
  imports GoOS GoHash
begin

text \<open>
  Authentication (\<open>auth.go\<close>): the session store, tokens and challenges, the search for the user
  that owns a public key, the check of an SSH signature, the derivation of the encryption key,
  the client's choice of a signer and the lookup in the SSH configuration.

  The SSH libraries are parameters: \<open>ssh_lib\<close> is the record of the functions of
  \<open>golang.org/x/crypto/ssh\<close> the sources call, over the library's types of public keys and
  signatures. Random bytes are an argument (\<open>rnd n\<close> is what \<open>crypto/rand\<close> delivers for \<open>n\<close> bytes).

  The session store's contract is the locale \<open>session_store\<close>.
\<close>

section \<open>Sessions\<close>

definition sessionTTL :: int64 where "sessionTTL = 5 * 60 * 1000000000"
definition challengeLen :: nat where "challengeLen = 32"

record sessionInfo =
  si_User :: string
  si_Home :: string
  si_EncryptionKey :: "bytes option"

type_synonym sessionStore = "string \<Rightarrow> sessionInfo option"

definition newSessionStore :: sessionStore where
  "newSessionStore = Map.empty"

text \<open>\<open>sessionTokenHex\<close> ignores the error of \<open>rand.Read\<close>; the buffer is zero then.\<close>

definition sessionTokenHex :: "(nat \<Rightarrow> goerror + bytes) \<Rightarrow> string" where
  "sessionTokenHex rnd = EncodeToString (case rnd 32 of Inl _ \<Rightarrow> replicate 32 0 | Inr b \<Rightarrow> b)"

definition ss_Put :: "(nat \<Rightarrow> goerror + bytes) \<Rightarrow> string \<Rightarrow> string \<Rightarrow> sessionStore \<Rightarrow> string \<times> sessionInfo \<times> sessionStore" where
  "ss_Put rnd user home st =
     (let token = sessionTokenHex rnd;
          info = \<lparr>si_User = user, si_Home = home, si_EncryptionKey = None\<rparr>
      in (token, info, st(token \<mapsto> info)))"

definition ss_Get :: "string \<Rightarrow> sessionStore \<Rightarrow> sessionInfo option" where
  "ss_Get token st = st token"

definition ss_Delete :: "string \<Rightarrow> sessionStore \<Rightarrow> sessionStore" where
  "ss_Delete token st = st(token := None)"

text \<open>An assignment through the pointer that \<open>Put\<close> returned: the stored entry changes.\<close>

definition ss_SetKey :: "string \<Rightarrow> bytes option \<Rightarrow> sessionStore \<Rightarrow> sessionStore" where
  "ss_SetKey token key st =
     (case st token of None \<Rightarrow> st | Some info \<Rightarrow> st(token \<mapsto> info\<lparr>si_EncryptionKey := key\<rparr>))"

definition generateChallenge :: "(nat \<Rightarrow> goerror + bytes) \<Rightarrow> goerror + bytes" where
  "generateChallenge rnd =
     (case rnd challengeLen of
        Inl e \<Rightarrow> Inl (Errorf (''generate challenge: '' @ err_text e))
      | Inr b \<Rightarrow> Inr b)"

text \<open>The contract of the session store, as the server's authentication uses it.\<close>

locale session_store =
  fixes put :: "'r \<Rightarrow> string \<Rightarrow> string \<Rightarrow> 's \<Rightarrow> string \<times> 'i \<times> 's"
    and get :: "string \<Rightarrow> 's \<Rightarrow> 'i option"
    and delete :: "string \<Rightarrow> 's \<Rightarrow> 's"
    and owner :: "'i \<Rightarrow> string"
  assumes put_get: "put r u h s = (t, i, s') \<Longrightarrow> get t' s' = (if t' = t then Some i else get t' s)"
    and put_owner: "put r u h s = (t, i, s') \<Longrightarrow> owner i = u"
    and delete_get: "get t' (delete t s) = (if t' = t then None else get t' s)"
begin

text \<open>A token that was issued answers until a session of the same token replaces it or it is deleted.\<close>

lemma put_other:
  "put r u h s = (t, i, s') \<Longrightarrow> get t' s = Some j \<Longrightarrow> t' \<noteq> t \<Longrightarrow> get t' s' = Some j"
  by (simp add: put_get)

lemma put_keeps: "put r u h s = (t, i, s') \<Longrightarrow> get t' s \<noteq> None \<Longrightarrow> get t' s' \<noteq> None"
  by (simp add: put_get)

lemma put_issues: "put r u h s = (t, i, s') \<Longrightarrow> \<exists>j. get t s' = Some j \<and> owner j = u"
  by (simp add: put_get put_owner)

lemma put_delete: "put r u h s = (t, i, s') \<Longrightarrow> get t s = None \<Longrightarrow> get x (delete t s') = get x s"
  by (simp add: put_get delete_get)

end

interpretation sess: session_store ss_Put ss_Get ss_Delete si_User
  by unfold_locales (auto simp: ss_Put_def ss_Get_def ss_Delete_def Let_def)

lemma ss_SetKey_get:
  "ss_Get t' (ss_SetKey t k st) =
     (if t' = t then map_option (\<lambda>i. i\<lparr>si_EncryptionKey := k\<rparr>) (ss_Get t st) else ss_Get t' st)"
  by (auto simp: ss_SetKey_def ss_Get_def split: option.splits)

section \<open>The SSH library\<close>

record ('pk, 'sig) ssh_lib =
  ParsePublicKey :: "bytes \<Rightarrow> goerror + 'pk"
  UnmarshalSignature :: "bytes \<Rightarrow> goerror + 'sig"
  Verify :: "'pk \<Rightarrow> bytes \<Rightarrow> 'sig \<Rightarrow> goerror option"
  MarshalKey :: "'pk \<Rightarrow> bytes"
  ParseAuthorizedKey :: "string \<Rightarrow> goerror + 'pk"
  MarshalAuthorizedKey :: "'pk \<Rightarrow> bytes"

definition verifySSHSignature :: "('pk, 'sig) ssh_lib \<Rightarrow> bytes \<Rightarrow> bytes \<Rightarrow> bytes \<Rightarrow> goerror + 'pk" where
  "verifySSHSignature ssh pubKeyBytes challenge sigBytes =
     (case ParsePublicKey ssh pubKeyBytes of
        Inl e \<Rightarrow> Inl (Errorf (''parse public key: '' @ err_text e))
      | Inr pubKey \<Rightarrow>
          (case UnmarshalSignature ssh sigBytes of
             Inl e \<Rightarrow> Inl (Errorf (''unmarshal signature: '' @ err_text e))
           | Inr sig \<Rightarrow>
               (case Verify ssh pubKey challenge sig of
                  Some e \<Rightarrow> Inl (Errorf (''verify signature: '' @ err_text e))
                | None \<Rightarrow> Inr pubKey)))"

definition hashPubKey :: "bytes \<Rightarrow> string" where
  "hashPubKey b = EncodeToString (Sum256 b)"

definition deriveEncryptionKey :: "('pk, 'sig) ssh_lib \<Rightarrow> 'pk \<Rightarrow> bytes" where
  "deriveEncryptionKey ssh pubKey = Sum256 (MarshalAuthorizedKey ssh pubKey)"

lemma length_deriveEncryptionKey: "length (deriveEncryptionKey ssh pk) = 32"
  by (simp add: deriveEncryptionKey_def)

section \<open>Lines of files\<close>

text \<open>\<open>bufio.Scanner\<close> over a file: the lines without their end, up to the first line that does
  not fit in the scanner's buffer of 64 KB.\<close>

definition newline :: char where "newline = char_of (10 :: nat)"

definition drop_cr :: "string \<Rightarrow> string" where
  "drop_cr l = (if l \<noteq> [] \<and> last l = char_of (13 :: nat) then butlast l else l)"

definition scan_lines :: "string \<Rightarrow> string list" where
  "scan_lines s =
     (let ls = SplitChar newline s;
          ls' = (if last ls = [] then butlast ls else ls)
      in map drop_cr (takeWhile (\<lambda>l. int (length l) < 65536) ls'))"

definition string_of :: "bytes \<Rightarrow> string" where
  "string_of b = map (\<lambda>x. char_of (unat x)) b"

text \<open>Open a file for reading, scan its lines, close it.\<close>

definition os_Open :: "string \<Rightarrow> os_state \<Rightarrow> (goerror + fd) \<times> os_state" where
  "os_Open p s = os_OpenFile p \<lparr>o_rdwr = False, o_create = False, o_trunc = False\<rparr> 0 s"

definition scan_file :: "fd \<Rightarrow> os_state \<Rightarrow> string list \<times> os_state" where
  "scan_file f s =
     (case os_ReadAll f s of
        (Inl _, s') \<Rightarrow> ([], os_Close f s')
      | (Inr b, s') \<Rightarrow> (scan_lines (string_of b), os_Close f s'))"

definition is_space :: "char \<Rightarrow> bool" where
  "is_space c = ((of_char c :: nat) \<in> {9, 10, 11, 12, 13, 32})"

definition TrimSpace :: "string \<Rightarrow> string" where
  "TrimSpace s = rev (dropWhile is_space (rev (dropWhile is_space s)))"

section \<open>Finding the user of a key\<close>

text \<open>\<open>lookupHome\<close>: the sixth field of the user's line of \<open>/etc/passwd\<close>, else the name service.\<close>

fun passwd_home :: "string \<Rightarrow> string list \<Rightarrow> string option" where
  "passwd_home username [] = None"
| "passwd_home username (l # ls) =
     (let parts = SplitChar (CHR '':'') l
      in if length parts \<ge> 7 \<and> parts ! 0 = username then Some (parts ! 5) else passwd_home username ls)"

definition lookupHomeNSS :: "(string \<Rightarrow> goerror + string) \<Rightarrow> string \<Rightarrow> goerror + string" where
  "lookupHomeNSS nss username = nss username"

definition lookupHome ::
  "(string \<Rightarrow> goerror + string) \<Rightarrow> string \<Rightarrow> os_state \<Rightarrow> (goerror + string) \<times> os_state" where
  "lookupHome nss username s =
     (case os_Open ''/etc/passwd'' s of
        (Inl _, s') \<Rightarrow> (lookupHomeNSS nss username, s')
      | (Inr f, s') \<Rightarrow>
          (case scan_file f s' of
             (ls, s'') \<Rightarrow>
               (case passwd_home username ls of
                  Some home \<Rightarrow> (Inr home, s'')
                | None \<Rightarrow> (lookupHomeNSS nss username, s''))))"

text \<open>The loop over the lines of an \<open>authorized_keys\<close> file.\<close>

definition line_matches :: "('pk, 'sig) ssh_lib \<Rightarrow> bytes \<Rightarrow> string \<Rightarrow> bool" where
  "line_matches ssh targetBytes raw =
     (let line = TrimSpace raw
      in if line = [] \<or> HasPrefix line ''#'' then False
         else (case ParseAuthorizedKey ssh line of
                 Inl _ \<Rightarrow> False
               | Inr pk \<Rightarrow> MarshalKey ssh pk = targetBytes))"

definition passwd_entries :: "string list \<Rightarrow> (string \<times> string) list" where
  "passwd_entries ls =
     List.map_filter (\<lambda>l. let parts = SplitChar (CHR '':'') l
       in if length parts < 7 then None else Some (parts ! 0, parts ! 5)) ls"

definition authorized_keys :: "string \<Rightarrow> string" where
  "authorized_keys home = Join [home, ''.ssh'', ''authorized_keys'']"

fun search_entries ::
  "('pk, 'sig) ssh_lib \<Rightarrow> bytes \<Rightarrow> (string \<times> string) list \<Rightarrow> os_state \<Rightarrow> (string \<times> string) option \<times> os_state" where
  "search_entries ssh targetBytes [] s = (None, s)"
| "search_entries ssh targetBytes ((name, home) # es) s =
     (case os_Open (authorized_keys home) s of
        (Inl _, s') \<Rightarrow> search_entries ssh targetBytes es s'
      | (Inr f, s') \<Rightarrow>
          (case scan_file f s' of
             (ls, s'') \<Rightarrow>
               if list_ex (line_matches ssh targetBytes) ls then (Some (name, home), s'')
               else search_entries ssh targetBytes es s''))"

definition findUserByPubKey ::
  "('pk, 'sig) ssh_lib \<Rightarrow> (string \<Rightarrow> goerror + string) \<Rightarrow> 'pk \<Rightarrow> string \<Rightarrow> os_state \<Rightarrow>
    (goerror + (string \<times> string)) \<times> os_state" where
  "findUserByPubKey ssh nss targetKey hintUser s =
     (let targetBytes = MarshalKey ssh targetKey
      in if hintUser \<noteq> [] then
           (case lookupHome nss hintUser s of
              (Inl e, s1) \<Rightarrow> (Inl (Errorf (''hint user '' @ quoted hintUser @ '' not found: '' @ err_text e)), s1)
            | (Inr home, s1) \<Rightarrow>
                (case os_Open (authorized_keys home) s1 of
                   (Inl _, s2) \<Rightarrow> (Inl (Errorf (''no authorized_keys for user '' @ quoted hintUser)), s2)
                 | (Inr ak, s2) \<Rightarrow>
                     (case scan_file ak s2 of
                        (ls, s3) \<Rightarrow>
                          if list_ex (line_matches ssh targetBytes) ls then (Inr (hintUser, home), s3)
                          else (Inl (Errorf (''no matching key in '' @ hintUser @ CHR 0x27 # ''s authorized_keys'')), s3))))
         else
           (case os_Open ''/etc/passwd'' s of
              (Inl e, s1) \<Rightarrow> (Inl (Errorf (''open /etc/passwd: '' @ err_text e)), s1)
            | (Inr f, s1) \<Rightarrow>
                (case scan_file f s1 of
                   (ls, s2) \<Rightarrow>
                     (case search_entries ssh targetBytes (passwd_entries ls) s2 of
                        (Some (name, home), s3) \<Rightarrow> (Inr (name, home), s3)
                      | (None, s3) \<Rightarrow>
                          (Inl (Errorf ''no matching user found for the provided SSH key''), s3)))))"

section \<open>Soundness of the search\<close>

text \<open>The lines of the file with a name, as a scanner sees them.\<close>

definition file_lines :: "os_state \<Rightarrow> string \<Rightarrow> string list" where
  "file_lines s p = (case lookup s p of None \<Rightarrow> [] | Some (_, n) \<Rightarrow> scan_lines (string_of (i_data n)))"

lemma same_files_file_lines: "same_files s t \<Longrightarrow> file_lines t p = file_lines s p"
  by (simp add: file_lines_def same_files_lookup)

lemma same_files_Open: "same_files s (snd (os_Open p s))"
  by (simp add: os_Open_def same_files_OpenFile)

lemma same_files_scan: "same_files s (snd (scan_file f s))"
  using same_files_ReadAll [of s f] same_files_Close same_files_trans
  by (auto simp: scan_file_def split: prod.splits sum.splits)

text \<open>Lines scanned from an opened file are lines of that file, and the files are as before.\<close>

lemma open_scan:
  assumes "os_Open p s = (Inr f, s1)" and "scan_file f s1 = (ls, s2)"
  shows "ls = [] \<or> ls = file_lines s p" and "same_files s s2" and "fds s2 = (fds s)(f := None)"
proof -
  obtain i w where f: "fds s1 = (fds s)(f \<mapsto> (p, i, w))"
    using assms(1) OpenFile_Inr_fds unfolding os_Open_def by blast
  have s1: "same_files s s1" using same_files_Open [of s p] assms(1) by simp
  then show "same_files s s2"
    using same_files_scan [of s1 f] assms(2) same_files_trans by simp
  have "fds s2 = (fds (snd (os_ReadAll f s1)))(f := None)"
    using assms(2)
    by (cases "os_ReadAll f s1") (auto simp: scan_file_def simp del: fds_unchanged split: sum.splits)
  then show "fds s2 = (fds s)(f := None)" by (simp add: f)
  show "ls = [] \<or> ls = file_lines s p"
  proof (cases "lookup s p")
    case None
    then show ?thesis using assms(1) by (auto simp: os_Open_def os_OpenFile_def tick_def split: option.splits)
  next
    case (Some x)
    then obtain j n where x: "lookup s p = Some (j, n)" by (cases x) auto
    have j: "fds s1 f = Some (p, j, False)" "inodes s1 = inodes s"
      using OpenFile_existing [OF assms(1) [unfolded os_Open_def] x] by simp_all
    show ?thesis
      using assms(2) x ReadAll_open [OF _ j(1)] lookup_inode [OF x] j(2)
      by (fastforce simp: scan_file_def file_lines_def split: prod.splits sum.splits)
  qed
qed

lemma search_entries_sound:
  "search_entries ssh tb es s = (Some (u, h), s') \<Longrightarrow>
     (u, h) \<in> set es \<and> list_ex (line_matches ssh tb) (file_lines s (authorized_keys h))"
proof (induction ssh tb es s rule: search_entries.induct)
  case (2 ssh tb name home es s)
  show ?case
  proof (cases "os_Open (authorized_keys home) s")
    case (Pair r s1)
    show ?thesis
    proof (cases r)
      case (Inl e)
      have "same_files s s1" using same_files_Open [of s "authorized_keys home"] Pair by simp
      then show ?thesis using 2 Pair Inl by (auto simp: same_files_file_lines)
    next
      case (Inr f)
      obtain ls s2 where sc: "scan_file f s1 = (ls, s2)" by (cases "scan_file f s1")
      note o = open_scan [OF Pair [unfolded Inr] sc]
      show ?thesis
        using 2 Pair Inr sc o by (auto simp: same_files_file_lines split: if_splits)
    qed
  qed
qed simp

lemma lookupHome_files: "lookupHome nss u s = (r, s') \<Longrightarrow> same_files s s'"
  using same_files_Open [of s "''/etc/passwd''"] open_scan(2) [of "''/etc/passwd''" s]
  by (auto simp: lookupHome_def split: prod.splits sum.splits option.splits)

text \<open>Every handle opened during the search is closed again.\<close>

lemma open_scan_fds:
  assumes "os_wf s" and "os_Open p s = (Inr f, s1)" and "scan_file f s1 = (ls, s2)"
  shows "fds s2 = fds s" and "os_wf s2"
proof -
  have f: "f = next_fd s" using assms(2) OpenFile_Inr_fds unfolding os_Open_def by blast
  have "fds s f = None"
    using assms(1) f unfolding os_wf_def by (metis less_irrefl not_None_eq prod_cases3)
  then show "fds s2 = fds s" using open_scan(3) [OF assms(2,3)] by auto
  have "os_wf s1" using os_wf_OpenFile [OF assms(1)] assms(2) unfolding os_Open_def by (metis snd_conv)
  then show "os_wf s2"
    using assms(3) os_wf_ReadAll [of s1 f] os_wf_Close by (auto simp: scan_file_def split: prod.splits sum.splits)
qed

lemma Open_Inl_fds:
  assumes "os_wf s" and "os_Open p s = (Inl e, s1)"
  shows "fds s1 = fds s" and "os_wf s1"
  using assms OpenFile_Inl_fds os_wf_OpenFile [OF assms(1)] unfolding os_Open_def by (metis, metis snd_conv)

lemma search_entries_fds:
  "os_wf s \<Longrightarrow> search_entries ssh tb es s = (r, s') \<Longrightarrow> fds s' = fds s \<and> os_wf s'"
proof (induction ssh tb es s rule: search_entries.induct)
  case (2 ssh tb name home es s)
  obtain q s1 where o: "os_Open (authorized_keys home) s = (q, s1)"
    by (cases "os_Open (authorized_keys home) s")
  show ?case
  proof (cases q)
    case (Inl e)
    then show ?thesis
      using 2 o Open_Inl_fds [OF "2.prems"(1) o [unfolded Inl]] by simp
  next
    case (Inr f)
    obtain ls s2 where sc: "scan_file f s1 = (ls, s2)" by (cases "scan_file f s1")
    show ?thesis
      using 2 o Inr sc open_scan_fds [OF "2.prems"(1) o [unfolded Inr] sc] by (simp split: if_splits)
  qed
qed simp

lemma lookupHome_fds:
  assumes "os_wf s" and "lookupHome nss u s = (r, s')"
  shows "fds s' = fds s \<and> os_wf s'"
proof -
  obtain q s1 where o: "os_Open ''/etc/passwd'' s = (q, s1)" by (cases "os_Open ''/etc/passwd'' s")
  show ?thesis
  proof (cases q)
    case (Inl e)
    then show ?thesis
      using assms(2) o Open_Inl_fds [OF assms(1) o [unfolded Inl]] by (auto simp: lookupHome_def)
  next
    case (Inr f)
    obtain ls s2 where sc: "scan_file f s1 = (ls, s2)" by (cases "scan_file f s1")
    have "s' = s2" using assms(2) o Inr sc by (auto simp: lookupHome_def split: option.splits)
    then show ?thesis using open_scan_fds [OF assms(1) o [unfolded Inr] sc] by simp
  qed
qed

lemma findUserByPubKey_fds:
  assumes "os_wf s" and "findUserByPubKey ssh nss pk hint s = (r, s')"
  shows "fds s' = fds s \<and> os_wf s'"
proof (cases "hint = []")
  case True
  obtain q s1 where o: "os_Open ''/etc/passwd'' s = (q, s1)" by (cases "os_Open ''/etc/passwd'' s")
  show ?thesis
  proof (cases q)
    case (Inl e)
    then show ?thesis
      using assms(2) True o Open_Inl_fds [OF assms(1) o [unfolded Inl]]
      by (auto simp: findUserByPubKey_def)
  next
    case (Inr f)
    obtain ls s2 where sc: "scan_file f s1 = (ls, s2)" by (cases "scan_file f s1")
    obtain x s3 where se: "search_entries ssh (MarshalKey ssh pk) (passwd_entries ls) s2 = (x, s3)"
      by (cases "search_entries ssh (MarshalKey ssh pk) (passwd_entries ls) s2")
    have "s' = s3" using assms(2) True o Inr sc se by (auto simp: findUserByPubKey_def split: option.splits)
    then show ?thesis
      using open_scan_fds [OF assms(1) o [unfolded Inr] sc] search_entries_fds [OF _ se] by simp
  qed
next
  case False
  obtain rh s1 where h: "lookupHome nss hint s = (rh, s1)" by (cases "lookupHome nss hint s")
  have s1: "fds s1 = fds s" "os_wf s1" using lookupHome_fds [OF assms(1) h] by simp_all
  show ?thesis
  proof (cases rh)
    case (Inl e)
    then show ?thesis using assms(2) False h s1 by (auto simp: findUserByPubKey_def)
  next
    case (Inr home)
    obtain q s2 where o: "os_Open (authorized_keys home) s1 = (q, s2)"
      by (cases "os_Open (authorized_keys home) s1")
    show ?thesis
    proof (cases q)
      case Inl2: (Inl e)
      then show ?thesis
        using assms(2) False h Inr s1 o Open_Inl_fds [OF s1(2) o [unfolded Inl2]]
        by (auto simp: findUserByPubKey_def)
    next
      case Inr2: (Inr f)
      obtain ls s3 where sc: "scan_file f s2 = (ls, s3)" by (cases "scan_file f s2")
      have "s' = s3"
        using assms(2) False h Inr o Inr2 sc by (auto simp: findUserByPubKey_def Let_def split: if_splits)
      then show ?thesis using open_scan_fds [OF s1(2) o [unfolded Inr2] sc] s1 by simp
    qed
  qed
qed

lemma lookupHome_result:
  assumes "lookupHome nss u s = (Inr h, s')"
  shows "passwd_home u (file_lines s ''/etc/passwd'') = Some h \<or> nss u = Inr h"
proof -
  obtain q s1 where o: "os_Open ''/etc/passwd'' s = (q, s1)" by (cases "os_Open ''/etc/passwd'' s")
  show ?thesis
  proof (cases q)
    case (Inl e)
    then show ?thesis using assms o by (auto simp: lookupHome_def lookupHomeNSS_def)
  next
    case (Inr f)
    obtain ls s2 where sc: "scan_file f s1 = (ls, s2)" by (cases "scan_file f s1")
    show ?thesis
      using assms o Inr sc open_scan(1) [OF o [unfolded Inr] sc]
      by (auto simp: lookupHome_def lookupHomeNSS_def split: option.splits)
  qed
qed

text \<open>C25: a user is found for a key only if the key is in that user's \<open>authorized_keys\<close>: some line
  of the file under the home directory returned parses to a key with the same wire form. With a
  user name claimed, it is that user's home (from \<open>/etc/passwd\<close>, or the name service); without, the
  pair of name and home is an entry of \<open>/etc/passwd\<close>.\<close>

theorem findUserByPubKey_sound:
  assumes "findUserByPubKey ssh nss pk hint s = (Inr (u, h), s')"
  shows "list_ex (line_matches ssh (MarshalKey ssh pk)) (file_lines s (authorized_keys h))
    \<and> (if hint = [] then (u, h) \<in> set (passwd_entries (file_lines s ''/etc/passwd''))
       else u = hint \<and> (passwd_home hint (file_lines s ''/etc/passwd'') = Some h \<or> nss hint = Inr h))"
proof (cases "hint = []")
  case True
  obtain f s1 where o: "os_Open ''/etc/passwd'' s = (Inr f, s1)"
    using assms True by (auto simp: findUserByPubKey_def split: prod.splits sum.splits)
  obtain ls s2 where sc: "scan_file f s1 = (ls, s2)" by (cases "scan_file f s1")
  have se: "search_entries ssh (MarshalKey ssh pk) (passwd_entries ls) s2 = (Some (u, h), s')"
    using assms True o sc by (auto simp: findUserByPubKey_def split: prod.splits option.splits)
  have "ls = file_lines s ''/etc/passwd''"
    using open_scan(1) [OF o sc] search_entries_sound [OF se] by (auto simp: passwd_entries_def)
  then show ?thesis
    using True search_entries_sound [OF se] same_files_file_lines [OF open_scan(2) [OF o sc]] by simp
next
  case False
  obtain home s1 where h: "lookupHome nss hint s = (Inr home, s1)"
    using assms False by (auto simp: findUserByPubKey_def Let_def split: prod.splits sum.splits)
  obtain f s2 where o: "os_Open (authorized_keys home) s1 = (Inr f, s2)"
    using assms False h by (auto simp: findUserByPubKey_def Let_def split: prod.splits sum.splits)
  obtain ls s3 where sc: "scan_file f s2 = (ls, s3)" by (cases "scan_file f s2")
  have "u = hint" "h = home" "list_ex (line_matches ssh (MarshalKey ssh pk)) ls"
    using assms False h o sc by (auto simp: findUserByPubKey_def Let_def split: if_splits)
  then show ?thesis
    using False open_scan(1) [OF o sc] lookupHome_result [OF h]
      same_files_file_lines [OF lookupHome_files [OF h]] by auto
qed

text \<open>A small system and SSH library for concrete runs: one user with one authorized key; a key
  is its wire form, and its signature of a challenge is the challenge followed by the key.\<close>

definition sample_ssh :: "(bytes, bytes) ssh_lib" where
  "sample_ssh = \<lparr>ParsePublicKey = Inr, UnmarshalSignature = Inr,
     Verify = (\<lambda>pk ch sig. if sig = ch @ pk then None else Some (Errorf ''bad signature'')),
     MarshalKey = id, ParseAuthorizedKey = (\<lambda>l. Inr (bytes_of l)), MarshalAuthorizedKey = id\<rparr>"

definition sample_file :: "string \<Rightarrow> inode" where
  "sample_file d = \<lparr>i_dir = False, i_data = bytes_of d, i_mode = 420, i_mtime = 0\<rparr>"

definition sample_os :: os_state where
  "sample_os = \<lparr>names = [(''/'', 0), (''/etc/passwd'', 1), (''/home/al/.ssh/authorized_keys'', 2)],
     inodes = (\<lambda>i. if i = 0 then Some \<lparr>i_dir = True, i_data = [], i_mode = 493, i_mtime = 0\<rparr>
       else if i = 1 then Some (sample_file ''al:x:1:1::/home/al:/bin/sh'')
       else if i = 2 then Some (sample_file ''k1'') else None),
     next_ino = 3, fds = (\<lambda>_. None), next_fd = 0, cwd = ''/'', umask = 18, clock = 5,
     faults = (\<lambda>_. None), ticks = 0\<rparr>"

theorem findUserByPubKey_sound_witness:
  "fst (findUserByPubKey sample_ssh (\<lambda>_. Inl (Errorf ''unknown user'')) (bytes_of ''k1'') [] sample_os)
       = Inr (''al'', ''/home/al'')
   \<and> list_ex (line_matches sample_ssh (bytes_of ''k1''))
       (file_lines sample_os (authorized_keys ''/home/al''))"
proof -
  have found: "fst (findUserByPubKey sample_ssh (\<lambda>_. Inl (Errorf ''unknown user'')) (bytes_of ''k1'') [] sample_os)
      = Inr (''al'', ''/home/al'')"
    by code_simp
  then have "findUserByPubKey sample_ssh (\<lambda>_. Inl (Errorf ''unknown user'')) (bytes_of ''k1'') [] sample_os
      = (Inr (''al'', ''/home/al''),
         snd (findUserByPubKey sample_ssh (\<lambda>_. Inl (Errorf ''unknown user'')) (bytes_of ''k1'') [] sample_os))"
    by (simp add: prod_eq_iff)
  from findUserByPubKey_sound [OF this] found show ?thesis by (simp add: sample_ssh_def)
qed

end
