(* ===== verification/Framing.thy ===== *)
theory Framing
  imports Prelude
begin

text \<open>
  The contract of a message framing, as an interface between the byte stream of a connection and
  the component that consumes messages: \<open>step\<close> takes the bytes received so far and returns the
  first complete item with the number of bytes it occupies, or nothing. The two laws are that an
  item occupies at least one and at most the bytes received (\<open>progress\<close>), and that bytes that
  arrive later do not change an item that is complete (\<open>extend\<close>).

  From these laws: reading a stream piece by piece, keeping what is left over between pieces,
  delivers the same items as reading it at once, however the network cuts it
  (\<open>feed_eq_drain\<close>, \<open>feed_cut\<close>). The server's frame reader and the client's receive loop both
  implement the contract.
\<close>

fun drain_fuel :: "nat \<Rightarrow> (bytes \<Rightarrow> ('m \<times> nat) option) \<Rightarrow> bytes \<Rightarrow> 'm list \<times> bytes" where
  "drain_fuel 0 step b = ([], b)"
| "drain_fuel (Suc k) step b =
     (case step b of
        None \<Rightarrow> ([], b)
      | Some (m, n) \<Rightarrow> (let (ms, r) = drain_fuel k step (drop n b) in (m # ms, r)))"

text \<open>All complete items of the received bytes and the bytes left over. Every item takes at least
  one byte, so one unit of fuel per byte, and one to see that nothing is left, is enough.\<close>

definition drain :: "(bytes \<Rightarrow> ('m \<times> nat) option) \<Rightarrow> bytes \<Rightarrow> 'm list \<times> bytes" where
  "drain step b = drain_fuel (Suc (length b)) step b"

text \<open>The pieces of a stream as they arrive, with the bytes left over kept in between.\<close>

fun feed :: "(bytes \<Rightarrow> ('m \<times> nat) option) \<Rightarrow> bytes \<Rightarrow> bytes list \<Rightarrow> 'm list \<times> bytes" where
  "feed step r [] = ([], r)"
| "feed step r (c # cs) =
     (let (ms, r') = drain step (r @ c); (ms', r'') = feed step r' cs in (ms @ ms', r''))"

locale framing =
  fixes step :: "bytes \<Rightarrow> ('m \<times> nat) option"
  assumes progress: "step b = Some (m, n) \<Longrightarrow> 0 < n \<and> n \<le> length b"
    and extend: "step b = Some x \<Longrightarrow> step (b @ c) = Some x"
begin

lemma step_Nil: "step [] = None"
  using progress [of "[]"] by (cases "step []") auto

lemma drain_fuel_more:
  "length b < k \<Longrightarrow> length b < k' \<Longrightarrow> drain_fuel k step b = drain_fuel k' step b"
proof (induction k arbitrary: b k')
  case 0
  then show ?case by simp
next
  case (Suc k)
  then obtain l where k': "k' = Suc l" by (cases k') auto
  show ?case
  proof (cases "step b")
    case None
    then show ?thesis by (simp add: k')
  next
    case (Some x)
    then obtain m n where x: "step b = Some (m, n)" by (cases x) auto
    have "drain_fuel k step (drop n b) = drain_fuel l step (drop n b)"
      using progress [OF x] Suc.prems k' by (intro Suc.IH) auto
    then show ?thesis by (simp add: k' x)
  qed
qed

lemma drain_unfold:
  "drain step b =
     (case step b of
        None \<Rightarrow> ([], b)
      | Some (m, n) \<Rightarrow> (let (ms, r) = drain step (drop n b) in (m # ms, r)))"
proof (cases "step b")
  case None
  then show ?thesis by (simp add: drain_def)
next
  case (Some x)
  then obtain m n where x: "step b = Some (m, n)" by (cases x) auto
  have "drain_fuel (length b) step (drop n b) = drain step (drop n b)"
    unfolding drain_def using progress [OF x] by (intro drain_fuel_more) auto
  then show ?thesis by (simp add: x drain_def)
qed

lemma drain_None: "step b = None \<Longrightarrow> drain step b = ([], b)"
  by (simp add: drain_unfold)

lemma drain_Some:
  "step b = Some (m, n) \<Longrightarrow> drain step b = (m # fst (drain step (drop n b)), snd (drain step (drop n b)))"
  by (subst drain_unfold) (simp add: case_prod_beta Let_def)

lemma drain_induct [case_names stop item]:
  assumes "\<And>b. step b = None \<Longrightarrow> P b"
    and "\<And>b m n. step b = Some (m, n) \<Longrightarrow> P (drop n b) \<Longrightarrow> P b"
  shows "P b"
proof (induction b rule: length_induct)
  case (1 b)
  show ?case
  proof (cases "step b")
    case None
    then show ?thesis by (rule assms(1))
  next
    case (Some x)
    then obtain m n where x: "step b = Some (m, n)" by (cases x) auto
    then have "P (drop n b)" using 1 progress [OF x] by auto
    with x show ?thesis by (rule assms(2))
  qed
qed

lemma drain_rest: "step (snd (drain step b)) = None"
  by (induction b rule: drain_induct) (simp_all add: drain_None drain_Some)

lemma drain_append:
  "drain step (b @ c) =
     (let (ms, r) = drain step b; (ms', r') = drain step (r @ c) in (ms @ ms', r'))"
proof (induction b rule: drain_induct)
  case (stop b)
  then show ?case by (simp add: drain_None case_prod_beta)
next
  case (item b m n)
  have "step (b @ c) = Some (m, n)" using item(1) by (rule extend)
  moreover have "drop n (b @ c) = drop n b @ c" using progress [OF item(1)] by simp
  ultimately show ?case using item by (simp add: drain_Some case_prod_beta Let_def)
qed

lemma feed_eq:
  "feed step r cs = (if cs = [] then ([], r) else
     (let (ms, r') = drain step (r @ concat cs) in (ms, r')))"
proof (induction cs arbitrary: r)
  case Nil
  then show ?case by simp
next
  case (Cons c cs)
  show ?case
  proof (cases "cs = []")
    case True
    then show ?thesis by (simp add: case_prod_beta)
  next
    case False
    have "drain step (r @ c @ concat cs) =
        (let (ms, r') = drain step (r @ c); (ms', r'') = drain step (r' @ concat cs) in (ms @ ms', r''))"
      using drain_append [of "r @ c" "concat cs"] by simp
    then show ?thesis using False by (simp add: Cons.IH case_prod_beta Let_def)
  qed
qed

text \<open>However the stream is cut, the items and the left-over bytes are those of the whole.\<close>

lemma feed_eq_drain: "feed step [] cs = drain step (concat cs)"
  by (cases "cs = []") (simp_all add: feed_eq drain_None step_Nil case_prod_beta)

lemma feed_cut: "concat cs = concat ds \<Longrightarrow> feed step [] cs = feed step [] ds"
  by (simp add: feed_eq_drain)

end

end
