(* ===== verification/Message.thy ===== *)
theory Message
  imports Framing
begin

text \<open>
  The wire protocol, package \<open>message\<close>: the message structs and the interface \<open>MSG\<close>
  (\<open>message/message.go\<close>, \<open>message/interface.go\<close>), its methods (\<open>message/implement.go\<close>), the frame
  header (\<open>EncodeMsg\<close>, \<open>DecodePre\<close>) and the framed read and write (\<open>ReadMessage\<close>,
  \<open>WriteMessage\<close>). A struct is a record whose fields carry a prefix (\<open>creq_Path\<close> is the field
  \<open>Path\<close> of \<open>CreateReq\<close>).

  The CBOR library is not part of the repository: it is the parameter \<open>cb\<close>, a record of the
  library's functions at the types the sources call them. The buffered connection is the Go
  interface \<open>PacketReader\<close>: a record of functions, whose documented behaviour is the locale
  \<open>packet_reader\<close>.

  Shown: the header and the frame round trip; a frame that has not fully arrived is never
  consumed; exactly when each error is returned; the size limits; and, for a stream of frames
  with a partial frame behind it, that reading it yields exactly the messages, in order.
\<close>

section \<open>Constants\<close>

definition MagicA :: byte where "MagicA = 0xA8"
definition MagicB :: byte where "MagicB = 0xD5"

type_synonym MessageType = uint8

definition CreateReqT :: MessageType where "CreateReqT = 0"
definition CreateResT :: MessageType where "CreateResT = 1"
definition WriteReqT :: MessageType where "WriteReqT = 2"
definition WriteResT :: MessageType where "WriteResT = 3"
definition ReadReqT :: MessageType where "ReadReqT = 4"
definition ReadResT :: MessageType where "ReadResT = 5"
definition StatReqT :: MessageType where "StatReqT = 6"
definition StatResT :: MessageType where "StatResT = 7"
definition ReadDirReqT :: MessageType where "ReadDirReqT = 8"
definition ReadDirResT :: MessageType where "ReadDirResT = 9"
definition HashReqT :: MessageType where "HashReqT = 10"
definition HashResT :: MessageType where "HashResT = 11"
definition AuthReqT :: MessageType where "AuthReqT = 12"
definition AuthResT :: MessageType where "AuthResT = 13"

lemmas mtype_defs = CreateReqT_def CreateResT_def WriteReqT_def WriteResT_def ReadReqT_def ReadResT_def StatReqT_def
  StatResT_def ReadDirReqT_def ReadDirResT_def HashReqT_def HashResT_def AuthReqT_def AuthResT_def

definition MessageSize :: nat where "MessageSize = 4"
definition PayloadSize :: nat where "PayloadSize = 4"
definition HeadSize :: nat where "HeadSize = 2 + 1 + MessageSize + PayloadSize"
definition MaxMsgSize :: uint32 where "MaxMsgSize = 65536"
definition MaxPayloadSize :: uint32 where "MaxPayloadSize = 16777216"

definition CompressionNone :: uint8 where "CompressionNone = 0"
definition CompressionGzip :: uint8 where "CompressionGzip = 1"
definition EncryptionNone :: uint8 where "EncryptionNone = 0"
definition EncryptionSecretBox :: uint8 where "EncryptionSecretBox = 1"

lemma HeadSize_eq [simp]: "HeadSize = 11"
  by (simp add: HeadSize_def MessageSize_def PayloadSize_def)

lemma unat_MaxMsgSize [simp]: "unat MaxMsgSize = 65536"
  by (simp add: MaxMsgSize_def)

lemma unat_MaxPayloadSize [simp]: "unat MaxPayloadSize = 16777216"
  by (simp add: MaxPayloadSize_def)

section \<open>The message structs\<close>

record CreateReq =
  creq_ID :: int64
  creq_Size :: int64
  creq_Mode :: uint32
  creq_Path :: string
  creq_IsDir :: bool

record CreateRes =
  cres_ID :: int64
  cres_Success :: bool
  cres_Error :: string

record WriteReq =
  wreq_ID :: int64
  wreq_Path :: string
  wreq_Offset :: int64
  wreq_Checksum :: uint32
  wreq_Compression :: uint8
  wreq_Encryption :: uint8

record WriteRes =
  wres_ID :: int64
  wres_Success :: bool
  wres_N :: int32
  wres_Error :: string

record ReadReq =
  rreq_ID :: int64
  rreq_Path :: string
  rreq_Offset :: int64
  rreq_Size :: int64
  rreq_Compression :: uint8
  rreq_Encryption :: uint8

record ReadRes =
  rres_ID :: int64
  rres_Success :: bool
  rres_N :: int64
  rres_Checksum :: uint32
  rres_Compression :: uint8
  rres_Encryption :: uint8
  rres_Error :: string

record StatReq =
  sreq_ID :: int64
  sreq_Path :: string

record StatRes =
  sres_ID :: int64
  sres_Success :: bool
  sres_Size :: int64
  sres_Mode :: uint32
  sres_IsDir :: bool
  sres_Error :: string

record DirEntry =
  de_IsDir :: bool
  de_Mode :: uint32
  de_Name :: string
  de_Size :: int64
  de_ModTime :: int64

record ReadDirReq =
  dreq_ID :: int64
  dreq_Path :: string

record ReadDirRes =
  dres_ID :: int64
  dres_Success :: bool
  dres_Entries :: "DirEntry list"
  dres_Error :: string

record HashReq =
  hreq_ID :: int64
  hreq_Path :: string

record HashRes =
  hres_ID :: int64
  hres_Success :: bool
  hres_Hash :: bytes
  hres_Error :: string

record AuthReq =
  areq_ID :: int64
  areq_User :: string
  areq_PubKey :: bytes
  areq_Signature :: bytes
  areq_Token :: string

record AuthRes =
  ares_ID :: int64
  ares_Success :: bool
  ares_Challenge :: bytes
  ares_Token :: string
  ares_User :: string
  ares_Error :: string

text \<open>The zero values, which \<open>DecodePre\<close> allocates (\<open>&CreateReq{}\<close> and so on).\<close>

definition zeroCreateReq :: CreateReq where
  "zeroCreateReq = \<lparr>creq_ID = 0, creq_Size = 0, creq_Mode = 0, creq_Path = [], creq_IsDir = False\<rparr>"

definition zeroCreateRes :: CreateRes where
  "zeroCreateRes = \<lparr>cres_ID = 0, cres_Success = False, cres_Error = []\<rparr>"

definition zeroWriteReq :: WriteReq where
  "zeroWriteReq = \<lparr>wreq_ID = 0, wreq_Path = [], wreq_Offset = 0, wreq_Checksum = 0, wreq_Compression = 0, wreq_Encryption = 0\<rparr>"

definition zeroWriteRes :: WriteRes where
  "zeroWriteRes = \<lparr>wres_ID = 0, wres_Success = False, wres_N = 0, wres_Error = []\<rparr>"

definition zeroReadReq :: ReadReq where
  "zeroReadReq = \<lparr>rreq_ID = 0, rreq_Path = [], rreq_Offset = 0, rreq_Size = 0, rreq_Compression = 0, rreq_Encryption = 0\<rparr>"

definition zeroReadRes :: ReadRes where
  "zeroReadRes = \<lparr>rres_ID = 0, rres_Success = False, rres_N = 0, rres_Checksum = 0, rres_Compression = 0, rres_Encryption = 0, rres_Error = []\<rparr>"

definition zeroStatReq :: StatReq where
  "zeroStatReq = \<lparr>sreq_ID = 0, sreq_Path = []\<rparr>"

definition zeroStatRes :: StatRes where
  "zeroStatRes = \<lparr>sres_ID = 0, sres_Success = False, sres_Size = 0, sres_Mode = 0, sres_IsDir = False, sres_Error = []\<rparr>"

definition zeroReadDirReq :: ReadDirReq where
  "zeroReadDirReq = \<lparr>dreq_ID = 0, dreq_Path = []\<rparr>"

definition zeroReadDirRes :: ReadDirRes where
  "zeroReadDirRes = \<lparr>dres_ID = 0, dres_Success = False, dres_Entries = [], dres_Error = []\<rparr>"

definition zeroHashReq :: HashReq where
  "zeroHashReq = \<lparr>hreq_ID = 0, hreq_Path = []\<rparr>"

definition zeroHashRes :: HashRes where
  "zeroHashRes = \<lparr>hres_ID = 0, hres_Success = False, hres_Hash = [], hres_Error = []\<rparr>"

definition zeroAuthReq :: AuthReq where
  "zeroAuthReq = \<lparr>areq_ID = 0, areq_User = [], areq_PubKey = [], areq_Signature = [], areq_Token = []\<rparr>"

definition zeroAuthRes :: AuthRes where
  "zeroAuthRes = \<lparr>ares_ID = 0, ares_Success = False, ares_Challenge = [], ares_Token = [], ares_User = [], ares_Error = []\<rparr>"

lemmas zero_defs = zeroCreateReq_def zeroCreateRes_def zeroWriteReq_def zeroWriteRes_def zeroReadReq_def zeroReadRes_def zeroStatReq_def
  zeroStatRes_def zeroReadDirReq_def zeroReadDirRes_def zeroHashReq_def zeroHashRes_def zeroAuthReq_def zeroAuthRes_def

section \<open>The interface MSG and its methods\<close>

text \<open>A value of the interface is a pointer to one of the fourteen structs.\<close>

datatype MSG =
    MCreateReq CreateReq
  | MCreateRes CreateRes
  | MWriteReq WriteReq
  | MWriteRes WriteRes
  | MReadReq ReadReq
  | MReadRes ReadRes
  | MStatReq StatReq
  | MStatRes StatRes
  | MReadDirReq ReadDirReq
  | MReadDirRes ReadDirRes
  | MHashReq HashReq
  | MHashRes HashRes
  | MAuthReq AuthReq
  | MAuthRes AuthRes

text \<open>
  The functions of the CBOR library at the types of the sources: \<open>Marshal\<close> takes any message
  struct; \<open>Unmarshal\<close> decodes into the struct it is given and so keeps its type.
\<close>

record cbor_lib =
  Marshal :: "MSG \<Rightarrow> goerror + bytes"
  Unmarshal_CreateReq :: "bytes \<Rightarrow> CreateReq \<Rightarrow> goerror + CreateReq"
  Unmarshal_CreateRes :: "bytes \<Rightarrow> CreateRes \<Rightarrow> goerror + CreateRes"
  Unmarshal_WriteReq :: "bytes \<Rightarrow> WriteReq \<Rightarrow> goerror + WriteReq"
  Unmarshal_WriteRes :: "bytes \<Rightarrow> WriteRes \<Rightarrow> goerror + WriteRes"
  Unmarshal_ReadReq :: "bytes \<Rightarrow> ReadReq \<Rightarrow> goerror + ReadReq"
  Unmarshal_ReadRes :: "bytes \<Rightarrow> ReadRes \<Rightarrow> goerror + ReadRes"
  Unmarshal_StatReq :: "bytes \<Rightarrow> StatReq \<Rightarrow> goerror + StatReq"
  Unmarshal_StatRes :: "bytes \<Rightarrow> StatRes \<Rightarrow> goerror + StatRes"
  Unmarshal_ReadDirReq :: "bytes \<Rightarrow> ReadDirReq \<Rightarrow> goerror + ReadDirReq"
  Unmarshal_ReadDirRes :: "bytes \<Rightarrow> ReadDirRes \<Rightarrow> goerror + ReadDirRes"
  Unmarshal_HashReq :: "bytes \<Rightarrow> HashReq \<Rightarrow> goerror + HashReq"
  Unmarshal_HashRes :: "bytes \<Rightarrow> HashRes \<Rightarrow> goerror + HashRes"
  Unmarshal_AuthReq :: "bytes \<Rightarrow> AuthReq \<Rightarrow> goerror + AuthReq"
  Unmarshal_AuthRes :: "bytes \<Rightarrow> AuthRes \<Rightarrow> goerror + AuthRes"

fun Type :: "MSG \<Rightarrow> MessageType" where
  "Type (MCreateReq m) = CreateReqT"
| "Type (MCreateRes m) = CreateResT"
| "Type (MWriteReq m) = WriteReqT"
| "Type (MWriteRes m) = WriteResT"
| "Type (MReadReq m) = ReadReqT"
| "Type (MReadRes m) = ReadResT"
| "Type (MStatReq m) = StatReqT"
| "Type (MStatRes m) = StatResT"
| "Type (MReadDirReq m) = ReadDirReqT"
| "Type (MReadDirRes m) = ReadDirResT"
| "Type (MHashReq m) = HashReqT"
| "Type (MHashRes m) = HashResT"
| "Type (MAuthReq m) = AuthReqT"
| "Type (MAuthRes m) = AuthResT"

fun GetID :: "MSG \<Rightarrow> int64" where
  "GetID (MCreateReq m) = creq_ID m"
| "GetID (MCreateRes m) = cres_ID m"
| "GetID (MWriteReq m) = wreq_ID m"
| "GetID (MWriteRes m) = wres_ID m"
| "GetID (MReadReq m) = rreq_ID m"
| "GetID (MReadRes m) = rres_ID m"
| "GetID (MStatReq m) = sreq_ID m"
| "GetID (MStatRes m) = sres_ID m"
| "GetID (MReadDirReq m) = dreq_ID m"
| "GetID (MReadDirRes m) = dres_ID m"
| "GetID (MHashReq m) = hreq_ID m"
| "GetID (MHashRes m) = hres_ID m"
| "GetID (MAuthReq m) = areq_ID m"
| "GetID (MAuthRes m) = ares_ID m"

text \<open>\<open>Encode\<close> discards the error of \<open>cbor.Marshal\<close>: the slice is nil then.\<close>

definition Encode :: "cbor_lib \<Rightarrow> MSG \<Rightarrow> bytes" where
  "Encode cb m = (case Marshal cb m of Inl _ \<Rightarrow> [] | Inr bs \<Rightarrow> bs)"

fun Decode :: "cbor_lib \<Rightarrow> MSG \<Rightarrow> bytes \<Rightarrow> goerror + MSG" where
  "Decode cb (MCreateReq m) buf = map_sum id MCreateReq (Unmarshal_CreateReq cb buf m)"
| "Decode cb (MCreateRes m) buf = map_sum id MCreateRes (Unmarshal_CreateRes cb buf m)"
| "Decode cb (MWriteReq m) buf = map_sum id MWriteReq (Unmarshal_WriteReq cb buf m)"
| "Decode cb (MWriteRes m) buf = map_sum id MWriteRes (Unmarshal_WriteRes cb buf m)"
| "Decode cb (MReadReq m) buf = map_sum id MReadReq (Unmarshal_ReadReq cb buf m)"
| "Decode cb (MReadRes m) buf = map_sum id MReadRes (Unmarshal_ReadRes cb buf m)"
| "Decode cb (MStatReq m) buf = map_sum id MStatReq (Unmarshal_StatReq cb buf m)"
| "Decode cb (MStatRes m) buf = map_sum id MStatRes (Unmarshal_StatRes cb buf m)"
| "Decode cb (MReadDirReq m) buf = map_sum id MReadDirReq (Unmarshal_ReadDirReq cb buf m)"
| "Decode cb (MReadDirRes m) buf = map_sum id MReadDirRes (Unmarshal_ReadDirRes cb buf m)"
| "Decode cb (MHashReq m) buf = map_sum id MHashReq (Unmarshal_HashReq cb buf m)"
| "Decode cb (MHashRes m) buf = map_sum id MHashRes (Unmarshal_HashRes cb buf m)"
| "Decode cb (MAuthReq m) buf = map_sum id MAuthReq (Unmarshal_AuthReq cb buf m)"
| "Decode cb (MAuthRes m) buf = map_sum id MAuthRes (Unmarshal_AuthRes cb buf m)"

section \<open>Frames\<close>

definition MagicNumberCheck :: "byte \<Rightarrow> byte \<Rightarrow> bool" where
  "MagicNumberCheck ma mb = (ma = MagicA \<and> mb = MagicB)"

text \<open>\<open>EncodeMsg\<close>: the header and the encoded message; \<open>payloadSize\<close> is the length of a slice.\<close>

definition EncodeMsg :: "cbor_lib \<Rightarrow> MSG \<Rightarrow> nat \<Rightarrow> bytes \<times> bytes" where
  "EncodeMsg cb msg payloadSize =
     (let msgbuf = Encode cb msg
      in ([MagicA, MagicB, Type msg] @ PutUint32 (of_nat (length msgbuf))
            @ PutUint32 (of_nat payloadSize), msgbuf))"

text \<open>The switch of \<open>DecodePre\<close>: the zero struct of a message type, if there is one.\<close>

definition newMSG :: "MessageType \<Rightarrow> MSG option" where
  "newMSG t =
     (if t = CreateReqT then Some (MCreateReq zeroCreateReq)
      else if t = CreateResT then Some (MCreateRes zeroCreateRes)
      else if t = WriteReqT then Some (MWriteReq zeroWriteReq)
      else if t = WriteResT then Some (MWriteRes zeroWriteRes)
      else if t = ReadReqT then Some (MReadReq zeroReadReq)
      else if t = ReadResT then Some (MReadRes zeroReadRes)
      else if t = StatReqT then Some (MStatReq zeroStatReq)
      else if t = StatResT then Some (MStatRes zeroStatRes)
      else if t = ReadDirReqT then Some (MReadDirReq zeroReadDirReq)
      else if t = ReadDirResT then Some (MReadDirRes zeroReadDirRes)
      else if t = HashReqT then Some (MHashReq zeroHashReq)
      else if t = HashResT then Some (MHashRes zeroHashRes)
      else if t = AuthReqT then Some (MAuthReq zeroAuthReq)
      else if t = AuthResT then Some (MAuthRes zeroAuthRes)
      else None)"

definition DecodePre :: "bytes \<Rightarrow> goerror + (MSG \<times> uint32 \<times> uint32)" where
  "DecodePre head =
     (if length head < HeadSize then Inl ErrHeadSize
      else case newMSG (head ! 2) of
        None \<Rightarrow> Inl ErrMsgType
      | Some msg \<Rightarrow>
          (let msgSize = Uint32 (take MessageSize (drop 3 head));
               payloadSize = Uint32 (drop (3 + MessageSize) head)
           in if msgSize > MaxMsgSize \<or> payloadSize > MaxPayloadSize then Inl ErrBadProtocol
              else Inr (msg, msgSize, payloadSize)))"

text \<open>\<open>switchError\<close>.\<close>

definition switchError :: "goerror \<Rightarrow> goerror" where
  "switchError e = (if e = ErrShortBuffer then ErrIncompletePacket else e)"

text \<open>
  The interface \<open>PacketReader\<close> as a record of its two methods over the reader's state \<open>'r\<close>; the
  result of \<open>Discard\<close> that the sources use is the new state only.
\<close>

record 'r PacketReader =
  Peek :: "'r \<Rightarrow> nat \<Rightarrow> goerror + bytes"
  Discard :: "'r \<Rightarrow> nat \<Rightarrow> 'r"

definition ReadMessage ::
  "cbor_lib \<Rightarrow> 'r PacketReader \<Rightarrow> 'r \<Rightarrow> (goerror + (MSG \<times> bytes)) \<times> 'r" where
  "ReadMessage cb R r =
     (case Peek R r 2 of
        Inl err \<Rightarrow> (Inl (switchError err), r)
      | Inr buf \<Rightarrow>
          if \<not> MagicNumberCheck (buf ! 0) (buf ! 1) then (Inl ErrBadProtocol, r)
          else (case Peek R r HeadSize of
            Inl err \<Rightarrow> (Inl (switchError err), r)
          | Inr buf \<Rightarrow>
              (case DecodePre buf of
                 Inl err \<Rightarrow> (Inl err, r)
               | Inr (msg, msgSize, payloadSize) \<Rightarrow>
                   (let total = unat msgSize + unat payloadSize
                    in (case Peek R r (HeadSize + total) of
                         Inl err \<Rightarrow> (Inl (switchError err), r)
                       | Inr buf \<Rightarrow>
                           (case Decode cb msg (take (unat msgSize) (drop HeadSize buf)) of
                              Inl err \<Rightarrow> (Inl err, r)
                            | Inr msg \<Rightarrow>
                                (let payload = take (unat payloadSize) (drop (HeadSize + unat msgSize) buf)
                                 in (Inr (msg, payload), Discard R r (length buf)))))))))"

text \<open>
  \<open>WriteMessage\<close> hands the three buffers to \<open>net.Buffers.WriteTo\<close>, which writes one after the
  other and stops at the first error. The writer is any \<open>io.Writer\<close>.
\<close>

fun Buffers_WriteTo :: "('w \<Rightarrow> bytes \<Rightarrow> goerror option \<times> 'w) \<Rightarrow> bytes list \<Rightarrow> 'w \<Rightarrow> goerror option \<times> 'w" where
  "Buffers_WriteTo wr [] w = (None, w)"
| "Buffers_WriteTo wr (b # bs) w =
     (case wr w b of (Some err, w') \<Rightarrow> (Some err, w') | (None, w') \<Rightarrow> Buffers_WriteTo wr bs w')"

definition WriteMessage ::
  "cbor_lib \<Rightarrow> ('w \<Rightarrow> bytes \<Rightarrow> goerror option \<times> 'w) \<Rightarrow> 'w \<Rightarrow> MSG \<Rightarrow> bytes \<Rightarrow> goerror option \<times> 'w" where
  "WriteMessage cb wr w msg payload =
     (let (head, msgbs) = EncodeMsg cb msg (length payload)
      in Buffers_WriteTo wr [head, msgbs, payload] w)"

section \<open>Lemmas on headers\<close>

text \<open>The bytes of one frame, and when a message and payload fit in one.\<close>

definition frame :: "cbor_lib \<Rightarrow> MSG \<Rightarrow> bytes \<Rightarrow> bytes" where
  "frame cb m p = (let (head, msgbs) = EncodeMsg cb m (length p) in head @ msgbs @ p)"

definition fits :: "cbor_lib \<Rightarrow> MSG \<Rightarrow> bytes \<Rightarrow> bool" where
  "fits cb m p = (length (Encode cb m) \<le> unat MaxMsgSize \<and> length p \<le> unat MaxPayloadSize)"

text \<open>What the sources rely on of the CBOR library, for one message: decoding its encoding into
  the zero struct of its type gives the message back.\<close>

definition cbor_roundtrip :: "cbor_lib \<Rightarrow> MSG \<Rightarrow> bool" where
  "cbor_roundtrip cb m =
     (case newMSG (Type m) of None \<Rightarrow> False | Some z \<Rightarrow> Decode cb z (Encode cb m) = Inr m)"

lemma newMSG_Type: "newMSG t = Some z \<Longrightarrow> Type z = t"
  by (auto simp: newMSG_def split: if_splits)

lemma newMSG_None_iff: "newMSG t = None \<longleftrightarrow> AuthResT < t"
proof -
  have "unat t \<le> 13 \<longleftrightarrow> unat t = 0 \<or> unat t = 1 \<or> unat t = 2 \<or> unat t = 3 \<or> unat t = 4 \<or> unat t = 5
      \<or> unat t = 6 \<or> unat t = 7 \<or> unat t = 8 \<or> unat t = 9 \<or> unat t = 10 \<or> unat t = 11 \<or> unat t = 12
      \<or> unat t = 13"
    by arith
  then have "t \<le> 13 \<longleftrightarrow> newMSG t \<noteq> None"
    by (simp add: newMSG_def mtype_defs word_le_nat_alt word_unat_eq_iff)
  then show ?thesis by (auto simp: AuthResT_def not_le)
qed

lemma newMSG_Type_Some [simp]: "\<exists>z. newMSG (Type m) = Some z"
  by (cases m) (simp_all add: newMSG_def)

lemma Decode_Type: "Decode cb z buf = Inr m \<Longrightarrow> Type m = Type z"
  by (cases z) (auto split: sum.splits simp: map_sum_def)

lemma length_EncodeMsg_head [simp]: "length (fst (EncodeMsg cb m n)) = HeadSize"
  by (simp add: EncodeMsg_def Let_def)

lemma snd_EncodeMsg [simp]: "snd (EncodeMsg cb m n) = Encode cb m"
  by (simp add: EncodeMsg_def Let_def)

lemma frame_eq: "frame cb m p = fst (EncodeMsg cb m (length p)) @ Encode cb m @ p"
  by (simp add: frame_def EncodeMsg_def Let_def)

lemma length_frame [simp]: "length (frame cb m p) = HeadSize + length (Encode cb m) + length p"
  by (simp add: frame_eq)

lemma DecodePre_EncodeMsg:
  assumes z: "newMSG (Type m) = Some z"
    and msg: "length (Encode cb m) \<le> unat MaxMsgSize" and pay: "n \<le> unat MaxPayloadSize"
  shows "DecodePre (fst (EncodeMsg cb m n)) = Inr (z, of_nat (length (Encode cb m)), of_nat n)"
proof -
  have "\<not> (of_nat (length (Encode cb m)) :: uint32) > MaxMsgSize"
    using msg by (simp add: word_less_nat_alt unat_of_nat_uint32)
  moreover have "\<not> (of_nat n :: uint32) > MaxPayloadSize"
    using pay by (simp add: word_less_nat_alt unat_of_nat_uint32)
  ultimately show ?thesis
    using z by (simp add: DecodePre_def EncodeMsg_def Let_def MessageSize_def)
qed

section \<open>Frames as a function of the received bytes\<close>

text \<open>
  The specification of \<open>ReadMessage\<close> as a function of the bytes a reader holds: the message, its
  payload and the number of bytes of the frame, or the error.
\<close>

definition parse_frame :: "cbor_lib \<Rightarrow> bytes \<Rightarrow> goerror + (MSG \<times> bytes) \<times> nat" where
  "parse_frame cb b =
     (if length b < 2 then Inl ErrIncompletePacket
      else if \<not> MagicNumberCheck (b ! 0) (b ! 1) then Inl ErrBadProtocol
      else if length b < HeadSize then Inl ErrIncompletePacket
      else (case DecodePre (take HeadSize b) of
        Inl e \<Rightarrow> Inl e
      | Inr (z, ms, ps) \<Rightarrow>
          (if length b < HeadSize + (unat ms + unat ps) then Inl ErrIncompletePacket
           else (case Decode cb z (take (unat ms) (drop HeadSize b)) of
             Inl e \<Rightarrow> Inl e
           | Inr m \<Rightarrow> Inr ((m, take (unat ps) (drop (HeadSize + unat ms) b)),
                           HeadSize + (unat ms + unat ps))))))"

definition frame_step :: "cbor_lib \<Rightarrow> bytes \<Rightarrow> ((MSG \<times> bytes) \<times> nat) option" where
  "frame_step cb b = (case parse_frame cb b of Inl _ \<Rightarrow> None | Inr x \<Rightarrow> Some x)"

lemma parse_frame_InrE:
  assumes "parse_frame cb b = Inr ((m, p), n)"
  obtains z ms ps where "MagicNumberCheck (b ! 0) (b ! 1)" "DecodePre (take HeadSize b) = Inr (z, ms, ps)"
    "n = HeadSize + (unat ms + unat ps)" "n \<le> length b"
    "Decode cb z (take (unat ms) (drop HeadSize b)) = Inr m"
    "p = take (unat ps) (drop (HeadSize + unat ms) b)"
  using assms by (auto simp: parse_frame_def split: if_splits sum.splits)

lemma DecodePre_InrD:
  "DecodePre h = Inr (z, ms, ps) \<Longrightarrow>
     newMSG (h ! 2) = Some z \<and> unat ms \<le> 65536 \<and> unat ps \<le> 16777216 \<and> HeadSize \<le> length h"
  by (auto simp: DecodePre_def Let_def not_less word_le_nat_alt split: if_splits option.splits)

lemma parse_frame_append:
  assumes "parse_frame cb b \<noteq> Inl ErrIncompletePacket"
  shows "parse_frame cb (b @ c) = parse_frame cb b"
proof (cases "length b < 2 \<or> \<not> MagicNumberCheck (b ! 0) (b ! 1)")
  case True
  have "2 \<le> length b"
    using assms by (cases "length b < 2") (simp_all add: parse_frame_def)
  with True show ?thesis by (auto simp: parse_frame_def nth_append)
next
  case False
  then have h: "HeadSize \<le> length b"
    using assms by (simp add: parse_frame_def split: if_splits)
  then have t: "take HeadSize (b @ c) = take HeadSize b" by simp
  show ?thesis
  proof (cases "DecodePre (take HeadSize b)")
    case (Inl e)
    with False h t show ?thesis by (auto simp: parse_frame_def nth_append)
  next
    case (Inr x)
    then obtain z ms ps where x: "DecodePre (take HeadSize b) = Inr (z, ms, ps)" by (cases x) auto
    then have "HeadSize + (unat ms + unat ps) \<le> length b"
      using False h assms by (simp add: parse_frame_def split: if_splits)
    with False h t x show ?thesis by (auto simp: parse_frame_def nth_append split: sum.splits)
  qed
qed

interpretation sf: framing "frame_step cb" for cb
proof unfold_locales
  fix b m n
  assume "frame_step cb b = Some (m, n)"
  then show "0 < n \<and> n \<le> length b"
    by (cases m) (auto simp: frame_step_def split: sum.splits elim!: parse_frame_InrE)
next
  fix b x c
  assume "frame_step cb b = Some x"
  then show "frame_step cb (b @ c) = Some x"
    by (auto simp: frame_step_def parse_frame_append split: sum.splits)
qed

lemma head_frame:
  "MagicNumberCheck (frame cb m p ! 0) (frame cb m p ! 1)"
  "take HeadSize (frame cb m p @ rest) = fst (EncodeMsg cb m (length p))"
  by (simp_all add: frame_eq EncodeMsg_def Let_def MagicNumberCheck_def)

lemma parse_frame_frame:
  assumes "fits cb m p" and "cbor_roundtrip cb m"
  shows "parse_frame cb (frame cb m p @ rest) = Inr ((m, p), length (frame cb m p))"
proof -
  obtain z where z: "newMSG (Type m) = Some z" using newMSG_Type_Some by blast
  have pre: "DecodePre (take HeadSize (frame cb m p @ rest))
      = Inr (z, of_nat (length (Encode cb m)), of_nat (length p))"
    unfolding head_frame using z assms(1) by (intro DecodePre_EncodeMsg) (auto simp: fits_def)
  have un: "unat (of_nat (length (Encode cb m)) :: uint32) = length (Encode cb m)"
      "unat (of_nat (length p) :: uint32) = length p"
    using assms(1) by (auto simp: fits_def intro!: unat_of_nat_uint32)
  have dec: "Decode cb z (Encode cb m) = Inr m"
    using assms(2) z by (simp add: cbor_roundtrip_def)
  have "MagicNumberCheck ((frame cb m p @ rest) ! 0) ((frame cb m p @ rest) ! 1)"
    using head_frame(1) by (simp add: nth_append)
  then show ?thesis
    unfolding parse_frame_def pre by (simp add: un dec frame_eq)
qed

lemma parse_frame_prefix:
  assumes "fits cb m p" and "k < length (frame cb m p)"
  shows "parse_frame cb (take k (frame cb m p)) = Inl ErrIncompletePacket"
proof -
  obtain z where z: "newMSG (Type m) = Some z" using newMSG_Type_Some by blast
  have un: "unat (of_nat (length (Encode cb m)) :: uint32) = length (Encode cb m)"
      "unat (of_nat (length p) :: uint32) = length p"
    using assms(1) by (auto simp: fits_def intro!: unat_of_nat_uint32)
  have pre: "DecodePre (take HeadSize (take k (frame cb m p)))
      = Inr (z, of_nat (length (Encode cb m)), of_nat (length p))" if "HeadSize \<le> k"
  proof -
    have "take HeadSize (take k (frame cb m p)) = fst (EncodeMsg cb m (length p))"
      using that head_frame(2) [of cb m p "[]"] by (simp add: min_def)
    then show ?thesis using z assms(1) DecodePre_EncodeMsg by (simp add: fits_def)
  qed
  show ?thesis
    using assms(2) head_frame(1) [of cb m p] pre
    by (auto simp: parse_frame_def un min_def)
qed

section \<open>The reader interface\<close>

text \<open>
  The documented behaviour of \<open>Peek\<close> and \<open>Discard\<close> of a buffered connection: \<open>Peek\<close> returns the
  first \<open>n\<close> bytes without consuming them, or \<open>io.ErrShortBuffer\<close> while fewer have arrived;
  \<open>Discard\<close> drops them.
\<close>

locale packet_reader =
  fixes R :: "'r PacketReader" and content :: "'r \<Rightarrow> bytes"
  assumes peek: "Peek R r n =
      (if n \<le> length (content r) then Inr (take n (content r)) else Inl ErrShortBuffer)"
    and discard: "n \<le> length (content r) \<Longrightarrow> content (Discard R r n) = drop n (content r)"
begin

text \<open>\<open>ReadMessage\<close> implements \<open>parse_frame\<close>: it consumes the frame it returns and nothing on
  an error.\<close>

lemma ReadMessage_parse:
  "ReadMessage cb R r =
     (case parse_frame cb (content r) of
        Inl e \<Rightarrow> (Inl e, r)
      | Inr (mp, n) \<Rightarrow> (Inr mp, Discard R r n))"
proof (cases "HeadSize \<le> length (content r)")
  case False
  then show ?thesis
    by (auto simp: ReadMessage_def parse_frame_def peek switchError_def)
next
  case True
  show ?thesis
  proof (cases "DecodePre (take HeadSize (content r))")
    case (Inl e)
    with True show ?thesis by (auto simp: ReadMessage_def parse_frame_def peek)
  next
    case (Inr x)
    then obtain z ms ps where "DecodePre (take HeadSize (content r)) = Inr (z, ms, ps)"
      by (cases x) auto
    with True show ?thesis
      by (auto simp: ReadMessage_def parse_frame_def peek switchError_def drop_take min_def
        split: sum.splits)
  qed
qed

lemma ReadMessage_step:
  "ReadMessage cb R r = (Inr mp, r') \<Longrightarrow>
     \<exists>n. frame_step cb (content r) = Some (mp, n) \<and> content r' = drop n (content r)"
  using sf.progress [of cb "content r"]
  by (auto simp: ReadMessage_parse frame_step_def discard split: sum.splits)

end

text \<open>A reader whose state is the list of the bytes that have arrived.\<close>

definition buffer_reader :: "bytes PacketReader" where
  "buffer_reader = \<lparr>
     Peek = (\<lambda>b n. if n \<le> length b then Inr (take n b) else Inl ErrShortBuffer),
     Discard = (\<lambda>b n. drop n b)\<rparr>"

interpretation br: packet_reader buffer_reader id
  by unfold_locales (simp_all add: buffer_reader_def)

text \<open>A small instance of the CBOR parameter, for concrete runs: it carries the message ID in one
  byte and nothing else, so it returns every message whose other fields are zero.\<close>

definition id_cbor :: cbor_lib where
  "id_cbor = \<lparr>
     Marshal = (\<lambda>m. Inr [of_int (GetID m)]),
     Unmarshal_CreateReq = (\<lambda>b m. Inr (m\<lparr>creq_ID := uint (hd b)\<rparr>)),
     Unmarshal_CreateRes = (\<lambda>b m. Inr (m\<lparr>cres_ID := uint (hd b)\<rparr>)),
     Unmarshal_WriteReq = (\<lambda>b m. Inr (m\<lparr>wreq_ID := uint (hd b)\<rparr>)),
     Unmarshal_WriteRes = (\<lambda>b m. Inr (m\<lparr>wres_ID := uint (hd b)\<rparr>)),
     Unmarshal_ReadReq = (\<lambda>b m. Inr (m\<lparr>rreq_ID := uint (hd b)\<rparr>)),
     Unmarshal_ReadRes = (\<lambda>b m. Inr (m\<lparr>rres_ID := uint (hd b)\<rparr>)),
     Unmarshal_StatReq = (\<lambda>b m. Inr (m\<lparr>sreq_ID := uint (hd b)\<rparr>)),
     Unmarshal_StatRes = (\<lambda>b m. Inr (m\<lparr>sres_ID := uint (hd b)\<rparr>)),
     Unmarshal_ReadDirReq = (\<lambda>b m. Inr (m\<lparr>dreq_ID := uint (hd b)\<rparr>)),
     Unmarshal_ReadDirRes = (\<lambda>b m. Inr (m\<lparr>dres_ID := uint (hd b)\<rparr>)),
     Unmarshal_HashReq = (\<lambda>b m. Inr (m\<lparr>hreq_ID := uint (hd b)\<rparr>)),
     Unmarshal_HashRes = (\<lambda>b m. Inr (m\<lparr>hres_ID := uint (hd b)\<rparr>)),
     Unmarshal_AuthReq = (\<lambda>b m. Inr (m\<lparr>areq_ID := uint (hd b)\<rparr>)),
     Unmarshal_AuthRes = (\<lambda>b m. Inr (m\<lparr>ares_ID := uint (hd b)\<rparr>))\<rparr>"

lemma id_cbor_StatReq: "0 \<le> i \<Longrightarrow> i < 256 \<Longrightarrow> cbor_roundtrip id_cbor (MStatReq (zeroStatReq\<lparr>sreq_ID := i\<rparr>))"
  by (simp add: cbor_roundtrip_def newMSG_def mtype_defs Encode_def id_cbor_def unsigned_of_int
    take_bit_eq_mod zeroStatReq_def)

lemma length_Encode_id_cbor [simp]: "length (Encode id_cbor m) = 1"
  by (simp add: Encode_def id_cbor_def)

lemma id_cbor_fits: "length p \<le> 16777216 \<Longrightarrow> fits id_cbor m p"
  by (simp add: fits_def)

section \<open>Properties of the frame protocol\<close>

text \<open>A writer that appends to what has been written, as a connection that does not fail does.\<close>

definition append_writer :: "bytes \<Rightarrow> bytes \<Rightarrow> goerror option \<times> bytes" where
  "append_writer w b = (None, w @ b)"

lemma WriteMessage_append: "WriteMessage cb append_writer w m p = (None, w @ frame cb m p)"
  by (simp add: WriteMessage_def frame_def append_writer_def EncodeMsg_def Let_def)

text \<open>C17: what \<open>WriteMessage\<close> writes, \<open>ReadMessage\<close> reads back: on a reader that holds the written
  bytes and whatever follows them, it returns the same message and payload, consumes exactly
  that frame and leaves what follows, provided the encoded message and the payload are within
  \<open>MaxMsgSize\<close> and \<open>MaxPayloadSize\<close> and the CBOR library decodes what it encoded.\<close>

theorem ReadMessage_WriteMessage:
  assumes "packet_reader R content" and "WriteMessage cb append_writer [] m p = (None, w)"
    and "content r = w @ rest" and "fits cb m p" and "cbor_roundtrip cb m"
  shows "\<exists>r'. ReadMessage cb R r = (Inr (m, p), r') \<and> content r' = rest"
proof -
  have "parse_frame cb (content r) = Inr ((m, p), length (frame cb m p))"
    using assms(2,3) parse_frame_frame [OF assms(4,5)] by (simp add: WriteMessage_append)
  then have "ReadMessage cb R r = (Inr (m, p), Discard R r (length (frame cb m p)))"
    by (simp add: packet_reader.ReadMessage_parse [OF assms(1)])
  moreover have "content (Discard R r (length (frame cb m p))) = rest"
    using assms(2,3) by (simp add: packet_reader.discard [OF assms(1)] WriteMessage_append)
  ultimately show ?thesis by blast
qed

theorem ReadMessage_WriteMessage_witness:
  "\<exists>r'. ReadMessage id_cbor buffer_reader
      (frame id_cbor (MStatReq (zeroStatReq\<lparr>sreq_ID := 7\<rparr>)) [1, 2, 3] @ [9, 9])
      = (Inr (MStatReq (zeroStatReq\<lparr>sreq_ID := 7\<rparr>), [1, 2, 3]), r') \<and> id r' = [9, 9]"
  by (rule ReadMessage_WriteMessage [OF br.packet_reader_axioms WriteMessage_append])
     (simp_all add: id_cbor_StatReq id_cbor_fits)

text \<open>While a frame has only partly arrived, at whatever byte it is cut, \<open>ReadMessage\<close>
  returns \<open>ErrIncompletePacket\<close> and leaves the reader as it was, so that the caller can retry
  when more bytes have arrived.\<close>

theorem ReadMessage_partial_frame:
  assumes "packet_reader R content" and "content r = take k (frame cb m p)"
    and "k < length (frame cb m p)" and "fits cb m p"
  shows "ReadMessage cb R r = (Inl ErrIncompletePacket, r)"
  using assms(2) parse_frame_prefix [OF assms(4,3)]
  by (simp add: packet_reader.ReadMessage_parse [OF assms(1)])

theorem ReadMessage_partial_frame_witness:
  "ReadMessage id_cbor buffer_reader (take 13 (frame id_cbor (MStatReq zeroStatReq) [1, 2, 3]))
     = (Inl ErrIncompletePacket, take 13 (frame id_cbor (MStatReq zeroStatReq) [1, 2, 3]))"
  by (rule ReadMessage_partial_frame [OF br.packet_reader_axioms,
        where k = 13 and m = "MStatReq zeroStatReq" and p = "[1, 2, 3]"])
     (simp_all add: id_cbor_fits)

text \<open>C26: whatever bytes a peer sends, a message that \<open>ReadMessage\<close> accepts starts with the magic
  bytes, has the type its header names, carries a payload of at most 16 MB and an encoded message
  of at most 64 KB, and exactly the bytes of header, message and payload are consumed.\<close>

theorem ReadMessage_accepts:
  assumes "packet_reader R content" and "ReadMessage cb R r = (Inr (m, p), r')"
  shows "MagicNumberCheck (content r ! 0) (content r ! 1) \<and> Type m = content r ! 2
    \<and> length p \<le> 16777216
    \<and> (\<exists>k \<le> 65536. HeadSize + k + length p \<le> length (content r)
         \<and> p = take (length p) (drop (HeadSize + k) (content r))
         \<and> content r' = drop (HeadSize + k + length p) (content r))"
proof -
  obtain n where parse: "parse_frame cb (content r) = Inr ((m, p), n)" and r': "r' = Discard R r n"
    using assms(2) by (auto simp: packet_reader.ReadMessage_parse [OF assms(1)] split: sum.splits)
  then obtain z ms ps where *: "MagicNumberCheck (content r ! 0) (content r ! 1)"
    "DecodePre (take HeadSize (content r)) = Inr (z, ms, ps)" "n = HeadSize + (unat ms + unat ps)"
    "n \<le> length (content r)" "Decode cb z (take (unat ms) (drop HeadSize (content r))) = Inr m"
    "p = take (unat ps) (drop (HeadSize + unat ms) (content r))"
    by (elim parse_frame_InrE)
  then have len: "length p = unat ps" by simp
  have type: "Type m = content r ! 2"
    using DecodePre_InrD [OF *(2)] Decode_Type [OF *(5)] newMSG_Type by simp
  have "content r' = drop n (content r)"
    using r' packet_reader.discard [OF assms(1) *(4)] by simp
  then show ?thesis
    using * DecodePre_InrD [OF *(2)] len type by (auto simp: add.assoc intro!: exI [of _ "unat ms"])
qed

theorem ReadMessage_accepts_witness:
  "\<exists>r'. ReadMessage id_cbor buffer_reader (frame id_cbor (MStatReq zeroStatReq) [5])
      = (Inr (MStatReq zeroStatReq, [5]), r') \<and> length [5 :: byte] \<le> 16777216"
proof -
  have "cbor_roundtrip id_cbor (MStatReq zeroStatReq)"
    using id_cbor_StatReq [of 0] by (simp add: zeroStatReq_def)
  then have "ReadMessage id_cbor buffer_reader (frame id_cbor (MStatReq zeroStatReq) [5])
      = (Inr (MStatReq zeroStatReq, [5]), Discard buffer_reader (frame id_cbor (MStatReq zeroStatReq) [5])
          (length (frame id_cbor (MStatReq zeroStatReq) [5])))"
    using parse_frame_frame [of id_cbor "MStatReq zeroStatReq" "[5]" "[]"]
    by (simp add: br.ReadMessage_parse id_cbor_fits)
  from ReadMessage_accepts [OF br.packet_reader_axioms this] this show ?thesis by blast
qed

text \<open>The length fields of the header are 32-bit: a payload (or encoded message) of \<open>2^32\<close>
  bytes or more is announced modulo \<open>2^32\<close>, and any size within 32 bits above the limit is
  refused by the header check with \<open>ErrBadProtocol\<close>.\<close>

theorem EncodeMsg_sizes:
  "DecodePre (fst (EncodeMsg cb m n)) =
     (if length (Encode cb m) mod 2 ^ 32 > 65536 \<or> n mod 2 ^ 32 > 16777216 then Inl ErrBadProtocol
      else Inr (the (newMSG (Type m)), of_nat (length (Encode cb m)), of_nat n))"
proof -
  obtain z where z: "newMSG (Type m) = Some z" using newMSG_Type_Some by blast
  show ?thesis
    using z by (simp add: DecodePre_def EncodeMsg_def Let_def MessageSize_def word_less_nat_alt
      unsigned_of_nat take_bit_eq_mod)
qed

end
