(* ===== verification/ChunkCodec.thy ===== *)
theory ChunkCodec
  imports Message GoHash
begin

text \<open>
  What happens to the bytes of a chunk between the file and the wire (\<open>compressChunk\<close>,
  \<open>decompressChunk\<close>, \<open>encryptChunk\<close>, \<open>decryptChunk\<close> in \<open>transfer.go\<close>). The gzip coder and
  \<open>nacl/secretbox\<close> are parameters, the record \<open>codec_lib\<close>; what the program relies on is that
  decompression inverts compression, whose output is not empty (\<open>gzip_ok\<close>), and that \<open>Open\<close>
  inverts \<open>Seal\<close> under the same nonce and key (\<open>box_ok\<close>).

  Shown: the sender's steps are undone by the receiver's for every chunk and every choice of
  algorithms, also in the cases the code treats specially (empty chunks, chunks that do not
  shrink, unknown algorithm numbers, no key).
\<close>

record codec_lib =
  GzipCompress :: "bytes \<Rightarrow> goerror + bytes"
  GzipDecompress :: "bytes \<Rightarrow> goerror + bytes"
  Seal :: "bytes \<Rightarrow> bytes \<Rightarrow> bytes \<Rightarrow> bytes"
  Open :: "bytes \<Rightarrow> bytes \<Rightarrow> bytes \<Rightarrow> bytes option"

definition compressChunk :: "codec_lib \<Rightarrow> bytes \<Rightarrow> uint8 \<Rightarrow> goerror + (bytes \<times> uint8)" where
  "compressChunk lib data algo =
     (if algo = CompressionNone \<or> data = [] then Inr (data, CompressionNone)
      else if algo = CompressionGzip then
        (case GzipCompress lib data of
           Inl err \<Rightarrow> Inl err
         | Inr compressed \<Rightarrow>
             if length compressed \<ge> length data then Inr (data, CompressionNone)
             else Inr (compressed, algo))
      else Inr (data, CompressionNone))"

definition decompressChunk :: "codec_lib \<Rightarrow> bytes \<Rightarrow> uint8 \<Rightarrow> goerror + bytes" where
  "decompressChunk lib data algo =
     (if algo = CompressionNone \<or> data = [] then Inr data
      else if algo = CompressionGzip then GzipDecompress lib data
      else Inr data)"

text \<open>\<open>secretbox.Seal(nonce[:], data, \&nonce, key)\<close> appends the box to the nonce.\<close>

definition encryptChunk :: "codec_lib \<Rightarrow> (nat \<Rightarrow> goerror + bytes) \<Rightarrow> bytes \<Rightarrow> bytes option \<Rightarrow> goerror + bytes" where
  "encryptChunk lib rnd data key =
     (case key of
        None \<Rightarrow> Inr data
      | Some k \<Rightarrow>
          if data = [] then Inr data
          else (case rnd 24 of
                  Inl err \<Rightarrow> Inl (Errorf (''encrypt nonce: '' @ err_text err))
                | Inr nonce \<Rightarrow> Inr (nonce @ Seal lib nonce k data)))"

definition decryptChunk :: "codec_lib \<Rightarrow> bytes \<Rightarrow> bytes option \<Rightarrow> goerror + bytes" where
  "decryptChunk lib data key =
     (case key of
        None \<Rightarrow> Inr data
      | Some k \<Rightarrow>
          if data = [] then Inr data
          else if length data < 24 then
            Inl (Errorf (''decrypt: data too short ('' @ dec_nat (length data) @ '' bytes, need at least 24)''))
          else (case Open lib (take 24 data) k (drop 24 data) of
                  None \<Rightarrow> Inl (Errorf ''decrypt: secretbox open failed'')
                | Some plain \<Rightarrow> Inr plain))"

section \<open>What is relied on\<close>

definition gzip_ok :: "codec_lib \<Rightarrow> bytes \<Rightarrow> bool" where
  "gzip_ok lib d =
     (case GzipCompress lib d of Inl _ \<Rightarrow> True | Inr c \<Rightarrow> c \<noteq> [] \<and> GzipDecompress lib c = Inr d)"

definition box_ok :: "codec_lib \<Rightarrow> bytes \<Rightarrow> bytes \<Rightarrow> bytes \<Rightarrow> bool" where
  "box_ok lib nonce key d = (Open lib nonce key (Seal lib nonce key d) = Some d)"

lemma compress_decompress:
  assumes "compressChunk lib d algo = Inr (c, a)" and "gzip_ok lib d"
  shows "decompressChunk lib c a = Inr d"
  using assms
  by (auto simp: compressChunk_def decompressChunk_def gzip_ok_def CompressionNone_def CompressionGzip_def
      split: if_splits sum.splits)

lemma compressChunk_length: "compressChunk lib d algo = Inr (c, a) \<Longrightarrow> length c \<le> length d"
  by (auto simp: compressChunk_def split: if_splits sum.splits)

lemma compressChunk_algo:
  "compressChunk lib d algo = Inr (c, a) \<Longrightarrow> a = CompressionNone \<and> c = d \<or> a = algo \<and> algo = CompressionGzip"
  by (auto simp: compressChunk_def split: if_splits sum.splits)

lemma encrypt_decrypt:
  assumes "encryptChunk lib rnd d key = Inr c"
    and "\<And>nonce. rnd 24 = Inr nonce \<Longrightarrow> length nonce = 24"
    and "\<And>nonce k. rnd 24 = Inr nonce \<Longrightarrow> key = Some k \<Longrightarrow> box_ok lib nonce k d"
  shows "decryptChunk lib c key = Inr d"
proof (cases "key = None \<or> d = []")
  case True
  then show ?thesis using assms(1) by (auto simp: encryptChunk_def decryptChunk_def split: option.splits)
next
  case False
  then obtain k nonce where k: "key = Some k" and n: "rnd 24 = Inr nonce" and c: "c = nonce @ Seal lib nonce k d"
    using assms(1) by (auto simp: encryptChunk_def split: option.splits sum.splits)
  have "length nonce = 24" by (rule assms(2) [OF n])
  then show ?thesis
    using k c assms(3) [OF n k] by (auto simp: decryptChunk_def box_ok_def)
qed

text \<open>An instance of the parameters for concrete runs: a coder that knows one repetitive chunk and a
  box that reverses.\<close>

definition sample_codec :: codec_lib where
  "sample_codec = \<lparr>GzipCompress = (\<lambda>d. Inr (if d = replicate 8 7 then [1] else 0 # d)),
     GzipDecompress = (\<lambda>c. Inr (if c = [1] then replicate 8 7 else tl c)),
     Seal = (\<lambda>nonce key d. rev d), Open = (\<lambda>nonce key c. Some (rev c))\<rparr>"

lemma sample_codec_ok: "gzip_ok sample_codec d" "box_ok sample_codec nonce key d"
  by (simp_all add: gzip_ok_def box_ok_def sample_codec_def)

end
