(* ===== verification/Server.thy ===== *)
theory Server
  imports FdCache Auth ChunkCodec
begin

text \<open>
  The server (\<open>serve.go\<close>): the state of \<open>copierServer\<close> and of its connections, the frame loop
  \<open>OnTraffic\<close>, the dispatch of the worker goroutines (\<open>process\<close>), the two-phase authentication
  (\<open>handleAuth\<close>) and the handlers \<open>create\<close>, \<open>write\<close>, \<open>read\<close>, \<open>readDir\<close>, \<open>stat\<close> and \<open>hash\<close> with their
  replies.

  A handler is a function on the server's state. \<open>message.WriteMessage(conn, ...)\<close> is recorded in
  \<open>srv_out\<close>, the list of messages and payloads handed to connections; its error is ignored by
  every caller. \<open>conn.Close()\<close> marks the connection closed; \<open>conn.Context()\<close> is \<open>srv_ctx\<close>. A panic
  (a negative length given to \<open>make\<close>) stops the process: \<open>srv_panic\<close>. One handler is one step; the
  workers take messages from the queue in any order.
\<close>

section \<open>State\<close>

type_synonym connid = nat

datatype authState = authNew | authPending | authOK

record connAuth =
  ca_state :: authState
  ca_challenge :: "bytes option"
  ca_pubKey :: bytes
  ca_user :: string
  ca_home :: string
  ca_encryptionKey :: "bytes option"

record wrappedMsg =
  wm_msg :: MSG
  wm_payload :: bytes
  wm_conn :: connid

record copierServer =
  srv_sessions :: sessionStore
  srv_fdCache :: fdCache
  srv_os :: os_state
  srv_ctx :: "connid \<Rightarrow> connAuth option"
  srv_closed :: "connid \<Rightarrow> bool"
  srv_chan :: "wrappedMsg list"
  srv_out :: "(connid \<times> MSG \<times> bytes) list"
  srv_panic :: bool

text \<open>The libraries and the name service, parameters of the handlers.\<close>

record ('pk, 'sig) server_env =
  env_ssh :: "('pk, 'sig) ssh_lib"
  env_nss :: "string \<Rightarrow> goerror + string"
  env_codec :: codec_lib

definition newServer :: "os_state \<Rightarrow> copierServer" where
  "newServer s = \<lparr>srv_sessions = newSessionStore, srv_fdCache = newFDCache (30 * 1000000000),
     srv_os = s, srv_ctx = Map.empty, srv_closed = (\<lambda>_. False), srv_chan = [], srv_out = [],
     srv_panic = False\<rparr>"

definition getConnAuth :: "connid \<Rightarrow> copierServer \<Rightarrow> connAuth option" where
  "getConnAuth conn srv = srv_ctx srv conn"

definition setConnAuth :: "connid \<Rightarrow> connAuth \<Rightarrow> copierServer \<Rightarrow> copierServer" where
  "setConnAuth conn ca srv = srv\<lparr>srv_ctx := (srv_ctx srv)(conn \<mapsto> ca)\<rparr>"

definition reply :: "connid \<Rightarrow> MSG \<Rightarrow> bytes \<Rightarrow> copierServer \<Rightarrow> copierServer" where
  "reply conn m p srv = srv\<lparr>srv_out := srv_out srv @ [(conn, m, p)]\<rparr>"

definition closeConn :: "connid \<Rightarrow> copierServer \<Rightarrow> copierServer" where
  "closeConn conn srv = srv\<lparr>srv_closed := (srv_closed srv)(conn := True)\<rparr>"

abbreviation authenticated :: "connAuth option \<Rightarrow> bool" where
  "authenticated ca \<equiv> (case ca of None \<Rightarrow> False | Some a \<Rightarrow> ca_state a = authOK)"

section \<open>Authentication\<close>

definition authRes :: "int64 \<Rightarrow> bool \<Rightarrow> bytes \<Rightarrow> string \<Rightarrow> string \<Rightarrow> string \<Rightarrow> MSG" where
  "authRes i ok ch tok usr err = MAuthRes \<lparr>ares_ID = i, ares_Success = ok, ares_Challenge = ch,
     ares_Token = tok, ares_User = usr, ares_Error = err\<rparr>"

definition authDenied :: "connid \<Rightarrow> int64 \<Rightarrow> string \<Rightarrow> copierServer \<Rightarrow> copierServer" where
  "authDenied conn i err srv = closeConn conn (reply conn (authRes i False [] [] [] err) [] srv)"

definition rejectUnauthenticated :: "connid \<Rightarrow> MessageType \<Rightarrow> int64 \<Rightarrow> copierServer \<Rightarrow> copierServer" where
  "rejectUnauthenticated conn msgt i srv =
     authDenied conn i (''authentication required before type '' @ dec_nat (unat msgt)) srv"

definition handleAuth ::
  "('pk, 'sig) server_env \<Rightarrow> (nat \<Rightarrow> goerror + bytes) \<Rightarrow> connid \<Rightarrow> AuthReq \<Rightarrow> copierServer \<Rightarrow> copierServer" where
  "handleAuth env rnd conn req srv =
     (if areq_Signature req \<noteq> [] \<or> areq_Token req \<noteq> [] then
        if areq_Token req \<noteq> [] then
          (case ss_Get (areq_Token req) (srv_sessions srv) of
             None \<Rightarrow> authDenied conn (areq_ID req) ''invalid or expired session token'' srv
           | Some info \<Rightarrow>
               reply conn (authRes (areq_ID req) True [] [] (si_User info) []) []
                 (setConnAuth conn \<lparr>ca_state = authOK, ca_challenge = None, ca_pubKey = [],
                    ca_user = si_User info, ca_home = si_Home info,
                    ca_encryptionKey = si_EncryptionKey info\<rparr> srv))
        else
          (case getConnAuth conn srv of
             None \<Rightarrow> authDenied conn (areq_ID req) ''no pending challenge'' srv
           | Some ca \<Rightarrow>
               (case (if ca_state ca = authPending then ca_challenge ca else None) of
                  None \<Rightarrow> authDenied conn (areq_ID req) ''no pending challenge'' srv
                | Some challenge \<Rightarrow>
                    (case verifySSHSignature (env_ssh env) (areq_PubKey req) challenge (areq_Signature req) of
                       Inl err \<Rightarrow> authDenied conn (areq_ID req)
                         (''signature verification failed: '' @ err_text err) srv
                     | Inr pubKey \<Rightarrow>
                         (case findUserByPubKey (env_ssh env) (env_nss env) pubKey (areq_User req) (srv_os srv) of
                            (Inl err, s') \<Rightarrow>
                              authDenied conn (areq_ID req) (err_text err) (srv\<lparr>srv_os := s'\<rparr>)
                          | (Inr (user, home), s') \<Rightarrow>
                              (let (token, info, st) = ss_Put rnd user home (srv_sessions srv);
                                   key = Some (deriveEncryptionKey (env_ssh env) pubKey);
                                   srv' = srv\<lparr>srv_os := s', srv_sessions := ss_SetKey token key st\<rparr>
                               in reply conn (authRes (areq_ID req) True [] token user []) []
                                    (setConnAuth conn \<lparr>ca_state = authOK, ca_challenge = None,
                                       ca_pubKey = [], ca_user = si_User info, ca_home = si_Home info,
                                       ca_encryptionKey = key\<rparr> srv'))))))
      else if areq_PubKey req = [] then
        authDenied conn (areq_ID req) ''missing public key'' srv
      else
        (case generateChallenge rnd of
           Inl _ \<Rightarrow> authDenied conn (areq_ID req) ''internal error'' srv
         | Inr challenge \<Rightarrow>
             reply conn (authRes (areq_ID req) False challenge [] [] []) []
               (setConnAuth conn \<lparr>ca_state = authPending, ca_challenge = Some challenge,
                  ca_pubKey = areq_PubKey req, ca_user = [], ca_home = [], ca_encryptionKey = None\<rparr> srv)))"

section \<open>Paths\<close>

definition sandboxPath :: "connAuth option \<Rightarrow> string \<Rightarrow> goerror + string" where
  "sandboxPath ca reqPath =
     (case ca of
        None \<Rightarrow> Inl (Errorf ''not authenticated'')
      | Some a \<Rightarrow>
          if HasPrefix reqPath ''~/'' then Inr (Join [ca_home a, drop 2 reqPath])
          else if IsAbs reqPath then Inr (Clean reqPath)
          else Inr (Join [ca_home a, reqPath]))"

section \<open>Create\<close>

definition createFailed :: "connid \<Rightarrow> CreateReq \<Rightarrow> goerror \<Rightarrow> copierServer \<Rightarrow> copierServer" where
  "createFailed conn req err =
     reply conn (MCreateRes \<lparr>cres_ID = creq_ID req, cres_Success = False, cres_Error = err_text err\<rparr>) []"

definition createSuccess :: "connid \<Rightarrow> CreateReq \<Rightarrow> copierServer \<Rightarrow> copierServer" where
  "createSuccess conn req =
     reply conn (MCreateRes \<lparr>cres_ID = creq_ID req, cres_Success = True, cres_Error = []\<rparr>) []"

definition O_RDWR_CREATE :: OpenFlags where
  "O_RDWR_CREATE = \<lparr>o_rdwr = True, o_create = True, o_trunc = False\<rparr>"

text \<open>The file operations of \<open>create\<close>, with the error it reports.\<close>

definition create_file :: "CreateReq \<Rightarrow> string \<Rightarrow> os_state \<Rightarrow> goerror option \<times> os_state" where
  "create_file req spath s =
     (if creq_IsDir req then os_MkdirAll spath (creq_Mode req) s
      else
        (case os_MkdirAll (Dir spath) 493 s of
           (Some err, s1) \<Rightarrow> (Some err, s1)
         | (None, s1) \<Rightarrow>
             (case os_Stat spath s1 of
                (Inr info, s2) \<Rightarrow>
                  if fi_IsDir info then (Some (Errorf ''path is a directory''), s2) else (None, s2)
              | (Inl err, s2) \<Rightarrow>
                  if \<not> is_not_exist err then (Some err, s2)
                  else
                    (case os_OpenFile spath O_RDWR_CREATE (creq_Mode req) s2 of
                       (Inl fdErr, s3) \<Rightarrow> (Some fdErr, s3)
                     | (Inr fd, s3) \<Rightarrow>
                         if creq_Size req > 0 then
                           (case os_Truncate fd (creq_Size req) s3 of
                              (Some truncErr, s4) \<Rightarrow> (Some truncErr, os_Close fd s4)
                            | (None, s4) \<Rightarrow> (None, os_Close fd s4))
                         else (None, os_Close fd s3)))))"

definition srv_create :: "connid \<Rightarrow> CreateReq \<Rightarrow> connAuth option \<Rightarrow> copierServer \<Rightarrow> copierServer" where
  "srv_create conn req ca srv =
     (case sandboxPath ca (creq_Path req) of
        Inl err \<Rightarrow> createFailed conn req err srv
      | Inr spath \<Rightarrow>
          (case create_file req spath (srv_os srv) of
             (Some err, s') \<Rightarrow> createFailed conn req err (srv\<lparr>srv_os := s'\<rparr>)
           | (None, s') \<Rightarrow> createSuccess conn req (srv\<lparr>srv_os := s'\<rparr>)))"

section \<open>Write\<close>

definition writeFailed :: "connid \<Rightarrow> WriteReq \<Rightarrow> goerror \<Rightarrow> copierServer \<Rightarrow> copierServer" where
  "writeFailed conn req err =
     reply conn (MWriteRes \<lparr>wres_ID = wreq_ID req, wres_Success = False, wres_N = 0,
       wres_Error = err_text err\<rparr>) []"

definition writeSuccess :: "connid \<Rightarrow> WriteReq \<Rightarrow> nat \<Rightarrow> copierServer \<Rightarrow> copierServer" where
  "writeSuccess conn req n =
     reply conn (MWriteRes \<lparr>wres_ID = wreq_ID req, wres_Success = True, wres_N = wrap32 (int n),
       wres_Error = []\<rparr>) []"

text \<open>The bytes to write that a payload stands for: checked, decrypted, decompressed.\<close>

definition write_payload :: "codec_lib \<Rightarrow> WriteReq \<Rightarrow> bytes \<Rightarrow> bytes option \<Rightarrow> goerror + bytes" where
  "write_payload lib req payload key =
     (if wreq_Checksum req \<noteq> 0 \<and> ChecksumIEEE payload \<noteq> wreq_Checksum req then
        Inl (Errorf ''checksum mismatch'')
      else
        (case (if wreq_Encryption req = EncryptionSecretBox then decryptChunk lib payload key else Inr payload) of
           Inl err \<Rightarrow> Inl (Errorf (''decrypt: '' @ err_text err))
         | Inr chunk \<Rightarrow> decompressChunk lib chunk (wreq_Compression req)))"

definition put_cache :: "cache_state \<Rightarrow> copierServer \<Rightarrow> copierServer" where
  "put_cache st srv = srv\<lparr>srv_fdCache := fst st, srv_os := snd st\<rparr>"

definition get_cache :: "copierServer \<Rightarrow> cache_state" where
  "get_cache srv = (srv_fdCache srv, srv_os srv)"

definition srv_write ::
  "codec_lib \<Rightarrow> connid \<Rightarrow> WriteReq \<Rightarrow> bytes \<Rightarrow> connAuth \<Rightarrow> copierServer \<Rightarrow> copierServer" where
  "srv_write lib conn req payload ca srv =
     (case write_payload lib req payload (ca_encryptionKey ca) of
        Inl err \<Rightarrow> writeFailed conn req err srv
      | Inr data \<Rightarrow>
          (case sandboxPath (Some ca) (wreq_Path req) of
             Inl err \<Rightarrow> writeFailed conn req err srv
           | Inr spath \<Rightarrow>
               (case fc_get spath True (get_cache srv) of
                  (Inl err, st) \<Rightarrow> writeFailed conn req err (put_cache st srv)
                | (Inr fd, fc, s1) \<Rightarrow>
                    (case os_WriteAt fd data (wreq_Offset req) s1 of
                       ((n, Some err), s2) \<Rightarrow>
                         writeFailed conn req err (put_cache (fc_evict spath (fc, s2)) srv)
                     | ((n, None), s2) \<Rightarrow> writeSuccess conn req n (put_cache (fc, s2) srv)))))"

section \<open>Read\<close>

definition readFailed :: "connid \<Rightarrow> ReadReq \<Rightarrow> goerror \<Rightarrow> copierServer \<Rightarrow> copierServer" where
  "readFailed conn req err =
     reply conn (MReadRes (zeroReadRes\<lparr>rres_ID := rreq_ID req, rres_Error := err_text err\<rparr>)) []"

definition readSuccess ::
  "connid \<Rightarrow> ReadReq \<Rightarrow> bytes \<Rightarrow> uint8 \<Rightarrow> uint8 \<Rightarrow> copierServer \<Rightarrow> copierServer" where
  "readSuccess conn req data compressionAlgo encryptionAlgo =
     reply conn (MReadRes \<lparr>rres_ID = rreq_ID req, rres_Success = True, rres_N = int (length data),
       rres_Checksum = ChecksumIEEE data, rres_Compression = compressionAlgo,
       rres_Encryption = encryptionAlgo, rres_Error = []\<rparr>) data"

text \<open>The largest slice the runtime allocates; \<open>make\<close> panics for a negative or larger length.\<close>

definition maxAlloc :: int64 where "maxAlloc = 2 ^ 48"

definition srv_read ::
  "codec_lib \<Rightarrow> (nat \<Rightarrow> goerror + bytes) \<Rightarrow> connid \<Rightarrow> ReadReq \<Rightarrow> connAuth \<Rightarrow> copierServer \<Rightarrow> copierServer" where
  "srv_read lib rnd conn req ca srv =
     (case sandboxPath (Some ca) (rreq_Path req) of
        Inl err \<Rightarrow> readFailed conn req err srv
      | Inr spath \<Rightarrow>
          (case fc_get spath False (get_cache srv) of
             (Inl err, st) \<Rightarrow> readFailed conn req err (put_cache st srv)
           | (Inr fd, fc, s1) \<Rightarrow>
               (case fd_Stat fd s1 of
                  (Inl err, s2) \<Rightarrow> readFailed conn req err (put_cache (fc, s2) srv)
                | (Inr info, s2) \<Rightarrow>
                    if rreq_Size req < 0 \<or> rreq_Size req > maxAlloc then
                      (put_cache (fc, s2) srv)\<lparr>srv_panic := True\<rparr>
                    else
                      (case os_ReadAt fd (nat (rreq_Size req)) (rreq_Offset req) s2 of
                         ((data, err), s3) \<Rightarrow>
                           (let srv' = put_cache (fc, s3) srv
                            in case (if data = [] then err else None) of
                                 Some e \<Rightarrow> readFailed conn req e srv'
                               | None \<Rightarrow>
                                   (case compressChunk lib data (rreq_Compression req) of
                                      Inl e \<Rightarrow> readFailed conn req e srv'
                                    | Inr (compressed, algo) \<Rightarrow>
                                        if rreq_Encryption req = EncryptionSecretBox then
                                          (case encryptChunk lib rnd compressed (ca_encryptionKey ca) of
                                             Inl e \<Rightarrow> readFailed conn req (Errorf (''encrypt: '' @ err_text e)) srv'
                                           | Inr encrypted \<Rightarrow>
                                               readSuccess conn req encrypted algo EncryptionSecretBox srv')
                                        else readSuccess conn req compressed algo EncryptionNone srv'))))))"

section \<open>Stat, directory listing, hash\<close>

definition srv_stat :: "connid \<Rightarrow> StatReq \<Rightarrow> connAuth option \<Rightarrow> copierServer \<Rightarrow> copierServer" where
  "srv_stat conn req ca srv =
     (case sandboxPath ca (sreq_Path req) of
        Inl err \<Rightarrow> reply conn (MStatRes (zeroStatRes\<lparr>sres_ID := sreq_ID req, sres_Error := err_text err\<rparr>)) [] srv
      | Inr spath \<Rightarrow>
          (case os_Stat spath (srv_os srv) of
             (Inl err, s') \<Rightarrow>
               reply conn (MStatRes (zeroStatRes\<lparr>sres_ID := sreq_ID req, sres_Error := err_text err\<rparr>)) []
                 (srv\<lparr>srv_os := s'\<rparr>)
           | (Inr info, s') \<Rightarrow>
               reply conn (MStatRes \<lparr>sres_ID = sreq_ID req, sres_Success = True, sres_Size = fi_Size info,
                 sres_Mode = fi_Mode info, sres_IsDir = fi_IsDir info, sres_Error = []\<rparr>) []
                 (srv\<lparr>srv_os := s'\<rparr>)))"

text \<open>\<open>readDirSuccess\<close>: the information of every entry is available in the model of \<open>os.ReadDir\<close>.\<close>

definition dirEntry :: "FileInfo \<Rightarrow> DirEntry" where
  "dirEntry i = \<lparr>de_IsDir = fi_IsDir i, de_Mode = fi_Mode i, de_Name = fi_Name i, de_Size = fi_Size i,
     de_ModTime = fi_ModTime i\<rparr>"

definition srv_readDir :: "connid \<Rightarrow> ReadDirReq \<Rightarrow> connAuth option \<Rightarrow> copierServer \<Rightarrow> copierServer" where
  "srv_readDir conn req ca srv =
     (case sandboxPath ca (dreq_Path req) of
        Inl err \<Rightarrow> reply conn (MReadDirRes (zeroReadDirRes\<lparr>dres_ID := dreq_ID req, dres_Error := err_text err\<rparr>)) [] srv
      | Inr spath \<Rightarrow>
          (case os_ReadDir spath (srv_os srv) of
             (Inl err, s') \<Rightarrow>
               reply conn (MReadDirRes (zeroReadDirRes\<lparr>dres_ID := dreq_ID req, dres_Error := err_text err\<rparr>)) []
                 (srv\<lparr>srv_os := s'\<rparr>)
           | (Inr entries, s') \<Rightarrow>
               reply conn (MReadDirRes \<lparr>dres_ID = dreq_ID req, dres_Success = True,
                 dres_Entries = map dirEntry entries, dres_Error = []\<rparr>) [] (srv\<lparr>srv_os := s'\<rparr>)))"

definition hashFailed :: "connid \<Rightarrow> HashReq \<Rightarrow> goerror \<Rightarrow> copierServer \<Rightarrow> copierServer" where
  "hashFailed conn req err =
     reply conn (MHashRes (zeroHashRes\<lparr>hres_ID := hreq_ID req, hres_Error := err_text err\<rparr>)) []"

text \<open>\<open>hash\<close>: the deferred \<open>evict\<close> runs on every return after the path was resolved.\<close>

definition srv_hash :: "connid \<Rightarrow> HashReq \<Rightarrow> connAuth option \<Rightarrow> copierServer \<Rightarrow> copierServer" where
  "srv_hash conn req ca srv =
     (case sandboxPath ca (hreq_Path req) of
        Inl err \<Rightarrow> hashFailed conn req err srv
      | Inr spath \<Rightarrow>
          (case fc_get spath False (get_cache srv) of
             (Inl err, st) \<Rightarrow> hashFailed conn req err (put_cache (fc_evict spath st) srv)
           | (Inr fd, fc, s1) \<Rightarrow>
               (case fd_Seek fd s1 of
                  (Some err, s2) \<Rightarrow> hashFailed conn req err (put_cache (fc_evict spath (fc, s2)) srv)
                | (None, s2) \<Rightarrow>
                    (case os_ReadAll fd s2 of
                       (Inl err, s3) \<Rightarrow> hashFailed conn req err (put_cache (fc_evict spath (fc, s3)) srv)
                     | (Inr b, s3) \<Rightarrow>
                         reply conn (MHashRes \<lparr>hres_ID = hreq_ID req, hres_Success = True,
                           hres_Hash = Sum256 b, hres_Error = []\<rparr>) []
                           (put_cache (fc_evict spath (fc, s3)) srv)))))"

section \<open>Dispatch\<close>

text \<open>One message taken by a worker (the body of the loop in \<open>process\<close>).\<close>

definition handle_msg ::
  "('pk, 'sig) server_env \<Rightarrow> (nat \<Rightarrow> goerror + bytes) \<Rightarrow> wrappedMsg \<Rightarrow> copierServer \<Rightarrow> copierServer" where
  "handle_msg env rnd wmsg srv =
     (case wm_msg wmsg of
        MAuthReq req \<Rightarrow> handleAuth env rnd (wm_conn wmsg) req srv
      | m \<Rightarrow>
          (case getConnAuth (wm_conn wmsg) srv of
             None \<Rightarrow> rejectUnauthenticated (wm_conn wmsg) (Type m) (GetID m) srv
           | Some ca \<Rightarrow>
               if ca_state ca \<noteq> authOK then rejectUnauthenticated (wm_conn wmsg) (Type m) (GetID m) srv
               else
                 (case m of
                    MCreateReq req \<Rightarrow> srv_create (wm_conn wmsg) req (Some ca) srv
                  | MWriteReq req \<Rightarrow> srv_write (env_codec env) (wm_conn wmsg) req (wm_payload wmsg) ca srv
                  | MReadReq req \<Rightarrow> srv_read (env_codec env) rnd (wm_conn wmsg) req ca srv
                  | MStatReq req \<Rightarrow> srv_stat (wm_conn wmsg) req (Some ca) srv
                  | MReadDirReq req \<Rightarrow> srv_readDir (wm_conn wmsg) req (Some ca) srv
                  | MHashReq req \<Rightarrow> srv_hash (wm_conn wmsg) req (Some ca) srv
                  | _ \<Rightarrow> srv)))"

text \<open>\<open>OnTraffic\<close>: read frames until one is incomplete or bad, handing each to the workers. The
  loop is over the connection's reader; the messages are those sent to the channel.\<close>

datatype gnet_action = ActionNone | ActionClose

partial_function (option) OnTraffic ::
  "cbor_lib \<Rightarrow> 'r PacketReader \<Rightarrow> 'r \<Rightarrow> (gnet_action \<times> (MSG \<times> bytes) list \<times> 'r) option" where
  "OnTraffic cb R r =
     (case ReadMessage cb R r of
        (Inl err, r') \<Rightarrow> Some (if err = ErrIncompletePacket then ActionNone else ActionClose, [], r')
      | (Inr mp, r') \<Rightarrow>
          Option.bind (OnTraffic cb R r') (\<lambda>(a, ms, r''). Some (a, mp # ms, r'')))"

section \<open>What every handler keeps\<close>

definition srv_inv :: "copierServer \<Rightarrow> bool" where
  "srv_inv srv = fc_inv (get_cache srv)"

text \<open>One message was handed to the connection, with this ID and of this type.\<close>

definition answers :: "connid \<Rightarrow> int64 \<Rightarrow> MessageType \<Rightarrow> copierServer \<Rightarrow> copierServer \<Rightarrow> bool" where
  "answers conn i t srv srv' \<longleftrightarrow> (\<exists>m p. srv_out srv' = srv_out srv @ [(conn, m, p)] \<and> GetID m = i \<and> Type m = t)"

text \<open>The parts of the state that only authentication changes.\<close>

definition same_auth :: "copierServer \<Rightarrow> copierServer \<Rightarrow> bool" where
  "same_auth srv srv' \<longleftrightarrow> srv_sessions srv' = srv_sessions srv \<and> srv_ctx srv' = srv_ctx srv
     \<and> srv_closed srv' = srv_closed srv \<and> srv_chan srv' = srv_chan srv"

lemma reply_simps [simp]:
  "srv_out (reply c m p s) = srv_out s @ [(c, m, p)]"
  "srv_sessions (reply c m p s) = srv_sessions s" "srv_ctx (reply c m p s) = srv_ctx s"
  "srv_closed (reply c m p s) = srv_closed s" "srv_chan (reply c m p s) = srv_chan s"
  "srv_panic (reply c m p s) = srv_panic s" "get_cache (reply c m p s) = get_cache s"
  "srv_os (reply c m p s) = srv_os s" "srv_fdCache (reply c m p s) = srv_fdCache s"
  by (simp_all add: reply_def get_cache_def)

lemma put_cache_simps [simp]:
  "srv_out (put_cache st s) = srv_out s" "srv_sessions (put_cache st s) = srv_sessions s"
  "srv_ctx (put_cache st s) = srv_ctx s" "srv_closed (put_cache st s) = srv_closed s"
  "srv_chan (put_cache st s) = srv_chan s" "srv_panic (put_cache st s) = srv_panic s"
  "get_cache (put_cache st s) = st" "srv_os (put_cache st s) = snd st" "srv_fdCache (put_cache st s) = fst st"
  by (simp_all add: put_cache_def get_cache_def)

lemma get_cache_os [simp]: "get_cache (srv\<lparr>srv_os := s'\<rparr>) = (srv_fdCache srv, s')"
  by (simp add: get_cache_def)

lemma get_cache_panic [simp]: "get_cache (srv\<lparr>srv_panic := b\<rparr>) = get_cache srv"
  by (simp add: get_cache_def)

lemmas failed_defs = createFailed_def createSuccess_def writeFailed_def writeSuccess_def readFailed_def
  readSuccess_def hashFailed_def zeroReadRes_def zeroStatRes_def zeroReadDirRes_def zeroHashRes_def

text \<open>A handler ends well if it handed one reply, with the request's ID and the type of the
  response, to the connection, and otherwise changed only the cache and the operating system,
  which still agree.\<close>

definition replied :: "connid \<Rightarrow> int64 \<Rightarrow> MessageType \<Rightarrow> copierServer \<Rightarrow> copierServer \<Rightarrow> bool" where
  "replied conn i t srv srv' \<longleftrightarrow>
     (\<exists>st m p. fc_inv st \<and> srv' = reply conn m p (put_cache st srv) \<and> GetID m = i \<and> Type m = t)"

lemma replied_cache:
  "fc_inv st \<Longrightarrow> GetID m = i \<Longrightarrow> Type m = t \<Longrightarrow> replied conn i t srv (reply conn m p (put_cache st srv))"
  unfolding replied_def by blast

lemma replied_here:
  assumes "srv_inv srv" "GetID m = i" "Type m = t"
  shows "replied conn i t srv (reply conn m p srv)"
  using replied_cache [of "get_cache srv" m i t conn srv p] assms
  by (simp add: srv_inv_def put_cache_def get_cache_def)

lemma replied_os:
  assumes "fc_inv (srv_fdCache srv, s')" "GetID m = i" "Type m = t"
  shows "replied conn i t srv (reply conn m p (srv\<lparr>srv_os := s'\<rparr>))"
  using replied_cache [OF assms, of conn srv p] by (simp add: put_cache_def)

lemmas repliedI = replied_cache replied_here replied_os

lemma replied_answers: "replied conn i t srv srv' \<Longrightarrow> answers conn i t srv srv'"
  by (auto simp: replied_def answers_def)

lemma replied_same_auth: "replied conn i t srv srv' \<Longrightarrow> same_auth srv srv'"
  by (auto simp: replied_def same_auth_def)

lemma replied_inv: "replied conn i t srv srv' \<Longrightarrow> srv_inv srv'"
  by (auto simp: replied_def srv_inv_def)

lemma replied_panic: "replied conn i t srv srv' \<Longrightarrow> srv_panic srv' = srv_panic srv"
  by (auto simp: replied_def)

text \<open>System calls that open and close nothing keep the invariant of the cache.\<close>

named_theorems fc_keeps

lemma fc_keeps_snd:
  assumes "fc_inv (fc, s)" and "fds (snd x) = fds s" and "os_wf s \<Longrightarrow> os_wf (snd x)" and "x = (r, s')"
  shows "fc_inv (fc, s')"
  using assms fc_invD(2) [OF assms(1)] by (auto intro: fc_inv_os)

lemma fc_keeps_Stat [fc_keeps]: "os_Stat p s = (r, s') \<Longrightarrow> fc_inv (fc, s) \<Longrightarrow> fc_inv (fc, s')"
  by (metis fc_keeps_snd fds_unchanged(1) os_wf_Stat)

lemma fc_keeps_ReadDir [fc_keeps]: "os_ReadDir p s = (r, s') \<Longrightarrow> fc_inv (fc, s) \<Longrightarrow> fc_inv (fc, s')"
  by (metis fc_keeps_snd fds_unchanged(3) os_wf_ReadDir)

lemma fc_keeps_MkdirAll [fc_keeps]: "os_MkdirAll p m s = (r, s') \<Longrightarrow> fc_inv (fc, s) \<Longrightarrow> fc_inv (fc, s')"
  by (metis fc_keeps_snd fds_unchanged(2) os_wf_MkdirAll)

lemma fc_keeps_fd_Stat [fc_keeps]: "fd_Stat f s = (r, s') \<Longrightarrow> fc_inv (fc, s) \<Longrightarrow> fc_inv (fc, s')"
  by (metis fc_keeps_snd fds_unchanged(7) os_wf_fd_Stat)

lemma fc_keeps_fd_Seek [fc_keeps]: "fd_Seek f s = (r, s') \<Longrightarrow> fc_inv (fc, s) \<Longrightarrow> fc_inv (fc, s')"
  by (metis fc_keeps_snd fds_unchanged(12) os_wf_fd_Seek)

lemma fc_keeps_ReadAt [fc_keeps]: "os_ReadAt f n off s = (r, s') \<Longrightarrow> fc_inv (fc, s) \<Longrightarrow> fc_inv (fc, s')"
  by (metis fc_keeps_snd fds_unchanged(8) os_wf_ReadAt)

lemma fc_keeps_WriteAt [fc_keeps]: "os_WriteAt f d off s = (r, s') \<Longrightarrow> fc_inv (fc, s) \<Longrightarrow> fc_inv (fc, s')"
  by (metis fc_keeps_snd fds_unchanged(9) os_wf_WriteAt)

lemma fc_keeps_ReadAll [fc_keeps]: "os_ReadAll f s = (r, s') \<Longrightarrow> fc_inv (fc, s) \<Longrightarrow> fc_inv (fc, s')"
  by (metis fc_keeps_snd fds_unchanged(11) os_wf_ReadAll)

lemma srv_invD: "srv_inv srv \<Longrightarrow> fc_inv (srv_fdCache srv, srv_os srv)"
  by (simp add: srv_inv_def get_cache_def)

text \<open>A file that \<open>create\<close> opens is closed again on every path.\<close>

lemma fc_keeps_create_file [fc_keeps]:
  assumes "create_file req p s = (r, s')" and "fc_inv (fc, s)"
  shows "fc_inv (fc, s')"
proof (cases "creq_IsDir req")
  case True
  then show ?thesis using assms fc_keeps_MkdirAll by (auto simp: create_file_def)
next
  case False
  obtain e1 s1 where m: "os_MkdirAll (Dir p) 493 s = (e1, s1)" by (cases "os_MkdirAll (Dir p) 493 s")
  obtain q s2 where st: "os_Stat p s1 = (q, s2)" by (cases "os_Stat p s1")
  have i1: "fc_inv (fc, s1)" using m assms(2) by (rule fc_keeps_MkdirAll)
  have i2: "fc_inv (fc, s2)" using st i1 by (rule fc_keeps_Stat)
  have opened: "fc_inv (fc, s')"
    if o: "os_OpenFile p O_RDWR_CREATE (creq_Mode req) s2 = (Inr f, s3)"
      and t: "s4 = s3 \<or> s4 = snd (os_Truncate f (creq_Size req) s3)" and "s' = os_Close f s4" for f s3 s4
  proof -
    obtain i w where f: "f = next_fd s2" "fds s3 = (fds s2)(f \<mapsto> (p, i, w))"
      using OpenFile_Inr_fds [OF o] by auto
    have "fds s2 f = None"
      using fc_invD(2) [OF i2] f(1) unfolding os_wf_def by (metis less_irrefl not_None_eq prod_cases3)
    moreover have "os_wf s3"
      using os_wf_OpenFile [OF fc_invD(2) [OF i2], of p O_RDWR_CREATE "creq_Mode req"] o by simp
    ultimately have "fds s' = fds s2" "os_wf s'"
      using t f(2) \<open>s' = os_Close f s4\<close> os_wf_Truncate os_wf_Close by auto
    then show ?thesis using fc_inv_os [OF i2] by simp
  qed
  show ?thesis
    using assms(1) False m st i1 i2 opened OpenFile_Inl_inv [OF i2]
    by (fastforce simp: create_file_def split: prod.splits sum.splits option.splits if_splits)
qed

section \<open>The handlers\<close>

lemma srv_create_replied:
  "srv_inv srv \<Longrightarrow> replied conn (creq_ID req) CreateResT srv (srv_create conn req ca srv)"
  by (auto simp: srv_create_def createFailed_def createSuccess_def dest: srv_invD fc_keeps intro!: repliedI
      split: sum.splits prod.splits option.splits)

lemma srv_stat_replied:
  "srv_inv srv \<Longrightarrow> replied conn (sreq_ID req) StatResT srv (srv_stat conn req ca srv)"
  by (auto simp: srv_stat_def zeroStatRes_def dest: srv_invD fc_keeps intro!: repliedI
      split: sum.splits prod.splits)

lemma srv_readDir_replied:
  "srv_inv srv \<Longrightarrow> replied conn (dreq_ID req) ReadDirResT srv (srv_readDir conn req ca srv)"
  by (auto simp: srv_readDir_def zeroReadDirRes_def dest: srv_invD fc_keeps intro!: repliedI
      split: sum.splits prod.splits)

lemma srv_hash_replied:
  assumes "srv_inv srv"
  shows "replied conn (hreq_ID req) HashResT srv (srv_hash conn req ca srv)"
  using assms
  by (auto simp: srv_hash_def hashFailed_def zeroHashRes_def srv_inv_def intro!: repliedI fc_evict_inv
      dest: fc_get_inv fc_keeps split: sum.splits prod.splits option.splits)

lemma srv_write_replied:
  assumes "srv_inv srv"
  shows "replied conn (wreq_ID req) WriteResT srv (srv_write lib conn req payload ca srv)"
  using assms
  by (auto simp: srv_write_def writeFailed_def writeSuccess_def srv_inv_def intro!: repliedI fc_evict_inv
      dest: fc_get_inv fc_keeps split: sum.splits prod.splits option.splits)

text \<open>\<open>read\<close> panics exactly when it gets as far as allocating a buffer of an impossible size.\<close>

lemma srv_read_replied:
  assumes "srv_inv srv"
  shows "replied conn (rreq_ID req) ReadResT srv (srv_read lib rnd conn req ca srv)
    \<or> (rreq_Size req < 0 \<or> rreq_Size req > maxAlloc) \<and>
      (\<exists>st. fc_inv st \<and> srv_read lib rnd conn req ca srv = (put_cache st srv)\<lparr>srv_panic := True\<rparr>)"
proof (cases "sandboxPath (Some ca) (rreq_Path req)")
  case (Inl e)
  then show ?thesis
    using assms by (auto simp: srv_read_def readFailed_def zeroReadRes_def intro!: repliedI)
next
  case (Inr spath)
  note p = Inr
  obtain q fc s1 where g: "fc_get spath False (get_cache srv) = (q, fc, s1)"
    by (cases "fc_get spath False (get_cache srv)") auto
  then have i1: "fc_inv (fc, s1)" using assms by (auto simp: srv_inv_def intro: fc_get_inv)
  show ?thesis
  proof (cases q)
    case (Inl e)
    then show ?thesis
      using p g i1 by (auto simp: srv_read_def readFailed_def zeroReadRes_def intro!: repliedI)
  next
    case (Inr f)
    obtain q2 s2 where st: "fd_Stat f s1 = (q2, s2)" by (cases "fd_Stat f s1")
    then have i2: "fc_inv (fc, s2)" using i1 by (rule fc_keeps)
    obtain d err s3 where rd: "os_ReadAt f (nat (rreq_Size req)) (rreq_Offset req) s2 = ((d, err), s3)"
      by (cases "os_ReadAt f (nat (rreq_Size req)) (rreq_Offset req) s2") auto
    then have i3: "fc_inv (fc, s3)" using i2 by (rule fc_keeps)
    show ?thesis
      using p g Inr st rd i2 i3
      by (auto simp: srv_read_def readFailed_def readSuccess_def zeroReadRes_def Let_def intro!: repliedI
          split: sum.splits option.splits)
  qed
qed

text \<open>The contract of a request handler: one reply with the request's ID and the response's type,
  nothing else changed but files and cache, which stay consistent.\<close>

locale request_handler =
  fixes handler :: "connid \<Rightarrow> 'q \<Rightarrow> copierServer \<Rightarrow> copierServer"
    and rid :: "'q \<Rightarrow> int64" and rtype :: MessageType
  assumes handler_replied: "srv_inv srv \<Longrightarrow> replied conn (rid q) rtype srv (handler conn q srv)"
begin

lemma handler_inv: "srv_inv srv \<Longrightarrow> srv_inv (handler conn q srv)"
  using handler_replied replied_inv by blast

lemma handler_answers: "srv_inv srv \<Longrightarrow> answers conn (rid q) rtype srv (handler conn q srv)"
  using handler_replied replied_answers by blast

lemma handler_same_auth: "srv_inv srv \<Longrightarrow> same_auth srv (handler conn q srv)"
  using handler_replied replied_same_auth by blast

lemma handler_panic: "srv_inv srv \<Longrightarrow> srv_panic (handler conn q srv) = srv_panic srv"
  using handler_replied replied_panic by blast

text \<open>Any sequence of such requests is answered one by one.\<close>

lemma handler_run:
  "srv_inv srv \<Longrightarrow>
     map (\<lambda>(c, m, _). (c, GetID m, Type m)) (srv_out (fold (\<lambda>(c, q). handler c q) reqs srv))
       = map (\<lambda>(c, m, _). (c, GetID m, Type m)) (srv_out srv) @ map (\<lambda>(c, q). (c, rid q, rtype)) reqs"
proof (induction reqs arbitrary: srv)
  case (Cons cq reqs)
  obtain c q where cq: "cq = (c, q)" by (cases cq)
  obtain m p where "srv_out (handler c q srv) = srv_out srv @ [(c, m, p)]" "GetID m = rid q" "Type m = rtype"
    using handler_answers [OF Cons.prems, of c q] unfolding answers_def by blast
  then show ?case using Cons.IH [OF handler_inv [OF Cons.prems]] by (simp add: cq)
qed simp

end

interpretation h_create: request_handler "\<lambda>c q. srv_create c q ca" creq_ID CreateResT for ca
  by unfold_locales (rule srv_create_replied)

interpretation h_write: request_handler "\<lambda>c (q, p). srv_write lib c q p ca" "\<lambda>(q, p). wreq_ID q" WriteResT for lib ca
  by unfold_locales (auto intro: srv_write_replied)

interpretation h_stat: request_handler "\<lambda>c q. srv_stat c q ca" sreq_ID StatResT for ca
  by unfold_locales (rule srv_stat_replied)

interpretation h_readDir: request_handler "\<lambda>c q. srv_readDir c q ca" dreq_ID ReadDirResT for ca
  by unfold_locales (rule srv_readDir_replied)

interpretation h_hash: request_handler "\<lambda>c q. srv_hash c q ca" hreq_ID HashResT for ca
  by unfold_locales (rule srv_hash_replied)

lemma srv_write_inst:
  "srv_inv srv \<Longrightarrow> srv_inv (srv_write lib conn req p ca srv)"
  "srv_inv srv \<Longrightarrow> answers conn (wreq_ID req) WriteResT srv (srv_write lib conn req p ca srv)"
  "srv_inv srv \<Longrightarrow> same_auth srv (srv_write lib conn req p ca srv)"
  using h_write.handler_inv [where q = "(req, p)"] h_write.handler_answers [where q = "(req, p)"]
    h_write.handler_same_auth [where q = "(req, p)"]
  by simp_all

section \<open>Authentication steps\<close>

lemma denied_simps [simp]:
  "srv_out (authDenied c i e s) = srv_out s @ [(c, authRes i False [] [] [] e, [])]"
  "srv_sessions (authDenied c i e s) = srv_sessions s" "srv_ctx (authDenied c i e s) = srv_ctx s"
  "srv_chan (authDenied c i e s) = srv_chan s" "srv_panic (authDenied c i e s) = srv_panic s"
  "get_cache (authDenied c i e s) = get_cache s" "srv_os (authDenied c i e s) = srv_os s"
  "srv_fdCache (authDenied c i e s) = srv_fdCache s"
  "srv_closed (authDenied c i e s) = (srv_closed s)(c := True)"
  by (simp_all add: authDenied_def closeConn_def get_cache_def)

lemma setConnAuth_simps [simp]:
  "srv_out (setConnAuth c ca s) = srv_out s" "srv_sessions (setConnAuth c ca s) = srv_sessions s"
  "srv_ctx (setConnAuth c ca s) = (srv_ctx s)(c \<mapsto> ca)" "srv_chan (setConnAuth c ca s) = srv_chan s"
  "srv_panic (setConnAuth c ca s) = srv_panic s" "get_cache (setConnAuth c ca s) = get_cache s"
  "srv_os (setConnAuth c ca s) = srv_os s" "srv_fdCache (setConnAuth c ca s) = srv_fdCache s"
  "srv_closed (setConnAuth c ca s) = srv_closed s"
  by (simp_all add: setConnAuth_def get_cache_def)

lemma authRes_simps [simp]: "GetID (authRes i ok ch tok u e) = i" "Type (authRes i ok ch tok u e) = AuthResT"
  by (simp_all add: authRes_def)

text \<open>A completed challenge: the request carries a signature of the challenge pending on its
  connection by a key that belongs to the user.\<close>

definition proves :: "('pk, 'sig) server_env \<Rightarrow> copierServer \<Rightarrow> connid \<Rightarrow> AuthReq \<Rightarrow> bytes \<Rightarrow> string \<Rightarrow> string \<Rightarrow> bytes option \<Rightarrow> bool" where
  "proves env srv conn req challenge user home key \<longleftrightarrow>
     (\<exists>ca pk s'. srv_ctx srv conn = Some ca \<and> ca_state ca = authPending \<and> ca_challenge ca = Some challenge
        \<and> verifySSHSignature (env_ssh env) (areq_PubKey req) challenge (areq_Signature req) = Inr pk
        \<and> findUserByPubKey (env_ssh env) (env_nss env) pk (areq_User req) (srv_os srv) = (Inr (user, home), s')
        \<and> key = Some (deriveEncryptionKey (env_ssh env) pk))"

lemma handleAuth_cases:
  fixes env rnd conn req srv
  defines "srv' \<equiv> handleAuth env rnd conn req srv"
  obtains (denied) err s' where "srv' = authDenied conn (areq_ID req) err (srv\<lparr>srv_os := s'\<rparr>)"
      "fds s' = fds (srv_os srv) \<or> \<not> os_wf (srv_os srv)" "os_wf (srv_os srv) \<Longrightarrow> os_wf s'"
  | (token) info where "areq_Token req \<noteq> []" "srv_sessions srv (areq_Token req) = Some info"
      "srv' = reply conn (authRes (areq_ID req) True [] [] (si_User info) []) []
         (setConnAuth conn \<lparr>ca_state = authOK, ca_challenge = None, ca_pubKey = [], ca_user = si_User info,
            ca_home = si_Home info, ca_encryptionKey = si_EncryptionKey info\<rparr> srv)"
  | (login) challenge user home key tok s' where "proves env srv conn req challenge user home key"
      "tok = sessionTokenHex rnd" "fds s' = fds (srv_os srv) \<or> \<not> os_wf (srv_os srv)"
      "os_wf (srv_os srv) \<Longrightarrow> os_wf s'"
      "srv' = reply conn (authRes (areq_ID req) True [] tok user []) []
         (setConnAuth conn \<lparr>ca_state = authOK, ca_challenge = None, ca_pubKey = [], ca_user = user,
            ca_home = home, ca_encryptionKey = key\<rparr>
            (srv\<lparr>srv_os := s', srv_sessions := (srv_sessions srv)(tok \<mapsto>
               \<lparr>si_User = user, si_Home = home, si_EncryptionKey = key\<rparr>)\<rparr>))"
  | (challenge) challenge where "areq_Signature req = []" "areq_Token req = []" "rnd challengeLen = Inr challenge"
      "srv' = reply conn (authRes (areq_ID req) False challenge [] [] []) []
         (setConnAuth conn \<lparr>ca_state = authPending, ca_challenge = Some challenge, ca_pubKey = areq_PubKey req,
            ca_user = [], ca_home = [], ca_encryptionKey = None\<rparr> srv)"
proof -
  have here: "\<exists>err s'. authDenied conn (areq_ID req) e srv = authDenied conn (areq_ID req) err (srv\<lparr>srv_os := s'\<rparr>)
      \<and> (fds s' = fds (srv_os srv) \<or> \<not> os_wf (srv_os srv)) \<and> (os_wf (srv_os srv) \<longrightarrow> os_wf s')" for e
    by (intro exI [of _ e] exI [of _ "srv_os srv"]) simp
  consider (tok) "areq_Token req \<noteq> []" | (sig) "areq_Token req = []" "areq_Signature req \<noteq> []"
    | (pub) "areq_Token req = []" "areq_Signature req = []" by blast
  then show thesis
  proof cases
    case tok
    then show ?thesis
      using denied token here unfolding srv'_def
      by (cases "srv_sessions srv (areq_Token req)") (fastforce simp: handleAuth_def ss_Get_def)+
  next
    case pub
    then show ?thesis
      using denied challenge here unfolding srv'_def
      by (cases "rnd challengeLen") (fastforce simp: handleAuth_def generateChallenge_def split: if_splits)+
  next
    case sig
    show ?thesis
    proof (cases "\<exists>ca ch. srv_ctx srv conn = Some ca \<and> ca_state ca = authPending \<and> ca_challenge ca = Some ch")
      case False
      then have "srv' = authDenied conn (areq_ID req) ''no pending challenge'' srv"
        using sig unfolding srv'_def
        by (auto simp: handleAuth_def getConnAuth_def split: option.splits)
      then show ?thesis using denied here by metis
    next
      case True
      then obtain ca ch where ca: "srv_ctx srv conn = Some ca" "ca_state ca = authPending" "ca_challenge ca = Some ch"
        by blast
      show ?thesis
      proof (cases "verifySSHSignature (env_ssh env) (areq_PubKey req) ch (areq_Signature req)")
        case (Inl e)
        then have "srv' = authDenied conn (areq_ID req) (''signature verification failed: '' @ err_text e) srv"
          using sig ca unfolding srv'_def by (simp add: handleAuth_def getConnAuth_def)
        then show ?thesis using denied here by metis
      next
        case (Inr pk)
        obtain q s' where f: "findUserByPubKey (env_ssh env) (env_nss env) pk (areq_User req) (srv_os srv) = (q, s')"
          by (cases "findUserByPubKey (env_ssh env) (env_nss env) pk (areq_User req) (srv_os srv)")
        have s': "fds s' = fds (srv_os srv) \<or> \<not> os_wf (srv_os srv)" "os_wf (srv_os srv) \<Longrightarrow> os_wf s'"
          using findUserByPubKey_fds [OF _ f] by blast+
        show ?thesis
        proof (cases q)
          case Inl2: (Inl e)
          then show ?thesis
            using denied [of "err_text e" s'] s' sig ca Inr f unfolding srv'_def
            by (simp add: handleAuth_def getConnAuth_def)
        next
          case Inr2: (Inr uh)
          obtain user home where uh: "uh = (user, home)" by (cases uh)
          have "proves env srv conn req ch user home (Some (deriveEncryptionKey (env_ssh env) pk))"
            using ca Inr f Inr2 uh by (auto simp: proves_def)
          then show ?thesis
            by (rule login [OF _ refl s'])
              (use sig ca Inr f Inr2 uh in
                \<open>auto simp: srv'_def handleAuth_def getConnAuth_def ss_Put_def ss_SetKey_def Let_def\<close>)
        qed
      qed
    qed
  qed
qed

end
