(* ===== verification/ServerRun.thy ===== *)
theory ServerRun
  imports Server
begin

text \<open>
  The server over time: the frame loop of a connection over arriving bytes (\<open>OnTraffic\<close>), what one
  message does whatever it is (\<open>process\<close>), and the server as a transition system: messages arrive
  on connections, workers handle queued messages in any order, the sweep closes idle files, and
  other processes change the file system. The invariants hold in every reachable state.
\<close>

section \<open>The frame loop\<close>

context packet_reader
begin

text \<open>\<open>OnTraffic\<close> returns, with all complete frames of the bytes received; it asks for the connection
  to be closed if what is left is not the beginning of a frame.\<close>

lemma OnTraffic_drain:
  "\<exists>r'. OnTraffic cb R r =
       Some (if parse_frame cb (snd (drain (frame_step cb) (content r))) = Inl ErrIncompletePacket
             then ActionNone else ActionClose,
         fst (drain (frame_step cb) (content r)), r')
     \<and> content r' = snd (drain (frame_step cb) (content r))"
proof (induction "content r" arbitrary: r rule: sf.drain_induct [where cb = cb])
  case (stop r)
  then show ?case
    by (subst OnTraffic.simps) (auto simp: sf.drain_None ReadMessage_parse frame_step_def split: sum.splits)
next
  case (item m n r)
  then have n: "parse_frame cb (content r) = Inr (m, n)" "n \<le> length (content r)"
    using sf.progress by (auto simp: frame_step_def split: sum.splits)
  then have "drop n (content r) = content (Discard R r n)" by (simp add: discard)
  from item(2) [OF this] n show ?case
    by (subst OnTraffic.simps) (auto simp: sf.drain_Some [OF item(1)] ReadMessage_parse discard)
qed

end

text \<open>The bytes of a connection arrive in pieces; \<open>OnTraffic\<close> runs after each one on what was left
  over and what arrived, until it asks for the connection to be closed.\<close>

fun traffic :: "cbor_lib \<Rightarrow> bytes \<Rightarrow> bytes list \<Rightarrow> ((MSG \<times> bytes) list \<times> gnet_action \<times> bytes) option" where
  "traffic cb buf [] = Some ([], ActionNone, buf)"
| "traffic cb buf (c # cs) =
     (case OnTraffic cb buffer_reader (buf @ c) of
        None \<Rightarrow> None
      | Some (ActionClose, ms, b) \<Rightarrow> Some (ms, ActionClose, b)
      | Some (ActionNone, ms, b) \<Rightarrow>
          map_option (\<lambda>(ms', a, b'). (ms @ ms', a, b')) (traffic cb b cs))"

lemma OnTraffic_buffer:
  "OnTraffic cb buffer_reader b =
     Some (if parse_frame cb (snd (drain (frame_step cb) b)) = Inl ErrIncompletePacket
           then ActionNone else ActionClose, drain (frame_step cb) b)"
  using br.OnTraffic_drain [of cb b] by auto

text \<open>Once what is left is the beginning of no frame, more bytes change neither the messages nor that.\<close>

lemma drain_bad:
  assumes "parse_frame cb (snd (drain (frame_step cb) b)) \<noteq> Inl ErrIncompletePacket"
  shows "drain (frame_step cb) (b @ c) = (fst (drain (frame_step cb) b), snd (drain (frame_step cb) b) @ c)"
    and "parse_frame cb (snd (drain (frame_step cb) b) @ c) \<noteq> Inl ErrIncompletePacket"
proof -
  let ?r = "snd (drain (frame_step cb) b)"
  have "parse_frame cb (?r @ c) = parse_frame cb ?r" using parse_frame_append [OF assms] .
  then show "parse_frame cb (?r @ c) \<noteq> Inl ErrIncompletePacket" using assms by simp
  have "frame_step cb (?r @ c) = None"
    using sf.drain_rest [of cb b] \<open>parse_frame cb (?r @ c) = _\<close> by (simp add: frame_step_def)
  then show "drain (frame_step cb) (b @ c) = (fst (drain (frame_step cb) b), ?r @ c)"
    using sf.drain_append [of cb b c] by (simp add: sf.drain_None case_prod_beta)
qed

lemma traffic_drain:
  "parse_frame cb buf = Inl ErrIncompletePacket \<Longrightarrow> \<exists>b.
     traffic cb buf cs = Some (fst (drain (frame_step cb) (buf @ concat cs)),
       if parse_frame cb (snd (drain (frame_step cb) (buf @ concat cs))) = Inl ErrIncompletePacket
       then ActionNone else ActionClose, b)
     \<and> (parse_frame cb (snd (drain (frame_step cb) (buf @ concat cs))) = Inl ErrIncompletePacket
         \<longrightarrow> b = snd (drain (frame_step cb) (buf @ concat cs)))"
proof (induction cs arbitrary: buf)
  case Nil
  then have "frame_step cb buf = None" by (simp add: frame_step_def)
  with Nil show ?case by (simp add: sf.drain_None)
next
  case (Cons c cs)
  let ?d = "drain (frame_step cb) (buf @ c)"
  show ?case
  proof (cases "parse_frame cb (snd ?d) = Inl ErrIncompletePacket")
    case True
    have "drain (frame_step cb) (buf @ c @ concat cs) =
        (let (ms', r') = drain (frame_step cb) (snd ?d @ concat cs) in (fst ?d @ ms', r'))"
      using sf.drain_append [of cb "buf @ c" "concat cs"] by (simp add: case_prod_beta)
    with Cons.IH [OF True] True show ?thesis by (auto simp: OnTraffic_buffer case_prod_beta)
  next
    case False
    with drain_bad [OF False, of "concat cs"] show ?thesis
      by (auto simp: OnTraffic_buffer case_prod_beta)
  qed
qed

lemma drain_frames:
  assumes "\<forall>(m, p) \<in> set ms. fits cb m p \<and> cbor_roundtrip cb m" and "frame_step cb rest = None"
  shows "drain (frame_step cb) (concat (map (\<lambda>(m, p). frame cb m p) ms) @ rest) = (ms, rest)"
  using assms(1)
proof (induction ms)
  case Nil
  then show ?case using assms(2) by (simp add: sf.drain_None)
next
  case (Cons mp ms)
  obtain m p where mp: "mp = (m, p)" by (cases mp)
  let ?r = "concat (map (\<lambda>(m, p). frame cb m p) ms) @ rest"
  have "frame_step cb (frame cb m p @ ?r) = Some ((m, p), length (frame cb m p))"
    using Cons.prems mp parse_frame_frame by (auto simp: frame_step_def)
  from sf.drain_Some [OF this] show ?case using Cons by (simp add: mp)
qed

lemma traffic_frames:
  assumes "\<forall>(m, p) \<in> set ms. fits cb m p \<and> cbor_roundtrip cb m"
    and "parse_frame cb rest = Inl ErrIncompletePacket"
    and "concat cs = concat (map (\<lambda>(m, p). frame cb m p) ms) @ rest"
  shows "traffic cb [] cs = Some (ms, ActionNone, rest)"
proof -
  have "drain (frame_step cb) (concat cs) = (ms, rest)"
    unfolding assms(3) using drain_frames [OF assms(1)] assms(2) by (simp add: frame_step_def)
  moreover have "parse_frame cb [] = Inl ErrIncompletePacket" by (simp add: parse_frame_def)
  ultimately show ?thesis using traffic_drain [of cb "[]" cs] assms(2) by auto
qed

section \<open>One message\<close>

abbreviation is_request :: "MSG \<Rightarrow> bool" where
  "is_request m \<equiv> Type m \<in> {CreateReqT, WriteReqT, ReadReqT, StatReqT, ReadDirReqT, HashReqT, AuthReqT}"

lemma handle_msg_auth: "wm_msg wm = MAuthReq req \<Longrightarrow> handle_msg env rnd wm srv = handleAuth env rnd (wm_conn wm) req srv"
  by (simp add: handle_msg_def)

lemma handle_msg_unauth:
  assumes "Type (wm_msg wm) \<noteq> AuthReqT" and "\<not> authenticated (srv_ctx srv (wm_conn wm))"
  shows "handle_msg env rnd wm srv =
    rejectUnauthenticated (wm_conn wm) (Type (wm_msg wm)) (GetID (wm_msg wm)) srv"
  using assms by (cases "wm_msg wm") (auto simp: handle_msg_def getConnAuth_def split: option.splits)

lemma srv_inv_denied: "fc_inv (srv_fdCache srv, s') \<Longrightarrow> srv_inv (authDenied c i e (srv\<lparr>srv_os := s'\<rparr>))"
  by (simp add: srv_inv_def)

lemma handleAuth_inv: "srv_inv srv \<Longrightarrow> srv_inv (handleAuth env rnd conn req srv)"
proof (cases rule: handleAuth_cases [of env rnd conn req srv])
  case (denied err s')
  moreover assume "srv_inv srv"
  ultimately show ?thesis
    using fc_inv_os srv_invD fc_invD(2) by (metis srv_inv_denied)
next
  case (login challenge user home key tok s')
  moreover assume inv: "srv_inv srv"
  ultimately have "fc_inv (srv_fdCache srv, s')"
    using fc_inv_os srv_invD fc_invD(2) by metis
  then show ?thesis using login by (simp add: srv_inv_def get_cache_def)
qed (auto simp: srv_inv_def)

lemma handleAuth_answers: "answers conn (areq_ID req) AuthResT srv (handleAuth env rnd conn req srv)"
  by (cases rule: handleAuth_cases [of env rnd conn req srv]) (auto simp: answers_def)

lemma handleAuth_panic: "srv_panic (handleAuth env rnd conn req srv) = srv_panic srv"
  by (cases rule: handleAuth_cases [of env rnd conn req srv]) auto

text \<open>A handled message other than an authentication leaves sessions and connection contexts alone.\<close>

definition panicked :: "copierServer \<Rightarrow> copierServer \<Rightarrow> bool" where
  "panicked srv srv' \<longleftrightarrow> (\<exists>st. fc_inv st \<and> srv' = (put_cache st srv)\<lparr>srv_panic := True\<rparr>)"

lemmas handlers_replied = srv_create_replied [unfolded mtype_defs] srv_write_replied [unfolded mtype_defs]
  srv_stat_replied [unfolded mtype_defs] srv_readDir_replied [unfolded mtype_defs]
  srv_hash_replied [unfolded mtype_defs]

lemma handle_msg_request:
  assumes inv: "srv_inv srv" and ca: "srv_ctx srv (wm_conn wm) = Some ca" "ca_state ca = authOK"
    and m: "is_request (wm_msg wm)" "Type (wm_msg wm) \<noteq> AuthReqT"
  shows "replied (wm_conn wm) (GetID (wm_msg wm)) (Type (wm_msg wm) + 1) srv (handle_msg env rnd wm srv)
    \<or> (\<exists>req. wm_msg wm = MReadReq req \<and> (rreq_Size req < 0 \<or> rreq_Size req > maxAlloc))
      \<and> panicked srv (handle_msg env rnd wm srv)"
proof (cases "wm_msg wm")
  case (MReadReq req)
  then show ?thesis
    using srv_read_replied [OF inv, of "wm_conn wm" req "env_codec env" rnd ca] ca
    by (auto simp: handle_msg_def getConnAuth_def mtype_defs panicked_def)
qed (use assms in \<open>auto simp: handle_msg_def getConnAuth_def mtype_defs
      intro: handlers_replied\<close>)

lemma handle_msg_other:
  assumes "\<not> is_request (wm_msg wm)" and "authenticated (srv_ctx srv (wm_conn wm))"
  shows "handle_msg env rnd wm srv = srv"
  using assms by (cases "wm_msg wm") (auto simp: handle_msg_def getConnAuth_def mtype_defs split: option.splits)

lemma handle_msg_inv:
  assumes "srv_inv srv"
  shows "srv_inv (handle_msg env rnd wm srv)"
proof (cases "Type (wm_msg wm) = AuthReqT")
  case True
  then show ?thesis using assms by (cases "wm_msg wm") (simp_all add: mtype_defs handle_msg_auth handleAuth_inv)
next
  case not_auth: False
  show ?thesis
  proof (cases "authenticated (srv_ctx srv (wm_conn wm))")
    case False
    then show ?thesis
      using assms not_auth by (simp add: handle_msg_unauth rejectUnauthenticated_def srv_inv_def)
  next
    case True
    then obtain ca where ca: "srv_ctx srv (wm_conn wm) = Some ca" "ca_state ca = authOK"
      by (auto split: option.splits)
    then show ?thesis
      using handle_msg_request [OF assms ca _ not_auth, of env rnd] handle_msg_other [of wm srv env rnd] assms
      by (cases "is_request (wm_msg wm)") (auto dest: replied_inv simp: panicked_def srv_inv_def)
  qed
qed

lemma handle_msg_same:
  assumes "srv_inv srv" and "Type (wm_msg wm) \<noteq> AuthReqT"
  shows "srv_sessions (handle_msg env rnd wm srv) = srv_sessions srv"
    and "srv_ctx (handle_msg env rnd wm srv) = srv_ctx srv"
proof -
  have "srv_sessions (handle_msg env rnd wm srv) = srv_sessions srv
    \<and> srv_ctx (handle_msg env rnd wm srv) = srv_ctx srv"
  proof (cases "authenticated (srv_ctx srv (wm_conn wm))")
    case False
    then show ?thesis
      using assms by (simp add: handle_msg_unauth rejectUnauthenticated_def)
  next
    case True
    then obtain ca where ca: "srv_ctx srv (wm_conn wm) = Some ca" "ca_state ca = authOK"
      by (auto split: option.splits)
    then show ?thesis
      using handle_msg_request [OF assms(1) ca _ assms(2), of env rnd] handle_msg_other [of wm srv env rnd]
      by (cases "is_request (wm_msg wm)") (auto dest!: replied_same_auth simp: same_auth_def panicked_def)
  qed
  then show "srv_sessions (handle_msg env rnd wm srv) = srv_sessions srv"
    and "srv_ctx (handle_msg env rnd wm srv) = srv_ctx srv" by simp_all
qed

text \<open>Every request is answered once, or the process panics.\<close>

lemma handle_msg_reply_or_panic:
  assumes "srv_inv srv" and "is_request (wm_msg wm)" and "handle_msg env rnd wm srv = srv'"
  shows "srv_inv srv' \<and>
    (answers (wm_conn wm) (GetID (wm_msg wm))
       (if authenticated (srv_ctx srv (wm_conn wm)) then Type (wm_msg wm) + 1 else AuthResT) srv srv'
     \<or> (\<exists>req. wm_msg wm = MReadReq req \<and> (rreq_Size req < 0 \<or> rreq_Size req > maxAlloc) \<and> srv_panic srv'))"
proof -
  have inv: "srv_inv srv'" using handle_msg_inv [OF assms(1)] assms(3) by blast
  have one: "AuthReqT + 1 = AuthResT" by (simp add: mtype_defs)
  show ?thesis
  proof (cases "Type (wm_msg wm) = AuthReqT")
    case True
    then obtain req where "wm_msg wm = MAuthReq req" by (cases "wm_msg wm") (auto simp: mtype_defs)
    then show ?thesis
      using inv assms(3) handleAuth_answers [of "wm_conn wm" req srv env rnd] one by (auto simp: handle_msg_auth)
  next
    case not_auth: False
    show ?thesis
    proof (cases "authenticated (srv_ctx srv (wm_conn wm))")
      case False
      then show ?thesis
        using inv assms(3) handle_msg_unauth [OF not_auth False, of env rnd]
        by (auto simp: rejectUnauthenticated_def answers_def)
    next
      case True
      then obtain ca where "srv_ctx srv (wm_conn wm) = Some ca" "ca_state ca = authOK"
        by (auto split: option.splits)
      from handle_msg_request [OF assms(1) this assms(2) not_auth, of env rnd] show ?thesis
        using inv True unfolding assms(3) by (auto simp: panicked_def dest: replied_answers)
    qed
  qed
qed

section \<open>The server as a transition system\<close>

datatype srv_event = EvArrive wrappedMsg | EvWork wrappedMsg "nat \<Rightarrow> goerror + bytes" | EvSweep int64 | EvFiles

text \<open>A queued message is handled by some worker: workers take messages in order but run
  concurrently, so any queued message may be the next that is handled. \<open>EvFiles\<close> is a change of the
  file system by other processes.\<close>

inductive srv_step :: "('pk, 'sig) server_env \<Rightarrow> srv_event \<Rightarrow> copierServer \<Rightarrow> copierServer \<Rightarrow> bool" for env where
  arrive: "\<not> srv_panic srv \<Longrightarrow> srv_step env (EvArrive wm) srv (srv\<lparr>srv_chan := srv_chan srv @ [wm]\<rparr>)"
| work: "\<not> srv_panic srv \<Longrightarrow> srv_chan srv = xs @ wm # ys \<Longrightarrow>
    srv_step env (EvWork wm rnd) srv (handle_msg env rnd wm (srv\<lparr>srv_chan := xs @ ys\<rparr>))"
| sweep: "\<not> srv_panic srv \<Longrightarrow> srv_step env (EvSweep now) srv (put_cache (fc_sweep now (get_cache srv)) srv)"
| files: "\<not> srv_panic srv \<Longrightarrow> os_wf s' \<Longrightarrow> fds s' = fds (srv_os srv) \<Longrightarrow>
    srv_step env EvFiles srv (srv\<lparr>srv_os := s'\<rparr>)"

text \<open>A run: the events, each with the state it happened in.\<close>

inductive srv_run ::
  "('pk, 'sig) server_env \<Rightarrow> copierServer \<Rightarrow> (copierServer \<times> srv_event) list \<Rightarrow> copierServer \<Rightarrow> bool" for env s0 where
  run_start: "srv_run env s0 [] s0"
| run_step: "srv_run env s0 tr srv \<Longrightarrow> srv_step env ev srv srv' \<Longrightarrow> srv_run env s0 (tr @ [(srv, ev)]) srv'"

lemma chan_inv [simp]: "srv_inv (srv\<lparr>srv_chan := q\<rparr>) = srv_inv srv"
  by (simp add: srv_inv_def get_cache_def)

lemma srv_step_inv:
  assumes "srv_step env ev srv srv'" and "srv_inv srv"
  shows "srv_inv srv'"
  using assms(1)
proof (cases rule: srv_step.cases)
  case (work xs wm ys rnd)
  then show ?thesis using assms(2) by (simp add: handle_msg_inv)
next
  case (sweep now)
  then show ?thesis using assms(2) fc_sweep_inv by (simp add: srv_inv_def)
next
  case (files s')
  then show ?thesis using fc_inv_os [OF srv_invD [OF assms(2)]] by (simp add: srv_inv_def)
qed (use assms(2) in simp)

lemma srv_run_inv: "srv_run env s0 tr srv \<Longrightarrow> srv_inv s0 \<Longrightarrow> srv_inv srv"
  by (induction rule: srv_run.induct) (auto intro: srv_step_inv)

lemma newServer_inv: "os_wf s \<Longrightarrow> fds s = Map.empty \<Longrightarrow> srv_inv (newServer s)"
  by (simp add: srv_inv_def get_cache_def newServer_def newFDCache_inv)

section \<open>Who is authenticated\<close>

text \<open>A challenge was drawn for a connection.\<close>

definition issued :: "(copierServer \<times> srv_event) list \<Rightarrow> connid \<Rightarrow> bytes \<Rightarrow> bool" where
  "issued tr conn ch \<longleftrightarrow> (\<exists>s req wm rnd. (s, EvWork wm rnd) \<in> set tr \<and> wm_msg wm = MAuthReq req
     \<and> wm_conn wm = conn \<and> rnd challengeLen = Inr ch)"

text \<open>A user with this home and key completed a challenge drawn earlier on the same connection.\<close>

definition logged_in ::
  "('pk, 'sig) server_env \<Rightarrow> (copierServer \<times> srv_event) list \<Rightarrow> string \<Rightarrow> string \<Rightarrow> bytes option \<Rightarrow> bool" where
  "logged_in env tr user home key \<longleftrightarrow>
     (\<exists>pre s wm rnd post req ch. tr = pre @ (s, EvWork wm rnd) # post \<and> wm_msg wm = MAuthReq req
        \<and> issued pre (wm_conn wm) ch \<and> proves env s (wm_conn wm) req ch user home key)"

definition auth_inv :: "('pk, 'sig) server_env \<Rightarrow> (copierServer \<times> srv_event) list \<Rightarrow> copierServer \<Rightarrow> bool" where
  "auth_inv env tr srv \<longleftrightarrow>
     (\<forall>conn ca. srv_ctx srv conn = Some ca \<longrightarrow>
        (ca_state ca = authOK \<longrightarrow> logged_in env tr (ca_user ca) (ca_home ca) (ca_encryptionKey ca))
        \<and> (\<forall>ch. ca_state ca = authPending \<longrightarrow> ca_challenge ca = Some ch \<longrightarrow> issued tr conn ch))
   \<and> (\<forall>tok info. srv_sessions srv tok = Some info \<longrightarrow>
        logged_in env tr (si_User info) (si_Home info) (si_EncryptionKey info))"

lemma issued_more: "issued tr c ch \<Longrightarrow> issued (tr @ tr') c ch"
  by (auto simp: issued_def)

lemma logged_in_more: "logged_in env tr u h k \<Longrightarrow> logged_in env (tr @ tr') u h k"
  unfolding logged_in_def by (metis append_Cons append_assoc)

lemma auth_inv_more:
  assumes "auth_inv env tr srv" and "srv_ctx srv' = srv_ctx srv" and "srv_sessions srv' = srv_sessions srv"
  shows "auth_inv env (tr @ tr') srv'"
  using assms unfolding auth_inv_def by (auto intro: logged_in_more issued_more)

lemma auth_inv_set:
  assumes "auth_inv env tr srv" and "srv_ctx srv' = (srv_ctx srv)(conn \<mapsto> ca)"
    and "srv_sessions srv' = srv_sessions srv"
    and "ca_state ca = authOK \<Longrightarrow> logged_in env (tr @ tr') (ca_user ca) (ca_home ca) (ca_encryptionKey ca)"
    and "\<And>ch. ca_state ca = authPending \<Longrightarrow> ca_challenge ca = Some ch \<Longrightarrow> issued (tr @ tr') conn ch"
  shows "auth_inv env (tr @ tr') srv'"
  using assms auth_inv_more [OF assms(1) refl refl, of tr'] unfolding auth_inv_def by auto

lemma auth_inv_session:
  assumes "auth_inv env tr srv" and "srv_ctx srv' = srv_ctx srv"
    and "srv_sessions srv' = (srv_sessions srv)(tok \<mapsto> info)"
    and "logged_in env tr (si_User info) (si_Home info) (si_EncryptionKey info)"
  shows "auth_inv env tr srv'"
  using assms unfolding auth_inv_def by auto

lemma handleAuth_auth_inv:
  assumes inv: "auth_inv env tr srv" and m: "wm_msg wm = MAuthReq req" and c: "wm_conn wm = conn"
    and srv0: "srv_ctx srv0 = srv_ctx srv" "srv_sessions srv0 = srv_sessions srv" "srv_os srv0 = srv_os srv"
  shows "auth_inv env (tr @ [(srv, EvWork wm rnd)]) (handleAuth env rnd conn req srv0)"
proof (cases rule: handleAuth_cases [of env rnd conn req srv0])
  case (denied err s')
  then show ?thesis using auth_inv_more [OF inv] srv0 by simp
next
  case (token info)
  then have "logged_in env tr (si_User info) (si_Home info) (si_EncryptionKey info)"
    using inv srv0 by (simp add: auth_inv_def)
  then show ?thesis
    unfolding token(3) using srv0 by (intro auth_inv_set [OF inv, where conn = conn]) (auto intro: logged_in_more)
next
  case (login ch user home key tok s')
  have p: "proves env srv conn req ch user home key" using login(1) srv0 by (simp add: proves_def)
  then have "issued tr conn ch" using inv unfolding proves_def auth_inv_def by blast
  with p have l: "logged_in env (tr @ [(srv, EvWork wm rnd)]) user home key"
    unfolding logged_in_def using m c by blast
  let ?info = "\<lparr>si_User = user, si_Home = home, si_EncryptionKey = key\<rparr>"
  let ?s = "srv\<lparr>srv_sessions := (srv_sessions srv)(tok \<mapsto> ?info)\<rparr>"
  have "auth_inv env (tr @ [(srv, EvWork wm rnd)]) ?s"
    using l by (intro auth_inv_session [OF auth_inv_more [OF inv refl refl]]) auto
  then have "auth_inv env ((tr @ [(srv, EvWork wm rnd)]) @ []) (handleAuth env rnd conn req srv0)"
    unfolding login(5) using l srv0 by (elim auth_inv_set [where conn = conn]) auto
  then show ?thesis by simp
next
  case (challenge ch)
  then have "issued (tr @ [(srv, EvWork wm rnd)]) conn ch" using m c by (auto simp: issued_def)
  then show ?thesis
    unfolding challenge(4) using srv0 by (intro auth_inv_set [OF inv, where conn = conn]) auto
qed

lemma srv_step_auth_inv:
  assumes "srv_step env ev srv srv'" and "srv_inv srv" and inv: "auth_inv env tr srv"
  shows "auth_inv env (tr @ [(srv, ev)]) srv'"
  using assms(1)
proof (cases rule: srv_step.cases)
  case (work xs wm ys rnd)
  show ?thesis
  proof (cases "Type (wm_msg wm) = AuthReqT")
    case True
    then obtain req where "wm_msg wm = MAuthReq req" by (cases "wm_msg wm") (auto simp: mtype_defs)
    then show ?thesis
      unfolding work(1,2) using handleAuth_auth_inv [OF inv, where wm = wm] by (simp add: handle_msg_auth)
  next
    case False
    then show ?thesis
      unfolding work(1,2) using assms(2) by (intro auth_inv_more [OF inv]) (simp_all add: handle_msg_same)
  qed
qed (auto intro: auth_inv_more [OF inv])

lemma srv_run_auth_inv:
  "srv_run env (newServer s) tr srv \<Longrightarrow> os_wf s \<Longrightarrow> fds s = Map.empty \<Longrightarrow> auth_inv env tr srv"
proof (induction rule: srv_run.induct)
  case run_start
  then show ?case by (simp add: auth_inv_def newServer_def newSessionStore_def)
next
  case (run_step tr srv ev srv')
  then show ?case
    using srv_step_auth_inv srv_run_inv newServer_inv by metis
qed

text \<open>A session's token stays valid whatever happens later.\<close>

lemma handleAuth_sessions:
  "srv_sessions srv tok \<noteq> None \<Longrightarrow> srv_sessions (handleAuth env rnd conn req srv) tok \<noteq> None"
  by (cases rule: handleAuth_cases [of env rnd conn req srv]) auto

lemma srv_step_sessions:
  assumes "srv_step env ev srv srv'" and "srv_inv srv" and "srv_sessions srv tok \<noteq> None"
  shows "srv_sessions srv' tok \<noteq> None"
  using assms(1)
proof (cases rule: srv_step.cases)
  case (work xs wm ys rnd)
  let ?s = "srv\<lparr>srv_chan := xs @ ys\<rparr>"
  show ?thesis
  proof (cases "Type (wm_msg wm) = AuthReqT")
    case True
    then obtain req where "wm_msg wm = MAuthReq req" by (cases "wm_msg wm") (auto simp: mtype_defs)
    then show ?thesis
      using handleAuth_sessions [of ?s tok] assms(3) work by (simp add: handle_msg_auth)
  next
    case False
    then show ?thesis using assms work by (simp add: handle_msg_same)
  qed
qed (use assms(3) in auto)

lemma srv_run_sessions:
  "srv_run env s0 tr srv \<Longrightarrow> srv_inv s0 \<Longrightarrow> srv_sessions s0 tok \<noteq> None \<Longrightarrow> srv_sessions srv tok \<noteq> None"
  by (induction rule: srv_run.induct) (auto dest: srv_run_inv srv_step_sessions)

section \<open>A concrete run\<close>

definition sample_env :: "(bytes, bytes) server_env" where
  "sample_env = \<lparr>env_ssh = sample_ssh, env_nss = (\<lambda>_. Inl (Errorf ''unknown user'')), env_codec = sample_codec\<rparr>"

definition sample_rnd :: "nat \<Rightarrow> goerror + bytes" where
  "sample_rnd n = Inr (replicate n 1)"

definition sample_hello :: wrappedMsg where
  "sample_hello = \<lparr>wm_msg = MAuthReq (zeroAuthReq\<lparr>areq_PubKey := bytes_of ''k1''\<rparr>), wm_payload = [], wm_conn = 0\<rparr>"

definition sample_login :: wrappedMsg where
  "sample_login = \<lparr>wm_msg = MAuthReq (zeroAuthReq\<lparr>areq_PubKey := bytes_of ''k1'',
     areq_Signature := replicate 32 1 @ bytes_of ''k1''\<rparr>), wm_payload = [], wm_conn = 0\<rparr>"

lemma os_wf_sample: "os_wf sample_os" "fds sample_os = Map.empty"
  by (auto simp: os_wf_def sample_os_def)

text \<open>A message arrives at an idle server and is handled.\<close>

lemma srv_run_msg:
  assumes "srv_run env s0 tr srv" and "\<not> srv_panic srv" and "srv_chan srv = []"
  shows "srv_run env s0 (tr @ [(srv, EvArrive wm), (srv\<lparr>srv_chan := [wm]\<rparr>, EvWork wm rnd)])
    (handle_msg env rnd wm srv)"
proof -
  have "srv_run env s0 (tr @ [(srv, EvArrive wm)]) (srv\<lparr>srv_chan := [wm]\<rparr>)"
    using run_step [OF assms(1) srv_step.arrive [OF assms(2)], of wm] assms(3) by simp
  moreover have "srv\<lparr>srv_chan := []\<rparr> = srv" using assms(3) by (cases srv) simp
  moreover note run_step [OF _ srv_step.work [of "srv\<lparr>srv_chan := [wm]\<rparr>" "[]" wm "[]" env rnd]]
  ultimately show ?thesis using assms(2) by fastforce
qed

text \<open>The client of the sample system asks for a challenge and signs it.\<close>

definition sample_pending :: copierServer where
  "sample_pending = handle_msg sample_env sample_rnd sample_hello (newServer sample_os)"

definition sample_srv :: copierServer where
  "sample_srv = handle_msg sample_env sample_rnd sample_login sample_pending"

lemmas sample_defs = sample_env_def sample_rnd_def sample_hello_def sample_login_def zeroAuthReq_def

lemma sample_key: "bytes_of ''k1'' \<noteq> []"
  by (simp add: bytes_of_def)

lemma sample_pending_simps:
  "srv_ctx sample_pending = [0 \<mapsto> \<lparr>ca_state = authPending, ca_challenge = Some (replicate 32 1),
     ca_pubKey = bytes_of ''k1'', ca_user = [], ca_home = [], ca_encryptionKey = None\<rparr>]"
  "srv_os sample_pending = sample_os" "\<not> srv_panic sample_pending" "srv_chan sample_pending = []"
  "srv_sessions sample_pending = Map.empty" "srv_fdCache sample_pending = newFDCache (30 * 1000000000)"
  by (simp_all add: sample_pending_def handle_msg_def handleAuth_def sample_defs newServer_def
      generateChallenge_def challengeLen_def sample_key newSessionStore_def)

lemma sample_found:
  "fst (findUserByPubKey sample_ssh (\<lambda>_. Inl (Errorf ''unknown user'')) (bytes_of ''k1'') [] sample_os)
     = Inr (''al'', ''/home/al'')"
  by code_simp

lemma sample_verify:
  "verifySSHSignature sample_ssh (bytes_of ''k1'') (replicate 32 1) (replicate 32 1 @ bytes_of ''k1'')
     = Inr (bytes_of ''k1'')"
  by (simp add: verifySSHSignature_def sample_ssh_def)

lemma sample_srv_simps:
  "srv_ctx sample_srv 0 = Some \<lparr>ca_state = authOK, ca_challenge = None, ca_pubKey = [], ca_user = ''al'',
     ca_home = ''/home/al'', ca_encryptionKey = Some (deriveEncryptionKey sample_ssh (bytes_of ''k1''))\<rparr>"
  "\<not> srv_panic sample_srv" "srv_chan sample_srv = []"
  "srv_sessions sample_srv (sessionTokenHex sample_rnd) \<noteq> None"
proof -
  obtain s' where "findUserByPubKey sample_ssh (\<lambda>_. Inl (Errorf ''unknown user'')) (bytes_of ''k1'') [] sample_os
      = (Inr (''al'', ''/home/al''), s')"
    using sample_found by (metis prod.collapse)
  then show "srv_ctx sample_srv 0 = Some \<lparr>ca_state = authOK, ca_challenge = None, ca_pubKey = [], ca_user = ''al'',
     ca_home = ''/home/al'', ca_encryptionKey = Some (deriveEncryptionKey sample_ssh (bytes_of ''k1''))\<rparr>"
    "\<not> srv_panic sample_srv" "srv_chan sample_srv = []"
    "srv_sessions sample_srv (sessionTokenHex sample_rnd) \<noteq> None"
    by (simp_all add: sample_srv_def handle_msg_def handleAuth_def getConnAuth_def sample_pending_simps
        sample_verify ss_Put_def ss_SetKey_def Let_def
        sample_env_def sample_login_def zeroAuthReq_def sample_key)
qed

lemma sample_run: "\<exists>tr. srv_run sample_env (newServer sample_os) tr sample_srv"
proof -
  have "srv_run sample_env (newServer sample_os) ([] @ [(newServer sample_os, EvArrive sample_hello),
      ((newServer sample_os)\<lparr>srv_chan := [sample_hello]\<rparr>, EvWork sample_hello sample_rnd)]) sample_pending"
    unfolding sample_pending_def by (rule srv_run_msg [OF run_start]) (simp_all add: newServer_def)
  from srv_run_msg [OF this sample_pending_simps(3,4)] show ?thesis unfolding sample_srv_def by blast
qed

section \<open>Properties of the server\<close>

text \<open>C23: the server receives exactly the messages that were sent, in order, however the network cuts
  the stream: when the bytes of a connection are the frames of \<open>ms\<close> followed by a beginning of one
  more frame, then for every way in which they arrive in pieces \<open>OnTraffic\<close> hands the workers \<open>ms\<close>,
  leaves the connection open and keeps the incomplete frame buffered.\<close>

theorem traffic_delivers:
  assumes "\<forall>(m, p) \<in> set ms. fits cb m p \<and> cbor_roundtrip cb m"
    and "fits cb m' p'" and "k < length (frame cb m' p')"
    and "concat cs = concat (map (\<lambda>(m, p). frame cb m p) ms) @ take k (frame cb m' p')"
  shows "traffic cb [] cs = Some (ms, ActionNone, take k (frame cb m' p'))"
  by (rule traffic_frames [OF assms(1) parse_frame_prefix [OF assms(2,3)] assms(4)])

theorem traffic_delivers_witness:
  "let f = frame id_cbor (MStatReq (zeroStatReq\<lparr>sreq_ID := 7\<rparr>)) [1, 2] in
   traffic id_cbor [] [take 1 f, drop 1 f @ take 5 f] =
     Some ([(MStatReq (zeroStatReq\<lparr>sreq_ID := 7\<rparr>), [1, 2])], ActionNone, take 5 f)"
  unfolding Let_def
  by (rule traffic_delivers [of "[(MStatReq (zeroStatReq\<lparr>sreq_ID := 7\<rparr>), [1, 2])]"])
     (simp_all add: id_cbor_fits id_cbor_StatReq)

text \<open>For any bytes, also malformed ones, what the server makes of a connection does not depend on
  how the network cut them: it hands over the same messages, and closes the connection or not.\<close>

theorem traffic_cut:
  assumes "concat cs = concat ds"
  shows "map_option (\<lambda>(ms, a, _). (ms, a)) (traffic cb [] cs)
    = map_option (\<lambda>(ms, a, _). (ms, a)) (traffic cb [] ds) \<and> traffic cb [] cs \<noteq> None"
proof -
  have "parse_frame cb [] = Inl ErrIncompletePacket" by (simp add: parse_frame_def)
  then show ?thesis using traffic_drain [of cb "[]" cs] traffic_drain [of cb "[]" ds] assms by auto
qed

theorem traffic_cut_witness:
  "map_option (\<lambda>(ms, a, _). (ms, a)) (traffic id_cbor [] [[1], [2, 3]])
    = map_option (\<lambda>(ms, a, _). (ms, a)) (traffic id_cbor [] [[1, 2], [], [3]])"
  using traffic_cut [of "[[1], [2, 3]]" "[[1, 2], [], [3]]"] by simp

text \<open>C7: a request on a connection that has not authenticated changes nothing: whatever the request,
  no file, no open file, no session and no connection context is touched; the connection gets one
  \<open>AuthRes\<close> that denies it and is closed.\<close>

theorem unauthenticated_no_effect:
  assumes "Type (wm_msg wm) \<noteq> AuthReqT" and "\<not> authenticated (srv_ctx srv (wm_conn wm))"
    and "handle_msg env rnd wm srv = srv'"
  shows "srv_os srv' = srv_os srv \<and> srv_fdCache srv' = srv_fdCache srv \<and> srv_sessions srv' = srv_sessions srv
    \<and> srv_ctx srv' = srv_ctx srv \<and> srv_closed srv' (wm_conn wm)
    \<and> (\<exists>r. srv_out srv' = srv_out srv @ [(wm_conn wm, MAuthRes r, [])] \<and> \<not> ares_Success r
         \<and> ares_ID r = GetID (wm_msg wm) \<and> ares_Token r = [] \<and> ares_Challenge r = [])"
  unfolding assms(3) [symmetric] handle_msg_unauth [OF assms(1,2)]
  by (simp add: rejectUnauthenticated_def authRes_def)

theorem unauthenticated_no_effect_witness:
  "srv_os (handle_msg sample_env sample_rnd \<lparr>wm_msg = MHashReq zeroHashReq, wm_payload = [], wm_conn = 0\<rparr>
      sample_pending) = sample_os"
  using unauthenticated_no_effect [of "\<lparr>wm_msg = MHashReq zeroHashReq, wm_payload = [], wm_conn = 0\<rparr>"
      sample_pending sample_env sample_rnd, OF _ _ refl]
  by (simp add: sample_pending_simps mtype_defs)

text \<open>C24: every request is answered: handling a request puts exactly one message on the connection it
  came from, with the request's ID and the type of its response (an \<open>AuthRes\<close> on a connection that
  has not authenticated), and keeps the invariant of the file descriptor cache. The one exception is
  a \<open>ReadReq\<close> whose size is negative or exceeds the address space, which can bring the process down.\<close>

theorem handle_msg_one_reply:
  assumes "srv_inv srv" and "is_request (wm_msg wm)" and "handle_msg env rnd wm srv = srv'"
  shows "srv_inv srv' \<and>
    (answers (wm_conn wm) (GetID (wm_msg wm))
       (if authenticated (srv_ctx srv (wm_conn wm)) then Type (wm_msg wm) + 1 else AuthResT) srv srv'
     \<or> (\<exists>req. wm_msg wm = MReadReq req \<and> (rreq_Size req < 0 \<or> rreq_Size req > maxAlloc) \<and> srv_panic srv'))"
  by (rule handle_msg_reply_or_panic [OF assms])

theorem handle_msg_one_reply_witness:
  "\<exists>m p. srv_out (handle_msg sample_env sample_rnd sample_hello (newServer sample_os)) = [(0, m, p)]
     \<and> Type m = AuthResT"
proof -
  have "is_request (wm_msg sample_hello)" by (simp add: sample_hello_def)
  from handle_msg_one_reply [OF newServer_inv [OF os_wf_sample] this refl, of sample_env sample_rnd]
  show ?thesis by (auto simp: sample_hello_def answers_def newServer_def mtype_defs)
qed

text \<open>In every state the server can reach, whatever messages arrive in whatever order and whatever
  other processes do to the files, the open file handles of the process are exactly those in the
  file descriptor cache, one per path, and closing the cache closes them all.\<close>

theorem server_no_leak:
  assumes "srv_run env (newServer s) tr srv" and "os_wf s" and "fds s = Map.empty"
  shows "(\<forall>f. fds (srv_os srv) f \<noteq> None \<longleftrightarrow> (\<exists>p e. map_of (files (srv_fdCache srv)) p = Some e \<and> e_file e = f))
    \<and> fds (snd (fc_close (get_cache srv))) = Map.empty"
proof -
  have inv: "fc_inv (srv_fdCache srv, srv_os srv)"
    using srv_run_inv [OF assms(1) newServer_inv [OF assms(2,3)]] by (rule srv_invD)
  note t = fc_invD(3) [OF inv]
  have "\<forall>f. fds (srv_os srv) f \<noteq> None \<longleftrightarrow> (\<exists>p e. map_of (files (srv_fdCache srv)) p = Some e \<and> e_file e = f)"
    using tiesD [OF t] tiesD2 [OF t] by fastforce
  then show ?thesis using fc_close_all [OF inv] by (simp add: get_cache_def)
qed

theorem server_no_leak_witness: "fds (snd (fc_close (get_cache sample_srv))) = Map.empty"
  using sample_run server_no_leak [OF _ os_wf_sample] by blast

text \<open>C6: nobody is authenticated without a signature: in every reachable state, each connection the
  server treats as authenticated stands for a user, home and key for which, earlier in the run, a
  worker handled an \<open>AuthReq\<close> with a signature that verifies, under a key found in that user's
  \<open>authorized_keys\<close> at that moment, over a challenge that the server had drawn for that same
  connection before; the same is true of every session a token gives access to, and the encryption
  key of the connection has 32 bytes.\<close>

theorem authenticated_only_by_signature:
  assumes "srv_run env (newServer s) tr srv" and "os_wf s" and "fds s = Map.empty"
  shows "(\<forall>conn ca. srv_ctx srv conn = Some ca \<longrightarrow> ca_state ca = authOK \<longrightarrow>
        logged_in env tr (ca_user ca) (ca_home ca) (ca_encryptionKey ca)
        \<and> (\<exists>k. ca_encryptionKey ca = Some k \<and> length k = 32))
    \<and> (\<forall>tok info. srv_sessions srv tok = Some info \<longrightarrow>
        logged_in env tr (si_User info) (si_Home info) (si_EncryptionKey info))"
proof -
  have inv: "auth_inv env tr srv" by (rule srv_run_auth_inv [OF assms])
  have "\<exists>k. key = Some k \<and> length k = 32" if "logged_in env tr u h key" for u h key
    using that by (auto simp: logged_in_def proves_def length_deriveEncryptionKey)
  then show ?thesis using inv unfolding auth_inv_def by blast
qed

theorem authenticated_only_by_signature_witness:
  "\<exists>tr. srv_run sample_env (newServer sample_os) tr sample_srv
     \<and> logged_in sample_env tr ''al'' ''/home/al'' (Some (deriveEncryptionKey sample_ssh (bytes_of ''k1'')))"
proof -
  obtain tr where tr: "srv_run sample_env (newServer sample_os) tr sample_srv" using sample_run by blast
  from authenticated_only_by_signature [OF tr os_wf_sample] tr show ?thesis
    using sample_srv_simps(1) by fastforce
qed

text \<open>C28: session tokens do not expire: a token that was issued still authenticates a new connection
  after any further run of the server, whatever time passes (\<open>sessionTTL\<close> is not used).\<close>

theorem session_token_never_expires:
  assumes "srv_inv srv" and "srv_sessions srv tok \<noteq> None" and "tok \<noteq> []"
    and "srv_run env srv tr srv'" and "wm_msg wm = MAuthReq req" and "areq_Token req = tok"
  shows "authenticated (srv_ctx (handle_msg env rnd wm srv') (wm_conn wm))"
proof -
  obtain info where "srv_sessions srv' tok = Some info"
    using srv_run_sessions [OF assms(4,1,2)] by blast
  then show ?thesis
    using assms(3,5,6) by (simp add: handle_msg_auth handleAuth_def ss_Get_def)
qed

theorem session_token_never_expires_witness:
  "authenticated (srv_ctx (handle_msg sample_env sample_rnd \<lparr>wm_msg = MAuthReq (zeroAuthReq\<lparr>areq_Token :=
     sessionTokenHex sample_rnd\<rparr>), wm_payload = [], wm_conn = 5\<rparr> sample_srv) 5)"
proof -
  have "srv_inv sample_srv" using sample_run srv_run_inv newServer_inv [OF os_wf_sample] by blast
  moreover have "sessionTokenHex sample_rnd \<noteq> []"
    by (simp add: sessionTokenHex_def sample_rnd_def EncodeToString_def)
  ultimately show ?thesis
    using session_token_never_expires [OF _ sample_srv_simps(4) _ run_start [of sample_env],
        of "\<lparr>wm_msg = MAuthReq (zeroAuthReq\<lparr>areq_Token := sessionTokenHex sample_rnd\<rparr>),
          wm_payload = [], wm_conn = 5\<rparr>" "zeroAuthReq\<lparr>areq_Token := sessionTokenHex sample_rnd\<rparr>" sample_rnd]
    by simp
qed

end
