(* ===== verification/Files.thy ===== *)
theory Files
  imports GoOS
begin

text \<open>
  Files across system calls: the content of the file a name stands for, which calls keep names and
  open handles together (\<open>coherent\<close>: the name an open file was opened with still stands for its
  inode), and what reading and writing through a handle does to that content.
\<close>

definition file_data :: "os_state \<Rightarrow> string \<Rightarrow> bytes option" where
  "file_data s p = (case lookup s p of None \<Rightarrow> None | Some (_, n) \<Rightarrow> if i_dir n then None else Some (i_data n))"

lemma same_files_data: "same_files s t \<Longrightarrow> file_data t p = file_data s p"
  by (simp add: file_data_def same_files_lookup)

text \<open>Names that exist keep their inode.\<close>

definition grows :: "os_state \<Rightarrow> os_state \<Rightarrow> bool" where
  "grows s t \<longleftrightarrow> (\<forall>p i n. lookup s p = Some (i, n) \<longrightarrow> (\<exists>m. lookup t p = Some (i, m) \<and> i_dir m = i_dir n))"

definition coherent :: "os_state \<Rightarrow> bool" where
  "coherent s \<longleftrightarrow> (\<forall>f p i w. fds s f = Some (p, i, w) \<longrightarrow> (\<exists>n. lookup s p = Some (i, n)))"

lemma grows_refl [simp]: "grows s s"
  by (auto simp: grows_def)

lemma grows_trans: "grows s t \<Longrightarrow> grows t u \<Longrightarrow> grows s u"
  unfolding grows_def by metis

lemma same_files_grows: "same_files s t \<Longrightarrow> grows s t"
  by (auto simp: grows_def same_files_lookup)

lemma coherent_grows:
  assumes "coherent s" and "grows s t" and "\<And>f x. fds t f = Some x \<Longrightarrow> fds s f = Some x"
  shows "coherent t"
  using assms unfolding coherent_def grows_def by metis

lemma lookup_update:
  "names t = names s \<Longrightarrow> cwd t = cwd s \<Longrightarrow> inodes t = (inodes s)(i \<mapsto> m) \<Longrightarrow> inodes s i \<noteq> None \<Longrightarrow>
     lookup t p = (case lookup s p of None \<Rightarrow> None | Some (j, n) \<Rightarrow> Some (j, if j = i then m else n))"
  by (auto simp: lookup_def resolve_def split: option.splits)

lemma grows_update:
  assumes "names t = names s" "cwd t = cwd s" "inodes t = (inodes s)(i \<mapsto> m)" "inodes s i = Some n" "i_dir m = i_dir n"
  shows "grows s t"
proof -
  have "lookup t p = (case lookup s p of None \<Rightarrow> None | Some (j, n) \<Rightarrow> Some (j, if j = i then m else n))" for p
    using assms(1-4) by (intro lookup_update) simp_all
  then show ?thesis using assms(4,5) lookup_inode by (fastforce simp: grows_def split: option.splits)
qed

lemma resolve_abs_clean: "os_wf s \<Longrightarrow> abs_clean (resolve s p)"
  using Join_abs [of "[cwd s, p]"] by (auto simp: resolve_def os_wf_def abs_clean_Clean simp del: Join.simps)

lemma resolve_resolve: "os_wf s \<Longrightarrow> resolve s (resolve s p) = resolve s p"
  using resolve_abs_clean [of s p] by (simp add: resolve_def [of s "resolve s p"] abs_clean_def)

lemma lookup_resolve: "os_wf s \<Longrightarrow> p \<noteq> [] \<Longrightarrow> lookup s (resolve s p) = lookup s p"
  using resolve_abs_clean [of s p] by (auto simp: lookup_def resolve_resolve abs_clean_def)

text \<open>A new name changes no other: either it is in resolved form and was free, or nothing resolves
  to it.\<close>

lemma grows_add_inode:
  assumes wf: "os_wf s" and free: "lookup s p = None \<or> lookup s q = None \<and> p = resolve s q \<and> q \<noteq> []"
    and t: "names t = (p, next_ino s) # names s" "inodes t = (inodes s)(next_ino s \<mapsto> m)" "cwd t = cwd s"
  shows "grows s t"
  unfolding grows_def
proof (intro allI impI)
  fix r i n
  assume r: "lookup s r = Some (i, n)"
  then have i: "map_of (names s) (resolve s r) = Some i" "inodes s i = Some n" "r \<noteq> []"
    by (auto simp: lookup_def split: option.splits if_splits)
  have "resolve s r \<noteq> p"
  proof
    assume eq: "resolve s r = p"
    have "lookup s (resolve s r) \<noteq> None" using lookup_resolve [OF wf i(3)] r by simp
    moreover have "lookup s q = lookup s (resolve s r)" if "p = resolve s q" "lookup s q = None" "q \<noteq> []"
      using lookup_resolve [OF wf that(3)] that(1) eq by simp
    ultimately show False using free eq by auto
  qed
  moreover have "i \<noteq> next_ino s" using wf i(2) by (auto simp: os_wf_def)
  moreover have "resolve t r = resolve s r" using t(3) by (simp add: resolve_def)
  ultimately show "\<exists>m. lookup t r = Some (i, m) \<and> i_dir m = i_dir n"
    using i t by (auto simp: lookup_def)
qed

named_theorems file_keeps

lemma grows_Stat [file_keeps]: "grows s (snd (os_Stat p s))"
  by (rule same_files_grows) (auto simp: same_files_def os_Stat_def tick_def split: option.splits)

lemma grows_ReadDir [file_keeps]: "grows s (snd (os_ReadDir p s))"
  by (rule same_files_grows) (auto simp: same_files_def os_ReadDir_def tick_def split: option.splits)

lemma grows_fd_Stat [file_keeps]: "grows s (snd (fd_Stat f s))"
  by (rule same_files_grows) (auto simp: same_files_def fd_Stat_def tick_def split: option.splits)

lemma grows_fd_Seek [file_keeps]: "grows s (snd (fd_Seek f s))"
  by (rule same_files_grows) (auto simp: same_files_def fd_Seek_def tick_def split: option.splits)

lemma same_files_ReadAt: "same_files s (snd (os_ReadAt f n off s))"
  by (auto simp: same_files_def os_ReadAt_def tick_def Let_def split: option.splits)

lemma grows_ReadAt [file_keeps]: "grows s (snd (os_ReadAt f n off s))"
  by (rule same_files_grows [OF same_files_ReadAt])

lemma grows_ReadAll [file_keeps]: "grows s (snd (os_ReadAll f s))"
  by (rule same_files_grows [OF same_files_ReadAll])

lemma grows_Close [file_keeps]: "grows s (os_Close f s)"
  by (rule same_files_grows [OF same_files_Close])

text \<open>A write either touches nothing, or puts a beginning of the data (all of it if there is no
  error) into the file of the handle.\<close>

lemma WriteAt_cases:
  assumes "os_WriteAt f d off s = ((n, r), s')"
  obtains (none) "same_files s s'" "fds s' = fds s" "r \<noteq> None \<or> d = []"
  | (put) p i nd k m where "fds s f = Some (p, i, True)" "inodes s i = Some nd" "\<not> i_dir nd" "0 \<le> off" "d \<noteq> []"
      "names s' = names s" "cwd s' = cwd s" "fds s' = fds s" "inodes s' = (inodes s)(i \<mapsto> m)" "i_dir m = i_dir nd"
      "i_data m = write_at (i_data nd) (nat off) (take k d)" "r = None \<Longrightarrow> k = length d \<and> n = length d"
proof (cases "off < 0 \<or> d = [] \<or> fds s f = None")
  case True
  then show ?thesis
    using assms by (intro none) (auto simp: os_WriteAt_def Let_def split: option.splits if_splits)
next
  case False
  then obtain p i w where f: "fds s f = Some (p, i, w)" by (cases "fds s f") auto
  show ?thesis
  proof (cases "\<exists>nd. inodes s i = Some nd \<and> w \<and> \<not> i_dir nd")
    case no: False
    then show ?thesis
      using assms False f by (intro none) (auto simp: os_WriteAt_def Let_def split: option.splits if_splits)
  next
    case True
    then obtain nd where nd: "inodes s i = Some nd" "w" "\<not> i_dir nd" by blast
    define k where "k = (case faults s (ticks s) of None \<Rightarrow> length d | Some (_, k) \<Rightarrow> k)"
    show ?thesis
      by (rule put [where p = p and i = i and nd = nd and k = k and
            m = "nd\<lparr>i_data := write_at (i_data nd) (nat off) (take k d), i_mtime := clock s\<rparr>"])
         (use assms False f nd in \<open>auto simp: os_WriteAt_def Let_def tick_def k_def split: option.splits\<close>)
  qed
qed

lemma grows_WriteAt [file_keeps]: "grows s (snd (os_WriteAt f d off s))"
proof (cases "os_WriteAt f d off s")
  case (Pair nr s')
  obtain n r where "nr = (n, r)" by (cases nr)
  with Pair have "os_WriteAt f d off s = ((n, r), s')" by simp
  then have "grows s s'"
    by (cases rule: WriteAt_cases) (auto intro: grows_update same_files_grows)
  then show ?thesis using Pair by simp
qed

lemma grows_Truncate [file_keeps]: "grows s (snd (os_Truncate f sz s))"
proof (cases "\<exists>p i nd. fds s f = Some (p, i, True) \<and> inodes s i = Some nd \<and> 0 \<le> sz \<and> faults s (ticks s) = None")
  case True
  then obtain p i nd where "fds s f = Some (p, i, True)" "inodes s i = Some nd" "0 \<le> sz" "faults s (ticks s) = None"
    by blast
  then show ?thesis by (auto simp: os_Truncate_def tick_def intro!: grows_update [where n = nd])
next
  case False
  then show ?thesis
    by (auto simp: os_Truncate_def tick_def same_files_def intro!: same_files_grows split: option.splits if_splits)
qed

lemma grows_mkdir_list: "os_wf s \<Longrightarrow> grows s (snd (mkdir_list perm ps s))"
proof (induction ps arbitrary: s)
  case (Cons p ps)
  let ?n = "\<lparr>i_dir = True, i_data = [], i_mode = Perm perm AND NOT (umask s), i_mtime = clock s\<rparr>"
  let ?s = "s\<lparr>ticks := Suc (ticks s)\<rparr>"
  show ?case
  proof (cases "lookup s p")
    case None
    show ?thesis
    proof (cases "faults s (ticks s)")
      case f: None
      have wf: "os_wf (add_inode p ?n ?s)" using Cons.prems by (intro os_wf_intros)
      have "grows s (add_inode p ?n ?s)"
        using Cons.prems None by (intro grows_add_inode [where p = p and q = p and m = ?n]) (auto simp: add_inode_def)
      moreover have "grows (add_inode p ?n ?s) (snd (mkdir_list perm ps (add_inode p ?n ?s)))"
        by (rule Cons.IH [OF wf])
      ultimately show ?thesis using None f by (simp add: tick_def grows_trans)
    next
      case (Some e)
      then show ?thesis using None by (cases e) (auto simp: tick_def same_files_def intro!: same_files_grows)
    qed
  next
    case (Some x)
    then show ?thesis using Cons.IH [OF Cons.prems] by (cases x) auto
  qed
qed simp

lemma grows_MkdirAll [file_keeps]: "os_wf s \<Longrightarrow> grows s (snd (os_MkdirAll p perm s))"
  by (simp add: os_MkdirAll_def grows_mkdir_list)

text \<open>Opening: names keep their inodes, and the new handle is coherent.\<close>

lemma OpenFile_cases:
  assumes "os_OpenFile p fl perm s = (Inr f, s')"
  obtains (old) i n where "lookup s p = Some (i, n)" "\<not> (i_dir n \<and> (o_rdwr fl \<or> o_create fl))"
      "f = next_fd s" "fds s' = (fds s)(f \<mapsto> (p, i, o_rdwr fl))" "names s' = names s" "cwd s' = cwd s"
      "inodes s' = (if o_trunc fl then (inodes s)(i \<mapsto> n\<lparr>i_data := [], i_mtime := clock s\<rparr>) else inodes s)"
  | (new) m where "lookup s p = None" "o_create fl" "p \<noteq> []" "f = next_fd s" "\<not> i_dir m" "i_data m = []"
      "fds s' = (fds s)(f \<mapsto> (p, next_ino s, o_rdwr fl))" "names s' = (resolve s p, next_ino s) # names s"
      "inodes s' = (inodes s)(next_ino s \<mapsto> m)" "cwd s' = cwd s"
proof (cases "lookup s p")
  case None
  let ?m = "\<lparr>i_dir = False, i_data = [], i_mode = Perm perm AND NOT (umask s), i_mtime = clock s\<rparr>"
  show ?thesis
    by (rule new [where m = ?m])
       (use assms None in \<open>auto simp: os_OpenFile_def tick_def Let_def case_prod_beta open_ino_def add_inode_def
          split: option.splits if_splits\<close>)
next
  case (Some x)
  then obtain i n where x: "lookup s p = Some (i, n)" by (cases x) auto
  show ?thesis
    by (rule old [OF x])
       (use assms x in \<open>auto simp: os_OpenFile_def tick_def Let_def case_prod_beta open_ino_def
          split: option.splits if_splits\<close>)
qed

lemma grows_OpenFile [file_keeps]:
  assumes "os_wf s"
  shows "grows s (snd (os_OpenFile p fl perm s))"
proof (cases "os_OpenFile p fl perm s")
  case (Pair r s')
  show ?thesis
  proof (cases r)
    case (Inl e)
    then have "names s' = names s" "inodes s' = inodes s" "cwd s' = cwd s"
      using Pair by (auto simp: os_OpenFile_def tick_def Let_def case_prod_beta open_ino_def
          split: option.splits if_splits)
    then show ?thesis using Pair by (simp add: same_files_grows same_files_def)
  next
    case (Inr f)
    from Pair [unfolded Inr] show ?thesis
    proof (cases rule: OpenFile_cases)
      case (old i n)
      then show ?thesis
        using Pair lookup_inode [OF old(1)] grows_update [where n = n and i = i]
        by (cases "o_trunc fl") (auto intro: same_files_grows simp: same_files_def)
    next
      case (new m)
      then show ?thesis
        using Pair assms grows_add_inode [OF assms, of "resolve s p" p s' m] by simp
    qed
  qed
qed

lemma OpenFile_lookup:
  assumes "os_OpenFile p fl perm s = (Inr f, s')"
  obtains i n where "fds s' f = Some (p, i, o_rdwr fl)" "lookup s' p = Some (i, n)"
    "i_dir n \<longrightarrow> \<not> o_rdwr fl" "o_trunc fl \<Longrightarrow> i_data n = []"
    "\<And>c. \<not> o_trunc fl \<Longrightarrow> lookup s p = Some (i, c) \<Longrightarrow> n = c" "lookup s p = None \<Longrightarrow> i_data n = []"
  using assms
proof (cases rule: OpenFile_cases)
  case (old i n)
  then have "lookup s' p = Some (i, if o_trunc fl then n\<lparr>i_data := [], i_mtime := clock s\<rparr> else n)"
    by (auto simp: lookup_def resolve_def split: option.splits if_splits)
  then show ?thesis using old that by auto
next
  case (new m)
  then have "lookup s' p = Some (next_ino s, m)" by (auto simp: lookup_def resolve_def)
  then show ?thesis using new that by auto
qed

lemma coherent_OpenFile [file_keeps]:
  assumes "coherent s" and "os_wf s"
  shows "coherent (snd (os_OpenFile p fl perm s))"
proof (cases "os_OpenFile p fl perm s")
  case (Pair r s')
  have g: "grows s s'" using grows_OpenFile [OF assms(2), of p fl perm] Pair by simp
  show ?thesis
  proof (cases r)
    case (Inl e)
    then show ?thesis using Pair OpenFile_Inl_fds coherent_grows [OF assms(1) g] by simp
  next
    case (Inr f)
    obtain i n where i: "fds s' f = Some (p, i, o_rdwr fl)" "lookup s' p = Some (i, n)"
      using OpenFile_lookup Pair Inr by metis
    obtain x where "fds s' = (fds s)(f \<mapsto> x)" using OpenFile_Inr_fds Pair Inr by blast
    then show ?thesis
      using i g assms(1) Pair unfolding coherent_def grows_def by (metis fun_upd_other option.inject prod.inject snd_conv)
  qed
qed

lemma coherent_unchanged:
  "coherent s \<Longrightarrow> grows s t \<Longrightarrow> fds t = fds s \<Longrightarrow> coherent t"
  by (rule coherent_grows) simp_all

lemma coherent_calls [file_keeps]:
  "coherent s \<Longrightarrow> coherent (snd (os_Stat p s))"
  "coherent s \<Longrightarrow> coherent (snd (os_ReadDir p s))"
  "coherent s \<Longrightarrow> coherent (snd (fd_Stat f s))"
  "coherent s \<Longrightarrow> coherent (snd (fd_Seek f s))"
  "coherent s \<Longrightarrow> coherent (snd (os_ReadAt f n off s))"
  "coherent s \<Longrightarrow> coherent (snd (os_ReadAll f s))"
  "coherent s \<Longrightarrow> coherent (snd (os_WriteAt f d off s))"
  "coherent s \<Longrightarrow> coherent (snd (os_Truncate f sz s))"
  "coherent s \<Longrightarrow> os_wf s \<Longrightarrow> coherent (snd (os_MkdirAll p perm s))"
  by (erule coherent_unchanged, (rule file_keeps | assumption)+, simp)+

lemma coherent_Close [file_keeps]: "coherent s \<Longrightarrow> coherent (os_Close f s)"
  by (rule coherent_grows [OF _ grows_Close]) (auto simp: os_Close_def split: if_splits)

lemma coherent_no_handles: "fds s = Map.empty \<Longrightarrow> coherent s"
  by (simp add: coherent_def)

section \<open>Reading and writing\<close>

lemma coherent_handle:
  assumes "coherent s" and "fds s f = Some (p, i, w)" and "inodes s i = Some n" and "\<not> i_dir n"
  shows "lookup s p = Some (i, n)" and "file_data s p = Some (i_data n)"
proof -
  obtain m where "lookup s p = Some (i, m)" using assms(1,2) unfolding coherent_def by blast
  then show "lookup s p = Some (i, n)" using lookup_inode assms(3) by fastforce
  then show "file_data s p = Some (i_data n)" using assms(4) by (simp add: file_data_def)
qed

lemma WriteAt_data:
  assumes "coherent s" and "fds s f = Some (p, i, w)" and "os_WriteAt f d off s = ((n, r), s')" and "d \<noteq> []"
  shows "r = None \<Longrightarrow> \<exists>c. file_data s p = Some c \<and> file_data s' p = Some (write_at c (nat off) d)
      \<and> 0 \<le> off \<and> n = length d"
    and "\<exists>k. file_data s' p = map_option (\<lambda>c. write_at c (nat off) (take k d)) (file_data s p)"
    and "lookup s q = Some (j, m) \<Longrightarrow> j \<noteq> i \<Longrightarrow> lookup s' q = Some (j, m)"
proof -
  have "(r = None \<longrightarrow> (\<exists>c. file_data s p = Some c \<and> file_data s' p = Some (write_at c (nat off) d)
      \<and> 0 \<le> off \<and> n = length d))
    \<and> (\<exists>k. file_data s' p = map_option (\<lambda>c. write_at c (nat off) (take k d)) (file_data s p))
    \<and> (\<forall>q j m. lookup s q = Some (j, m) \<longrightarrow> j \<noteq> i \<longrightarrow> lookup s' q = Some (j, m))"
    using assms(3)
  proof (cases rule: WriteAt_cases)
    case none
    then have "file_data s' p = file_data s p" by (simp add: file_data_def same_files_lookup)
    then show ?thesis using none assms(4) same_files_lookup [OF none(1)]
      by (auto intro!: exI [of _ 0] simp: option.map_ident)
  next
    case (put p' i' nd k m)
    then have eq: "p' = p" "i' = i" using assms(2) by auto
    note h = coherent_handle [OF assms(1,2), of nd]
    have l: "lookup s' q = (case lookup s q of None \<Rightarrow> None | Some (j, n) \<Rightarrow> Some (j, if j = i then m else n))" for q
      using put eq by (intro lookup_update) auto
    then have "lookup s' p = Some (i, m)" using h put eq by simp
    then have "file_data s' p = Some (i_data m)" using put by (simp add: file_data_def)
    then show ?thesis using put eq h l by auto
  qed
  then show "r = None \<Longrightarrow> \<exists>c. file_data s p = Some c \<and> file_data s' p = Some (write_at c (nat off) d)
      \<and> 0 \<le> off \<and> n = length d"
    and "\<exists>k. file_data s' p = map_option (\<lambda>c. write_at c (nat off) (take k d)) (file_data s p)"
    and "lookup s q = Some (j, m) \<Longrightarrow> j \<noteq> i \<Longrightarrow> lookup s' q = Some (j, m)" by blast+
qed

lemma ReadAt_data:
  assumes "coherent s" and "fds s f = Some (p, i, w)" and "os_ReadAt f n off s = ((d, r), s')" and "d \<noteq> []"
  shows "\<exists>c k. file_data s p = Some c \<and> 0 \<le> off \<and> d = take k (drop (nat off) c) \<and> k \<le> n
    \<and> (faults s (ticks s) = None \<or> r = None \<longrightarrow> k = n)"
proof -
  obtain nd where nd: "inodes s i = Some nd" "\<not> i_dir nd" "0 \<le> off"
      "d = take (case faults s (ticks s) of None \<Rightarrow> n | Some (_, k) \<Rightarrow> min k n) (drop (nat off) (i_data nd))"
    "r = None \<Longrightarrow> faults s (ticks s) = None"
    using assms(2-4)
    by (auto simp: os_ReadAt_def Let_def tick_def split: option.splits if_splits prod.splits)
  show ?thesis
    using coherent_handle [OF assms(1,2) nd(1,2)] nd
    by (intro exI [of _ "i_data nd"] exI [of _ "case faults s (ticks s) of None \<Rightarrow> n | Some (_, k) \<Rightarrow> min k n"])
       (auto split: option.splits)
qed

text \<open>The environment's choice of faults is no state of the program.\<close>

definition no_faults :: "os_state \<Rightarrow> bool" where
  "no_faults s \<longleftrightarrow> (\<forall>k. faults s k = None)"

lemma faults_mkdir_list: "faults (snd (mkdir_list perm ps s)) = faults s"
  by (induction perm ps s rule: mkdir_list.induct) (auto simp: tick_def add_inode_def split: option.splits)

lemma faults_unchanged [simp]:
  "faults (snd (os_Stat p s)) = faults s" "faults (snd (os_MkdirAll p perm s)) = faults s"
  "faults (snd (os_OpenFile p fl perm s)) = faults s" "faults (snd (os_ReadDir p s)) = faults s"
  "faults (os_Close f s) = faults s" "faults (snd (fd_Stat f s)) = faults s" "faults (snd (fd_Seek f s)) = faults s"
  "faults (snd (os_ReadAt f n off s)) = faults s" "faults (snd (os_ReadAll f s)) = faults s"
  "faults (snd (os_WriteAt f d off s)) = faults s" "faults (snd (os_Truncate f sz s)) = faults s"
  "faults (snd (os_Chmod p m s)) = faults s" "faults (snd (os_Remove p s)) = faults s"
  "faults (snd (os_Rename p q s)) = faults s" "faults (snd (os_CloseErr f s)) = faults s"
  by (auto simp: os_Stat_def os_MkdirAll_def faults_mkdir_list os_OpenFile_def os_ReadDir_def os_Close_def fd_Stat_def
      fd_Seek_def os_ReadAt_def os_ReadAll_def os_WriteAt_def os_Truncate_def os_Chmod_def os_Remove_def
      os_Rename_def os_CloseErr_def remove_name_def tick_def Let_def
      open_ino_def add_inode_def split: option.splits)

lemma faults_snd: "X = (r, s') \<Longrightarrow> faults (snd X) = faults s \<Longrightarrow> no_faults s' = no_faults s"
  by (simp add: no_faults_def)

section \<open>Making files\<close>

text \<open>A new directory is no file, and other names are as before.\<close>

lemma file_data_add_dir:
  assumes wf: "os_wf s" and free: "lookup s p = None" and "i_dir m"
    and t: "names t = (p, next_ino s) # names s" "inodes t = (inodes s)(next_ino s \<mapsto> m)" "cwd t = cwd s"
  shows "file_data t q = file_data s q"
proof (cases "lookup s q")
  case None
  have r: "resolve t q = resolve s q" using t(3) by (simp add: resolve_def)
  have "map_of (names s) (resolve s q) = None" if "q \<noteq> []"
  proof (cases "map_of (names s) (resolve s q)")
    case (Some i)
    then have "inodes s i \<noteq> None" using wf map_of_SomeD [OF Some] unfolding os_wf_def by blast
    then show ?thesis using Some None that by (auto simp: lookup_def)
  qed simp
  then have "file_data t q = None"
    using assms(3) t(1,2) by (simp add: file_data_def lookup_def r)
  then show ?thesis using None by (simp add: file_data_def)
next
  case (Some x)
  then obtain i n where x: "lookup s q = Some (i, n)" by (cases x) auto
  have g: "grows s t" using grows_add_inode [OF wf _ t] free by blast
  then obtain n' where l: "lookup t q = Some (i, n')" using x unfolding grows_def by blast
  have "i \<noteq> next_ino s" using wf lookup_inode [OF x] by (auto simp: os_wf_def)
  then have "n' = n" using lookup_inode [OF l] lookup_inode [OF x] t(2) by simp
  then show ?thesis using x l by (simp add: file_data_def)
qed

lemma file_data_mkdir_list: "os_wf s \<Longrightarrow> file_data (snd (mkdir_list perm ps s)) q = file_data s q"
proof (induction ps arbitrary: s)
  case (Cons p ps)
  let ?n = "\<lparr>i_dir = True, i_data = [], i_mode = Perm perm AND NOT (umask s), i_mtime = clock s\<rparr>"
  let ?t = "add_inode p ?n (s\<lparr>ticks := Suc (ticks s)\<rparr>)"
  have "file_data ?t q = file_data s q" if "lookup s p = None"
    by (rule file_data_add_dir [OF Cons.prems that, where m = ?n]) (simp_all add: add_inode_def)
  moreover have "os_wf ?t" using Cons.prems by (intro os_wf_intros)
  moreover have "file_data (s\<lparr>ticks := Suc (ticks s)\<rparr>) q = file_data s q"
    by (rule same_files_data) (simp add: same_files_def)
  ultimately show ?case
    using Cons.IH Cons.prems by (auto simp: tick_def split: option.splits)
qed simp

lemma file_data_MkdirAll: "os_wf s \<Longrightarrow> file_data (snd (os_MkdirAll p perm s)) q = file_data s q"
  by (simp add: os_MkdirAll_def file_data_mkdir_list)

lemma Truncate_data:
  assumes "coherent s" and "fds s f = Some (p, i, w)" and "os_Truncate f sz s = (None, s')" and "file_data s p = Some c"
  shows "\<exists>d. file_data s' p = Some d \<and> length d = nat sz"
proof -
  obtain n where n: "lookup s p = Some (i, n)" using assms(1,2) unfolding coherent_def by blast
  have nd: "inodes s i = Some n" "\<not> i_dir n" "i_data n = c"
    using lookup_inode [OF n] assms(4) n by (auto simp: file_data_def split: if_splits)
  let ?m = "n\<lparr>i_data := take (nat sz) (i_data n @ replicate (nat sz - length (i_data n)) 0), i_mtime := clock s\<rparr>"
  have s': "s' = s\<lparr>ticks := Suc (ticks s), inodes := (inodes s)(i \<mapsto> ?m)\<rparr>" "0 \<le> sz"
    using assms(2,3) nd by (auto simp: os_Truncate_def tick_def split: option.splits if_splits)
  have "lookup s' p = (case lookup s p of None \<Rightarrow> None | Some (j, n) \<Rightarrow> Some (j, if j = i then ?m else n))"
    using s' nd by (intro lookup_update) simp_all
  then have "lookup s' p = Some (i, ?m)" using n by simp
  then show ?thesis using nd by (auto simp: file_data_def)
qed

section \<open>What an operation on one name leaves of another\<close>

lemma resolve_cwd: "cwd t = cwd s \<Longrightarrow> resolve t q = resolve s q"
  unfolding resolve_def by (simp only:)

lemma lookup_inodes_eq:
  assumes "cwd t = cwd s" and "inodes t = inodes s"
    and "map_of (names t) (resolve s q) = map_of (names s) (resolve s r)" and "q \<noteq> []" and "r \<noteq> []"
  shows "lookup t q = lookup s r"
  using assms unfolding lookup_def resolve_cwd [OF assms(1)] by (simp split: option.split)

lemma lookup_OpenFile_other:
  assumes wf: "os_wf s" and op: "os_OpenFile p fl perm s = (r, s')" and ne: "resolve s q \<noteq> resolve s p"
  shows "lookup s' q = lookup s q"
proof (cases r)
  case (Inl e)
  then have "same_files s s'"
    using op by (auto simp: same_files_def os_OpenFile_def tick_def Let_def case_prod_beta split: option.splits if_splits)
  then show ?thesis by (rule same_files_lookup)
next
  case (Inr f)
  show ?thesis using op [unfolded Inr]
  proof (cases rule: OpenFile_cases)
    case (old i n)
    have "j \<noteq> i" if "lookup s q = Some (j, m)" for j m
      using lookup_same_inode [OF wf _ old(1)] that ne by blast
    moreover have "lookup s' q = (case lookup s q of None \<Rightarrow> None | Some (j, m) \<Rightarrow>
        Some (j, if j = i then n\<lparr>i_data := [], i_mtime := clock s\<rparr> else m))" if "o_trunc fl"
      using old that lookup_inode [OF old(1)] by (intro lookup_update) simp_all
    moreover have "same_files s s'" if "\<not> o_trunc fl" using old that by (simp add: same_files_def)
    ultimately show ?thesis
      by (cases "o_trunc fl") (auto simp: same_files_lookup split: option.splits)
  next
    case (new m)
    have "i \<noteq> next_ino s" if "map_of (names s) x = Some i" for x i
      using wf map_of_SomeD [OF that] unfolding os_wf_def by (metis less_irrefl)
    then show ?thesis
      using new ne resolve_cwd [OF new(10), of q] unfolding lookup_def by (auto split: option.splits)
  qed
qed

lemma lookup_WriteAt_other:
  assumes wf: "os_wf s" and h: "fds s f = Some (p, i, w)" "lookup s p = Some (i, n)"
    and op: "os_WriteAt f d off s = (r, s')" and ne: "resolve s q \<noteq> resolve s p"
  shows "lookup s' q = lookup s q"
proof -
  obtain k e where r: "r = (k, e)" by (cases r)
  have other: "j \<noteq> i" if "lookup s q = Some (j, m)" for j m
    using lookup_same_inode [OF wf _ h(2)] that ne by blast
  show ?thesis using op [unfolded r]
  proof (cases rule: WriteAt_cases)
    case none
    then show ?thesis by (simp add: same_files_lookup)
  next
    case (put p' i' nd k m)
    then have "lookup s' q = (case lookup s q of None \<Rightarrow> None | Some (j, n) \<Rightarrow> Some (j, if j = i then m else n))"
      using h by (intro lookup_update) auto
    then show ?thesis using other by (auto split: option.splits)
  qed
qed

lemma map_of_filter_names: "y \<notin> X \<Longrightarrow> map_of (filter (\<lambda>(r, _). r \<notin> X) ns) y = map_of ns y"
  by (induction ns) auto

lemma lookup_Remove_other:
  assumes "resolve s q \<noteq> resolve s p"
  shows "lookup (snd (os_Remove p s)) q = lookup s q"
proof -
  let ?t = "snd (os_Remove p s)"
  have t: "cwd ?t = cwd s" "inodes ?t = inodes s"
    "names ?t = names s \<or> names ?t = filter (\<lambda>(r, _). r \<notin> {resolve s p}) (names s)"
    by (auto simp: os_Remove_def tick_def remove_name_def split: option.splits)
  show ?thesis
  proof (cases "q = []")
    case False
    have "map_of (names ?t) (resolve s q) = map_of (names s) (resolve s q)"
      using t(3) assms map_of_filter_names [of "resolve s q" "{resolve s p}"] by auto
    then show ?thesis by (intro lookup_inodes_eq t False)
  qed (simp add: lookup_def)
qed

text \<open>A rename puts the file under the new name, or does nothing.\<close>

lemma Rename_lookup:
  assumes "os_Rename p q s = (r, s')"
  shows "r \<noteq> None \<Longrightarrow> same_files s s'" and "r = None \<Longrightarrow> q \<noteq> [] \<Longrightarrow> lookup s' q = lookup s p"
proof -
  show "r \<noteq> None \<Longrightarrow> same_files s s'"
    using assms by (auto simp: os_Rename_def tick_def same_files_def split: option.splits if_splits)
next
  assume "r = None" "q \<noteq> []"
  then obtain i n where i: "lookup s p = Some (i, n)" "cwd s' = cwd s" "inodes s' = inodes s"
      "map_of (names s') (resolve s q) = Some i"
    using assms by (auto simp: os_Rename_def tick_def split: option.splits if_splits)
  then have "p \<noteq> []" "map_of (names s) (resolve s p) = Some i"
    by (auto simp: lookup_def split: if_splits option.splits)
  then show "lookup s' q = lookup s p" using i \<open>q \<noteq> []\<close> by (intro lookup_inodes_eq) simp_all
qed

end
