(* ===== verification/ServerFiles.thy ===== *)
theory ServerFiles
  imports ServerRun Files
begin

text \<open>
  What the server's handlers do to files: \<open>create\<close> makes a file and leaves one that exists as it is,
  \<open>write\<close> puts the bytes a payload stands for at their offset, \<open>read\<close> returns bytes of the file. The
  handlers keep names and open handles together (\<open>coherent\<close>), since the server never removes or
  renames a file.
\<close>

section \<open>The cache and the files\<close>

lemma fc_get_files:
  assumes "fc_inv (fc, s)" and "coherent s" and "fc_get p w (fc, s) = (r, fc', s')"
  shows "coherent s' \<and> same_files s s'"
proof -
  have wf: "os_wf s" by (rule fc_invD(2) [OF assms(1)])
  have fl: "\<not> o_create O_RDWR" "\<not> o_create O_RDONLY" by (simp_all add: O_RDWR_def O_RDONLY_def)
  have op: "coherent t' \<and> same_files t t'"
    if "os_OpenFile p (if b then O_RDWR else O_RDONLY) 420 t = (q, t')" "coherent t" "os_wf t" for b t q t'
    using coherent_OpenFile [OF that(2,3)] same_files_OpenFile that(1) fl by (metis o_flags(3,4) snd_conv)
  show ?thesis
  proof (cases "map_of (files fc) p")
    case None
    show ?thesis
      using assms(3) op [of w s] assms(2) wf by (auto simp: fc_get_def None split: prod.splits sum.splits)
  next
    case (Some e)
    have "same_files s (os_Close (e_file e) s)" by (rule same_files_Close)
    then show ?thesis
      using assms(2,3) op [of True "os_Close (e_file e) s"] coherent_Close [OF assms(2)] os_wf_Close [OF wf]
      by (auto simp: fc_get_def Some split: prod.splits sum.splits if_splits intro: same_files_trans)
  qed
qed

lemma fc_evict_files:
  "coherent s \<Longrightarrow> fc_evict p (fc, s) = (fc', s') \<Longrightarrow> coherent s' \<and> same_files s s'"
  by (auto simp: fc_evict_def coherent_Close same_files_Close split: option.splits)

section \<open>Write\<close>

text \<open>The two outcomes of a write of \<open>data\<close> to the file \<open>p\<close>: confirmed and in the file, or refused with
  at most a beginning of it written.\<close>

definition write_done :: "connid \<Rightarrow> WriteReq \<Rightarrow> bytes \<Rightarrow> string \<Rightarrow> copierServer \<Rightarrow> copierServer \<Rightarrow> bool" where
  "write_done conn req data p srv srv' \<longleftrightarrow>
     srv_out srv' = srv_out srv @ [(conn, MWriteRes \<lparr>wres_ID = wreq_ID req, wres_Success = True,
       wres_N = wrap32 (int (length data)), wres_Error = []\<rparr>, [])]
   \<and> 0 \<le> wreq_Offset req
   \<and> (\<exists>c. file_data (srv_os srv) p = Some c
         \<and> file_data (srv_os srv') p = Some (write_at c (nat (wreq_Offset req)) data))"

definition write_refused :: "connid \<Rightarrow> WriteReq \<Rightarrow> bytes \<Rightarrow> string \<Rightarrow> copierServer \<Rightarrow> copierServer \<Rightarrow> bool" where
  "write_refused conn req data p srv srv' \<longleftrightarrow>
     (\<exists>err k. srv_out srv' = srv_out srv @ [(conn, MWriteRes \<lparr>wres_ID = wreq_ID req, wres_Success = False,
         wres_N = 0, wres_Error = err\<rparr>, [])]
      \<and> file_data (srv_os srv') p =
          map_option (\<lambda>c. write_at c (nat (wreq_Offset req)) (take k data)) (file_data (srv_os srv) p))"

lemma write_refused_same:
  assumes "srv_out srv' = srv_out srv @ [(conn, MWriteRes \<lparr>wres_ID = wreq_ID req, wres_Success = False,
      wres_N = 0, wres_Error = err\<rparr>, [])]" and "file_data (srv_os srv') p = file_data (srv_os srv) p"
  shows "write_refused conn req data p srv srv'"
  using assms unfolding write_refused_def by (intro exI [of _ err] exI [of _ 0]) (simp add: option.map_ident)

lemma srv_write_effect:
  assumes inv: "srv_inv srv" "coherent (srv_os srv)" and data: "write_payload lib req payload (ca_encryptionKey ca) = Inr data"
    "data \<noteq> []" and path: "sandboxPath (Some ca) (wreq_Path req) = Inr p"
    and srv': "srv' = srv_write lib conn req payload ca srv"
  shows "coherent (srv_os srv') \<and> (write_done conn req data p srv srv' \<or> write_refused conn req data p srv srv')"
proof -
  let ?off = "wreq_Offset req"
  have fi: "fc_inv (srv_fdCache srv, srv_os srv)" by (rule srv_invD [OF inv(1)])
  obtain q fc s1 where g: "fc_get p True (get_cache srv) = (q, fc, s1)" by (cases "fc_get p True (get_cache srv)") auto
  then have s1: "coherent s1" "same_files (srv_os srv) s1"
    using fc_get_files [OF fi inv(2)] by (auto simp: get_cache_def)
  have d1: "file_data s1 p = file_data (srv_os srv) p" by (rule same_files_data [OF s1(2)])
  show ?thesis
  proof (cases q)
    case (Inl e)
    then show ?thesis
      using s1(1) d1 data(1) path g unfolding srv'
      by (auto simp: srv_write_def writeFailed_def intro!: write_refused_same)
  next
    case (Inr f)
    obtain i w where f: "fds s1 f = Some (p, i, w)"
      using fc_get_usable [OF fi] g Inr by (fastforce simp: get_cache_def)
    obtain n r s2 where w: "os_WriteAt f data ?off s1 = ((n, r), s2)" by (cases "os_WriteAt f data ?off s1") auto
    have s2: "coherent s2" using coherent_calls(7) [OF s1(1), of f data ?off] w by simp
    note wd = WriteAt_data [OF s1(1) f w data(2)]
    show ?thesis
    proof (cases r)
      case None
      then show ?thesis
        using wd(1) d1 s2 data(1) path g Inr w unfolding srv'
        by (auto simp: srv_write_def writeSuccess_def write_done_def)
    next
      case (Some e)
      obtain fc' s3 where ev: "fc_evict p (fc, s2) = (fc', s3)" by (cases "fc_evict p (fc, s2)")
      then have "coherent s3" "file_data s3 p = file_data s2 p"
        using fc_evict_files [OF s2] same_files_data by blast+
      then show ?thesis
        using wd(2) d1 data(1) path g Inr w Some ev unfolding srv'
        by (auto simp: srv_write_def writeFailed_def write_refused_def)
    qed
  qed
qed

section \<open>Read\<close>

text \<open>A read that is answered with success carries a coded form of bytes of the file from the offset
  on: of all those asked for, up to the end of the file, unless the system call failed half way.\<close>

definition read_done ::
  "codec_lib \<Rightarrow> (nat \<Rightarrow> goerror + bytes) \<Rightarrow> bytes option \<Rightarrow> connid \<Rightarrow> ReadReq \<Rightarrow> bytes \<Rightarrow> copierServer \<Rightarrow> copierServer \<Rightarrow> bool" where
  "read_done lib rnd key conn req data srv srv' \<longleftrightarrow>
     (\<exists>c algo payload enc. compressChunk lib data (rreq_Compression req) = Inr (c, algo)
        \<and> (if rreq_Encryption req = EncryptionSecretBox
           then encryptChunk lib rnd c key = Inr payload \<and> enc = EncryptionSecretBox
           else payload = c \<and> enc = EncryptionNone)
        \<and> srv_out srv' = srv_out srv @ [(conn, MReadRes \<lparr>rres_ID = rreq_ID req, rres_Success = True,
            rres_N = int (length payload), rres_Checksum = ChecksumIEEE payload, rres_Compression = algo,
            rres_Encryption = enc, rres_Error = []\<rparr>, payload)])"

lemma fc_get_faults: "faults (snd (snd (fc_get p w (fc, s)))) = faults s"
proof -
  have op: "os_OpenFile p fl perm t = (r, t') \<Longrightarrow> faults t' = faults t" for fl perm t r t'
    using faults_unchanged(3) [of p fl perm t] by simp
  show ?thesis by (auto simp: fc_get_def dest!: op split: option.splits prod.splits sum.splits)
qed

lemma srv_read_effect:
  assumes inv: "srv_inv srv" "coherent (srv_os srv)" and path: "sandboxPath (Some ca) (rreq_Path req) = Inr p"
    and size: "0 < rreq_Size req" "rreq_Size req \<le> maxAlloc"
    and srv': "srv' = srv_read lib rnd conn req ca srv"
  shows "coherent (srv_os srv') \<and> file_data (srv_os srv') p = file_data (srv_os srv) p \<and>
    ((\<exists>err. srv_out srv' = srv_out srv @ [(conn, MReadRes (zeroReadRes\<lparr>rres_ID := rreq_ID req, rres_Error := err\<rparr>), [])])
     \<or> (\<exists>c k. file_data (srv_os srv) p = Some c \<and> 0 \<le> rreq_Offset req \<and> k \<le> nat (rreq_Size req)
         \<and> (no_faults (srv_os srv) \<longrightarrow> k = nat (rreq_Size req))
         \<and> take k (drop (nat (rreq_Offset req)) c) \<noteq> []
         \<and> read_done lib rnd (ca_encryptionKey ca) conn req (take k (drop (nat (rreq_Offset req)) c)) srv srv'))"
proof -
  let ?off = "rreq_Offset req" and ?n = "nat (rreq_Size req)"
  have fi: "fc_inv (srv_fdCache srv, srv_os srv)" by (rule srv_invD [OF inv(1)])
  obtain q fc s1 where g: "fc_get p False (get_cache srv) = (q, fc, s1)" by (cases "fc_get p False (get_cache srv)") auto
  then have s1: "coherent s1" "same_files (srv_os srv) s1"
    using fc_get_files [OF fi inv(2)] by (auto simp: get_cache_def)
  show ?thesis
  proof (cases q)
    case (Inl e)
    then show ?thesis
      using s1(1) same_files_data [OF s1(2)] path g unfolding srv'
      by (auto simp: srv_read_def readFailed_def)
  next
    case (Inr f)
    obtain i w where f: "fds s1 f = Some (p, i, w)"
      using fc_get_usable [OF fi] g Inr by (fastforce simp: get_cache_def)
    obtain q2 s2 where st: "fd_Stat f s1 = (q2, s2)" by (cases "fd_Stat f s1")
    obtain d r s3 where rd: "os_ReadAt f ?n ?off s2 = ((d, r), s3)" by (cases "os_ReadAt f ?n ?off s2") auto
    have s2: "coherent s2" "same_files (srv_os srv) s2" "fds s2 = fds s1" "faults s2 = faults (srv_os srv)"
      using coherent_calls(3) [OF s1(1), of f] s1(2) st fds_unchanged(7) [of f s1] faults_unchanged(6) [of f s1]
        fc_get_faults [of p False "srv_fdCache srv" "srv_os srv"] g
      by (auto simp: same_files_def fd_Stat_def tick_def get_cache_def split: option.splits)
    have s3: "coherent s3" "same_files (srv_os srv) s3"
      using coherent_calls(5) [OF s2(1), of f ?n ?off] same_files_ReadAt [of s2 f ?n ?off] s2(2) rd same_files_trans by auto
    have n: "\<not> rreq_Size req < 0" "\<not> maxAlloc < rreq_Size req" using size by simp_all
    have err: "\<exists>e. r = Some e" if "d = []"
      using rd that size(1) by (auto simp: os_ReadAt_def Let_def tick_def split: option.splits if_splits)
    have got: "\<exists>c k. file_data (srv_os srv) p = Some c \<and> 0 \<le> ?off \<and> k \<le> ?n
        \<and> (no_faults (srv_os srv) \<longrightarrow> k = ?n) \<and> d = take k (drop (nat ?off) c)" if "d \<noteq> []"
      using ReadAt_data [OF s2(1) _ rd that] f s2(3,4) same_files_data [OF s2(2)]
      by (fastforce simp: no_faults_def)
    let ?srv = "put_cache (fc, s3) srv"
    show ?thesis
    proof (cases q2)
      case (Inl e)
      then show ?thesis
        using s2(1) same_files_data [OF s2(2)] path g Inr st unfolding srv'
        by (auto simp: srv_read_def readFailed_def)
    next
      case st2: (Inr info)
      have eq: "srv' = (case (if d = [] then r else None) of
             Some e \<Rightarrow> readFailed conn req e ?srv
           | None \<Rightarrow> (case compressChunk lib d (rreq_Compression req) of
               Inl e \<Rightarrow> readFailed conn req e ?srv
             | Inr (c, algo) \<Rightarrow>
                 if rreq_Encryption req = EncryptionSecretBox then
                   (case encryptChunk lib rnd c (ca_encryptionKey ca) of
                      Inl e \<Rightarrow> readFailed conn req (Errorf (''encrypt: '' @ err_text e)) ?srv
                    | Inr enc \<Rightarrow> readSuccess conn req enc algo EncryptionSecretBox ?srv)
                 else readSuccess conn req c algo EncryptionNone ?srv))"
        unfolding srv' by (simp add: srv_read_def path g Inr st st2 rd n Let_def)
      have keep: "coherent (srv_os srv') \<and> file_data (srv_os srv') p = file_data (srv_os srv) p"
        unfolding eq using s3 same_files_data [OF s3(2)]
        by (auto simp: readFailed_def readSuccess_def split: option.splits sum.splits)
      have "(\<exists>err. srv_out srv' = srv_out srv @ [(conn, MReadRes (zeroReadRes\<lparr>rres_ID := rreq_ID req, rres_Error := err\<rparr>), [])])
          \<or> (d \<noteq> [] \<and> read_done lib rnd (ca_encryptionKey ca) conn req d srv srv')"
        unfolding eq using err
        by (auto simp: readFailed_def readSuccess_def read_done_def split: option.splits sum.splits)
      then show ?thesis using keep got by blast
    qed
  qed
qed

section \<open>Create\<close>

text \<open>After a successful \<open>create\<close> of a file the path names a file, which is the one that was there,
  unchanged, or has the size asked for.\<close>

lemma create_file_effect:
  assumes wf: "os_wf s" and co: "coherent s" and nodir: "\<not> creq_IsDir req" and ok: "create_file req p s = (r, s')"
  shows "coherent s'"
    and "r = None \<Longrightarrow> \<exists>c. file_data s' p = Some c \<and> (file_data s p = Some c \<or> length c = nat (creq_Size req))"
proof -
  obtain e1 s1 where m: "os_MkdirAll (Dir p) 493 s = (e1, s1)" by (cases "os_MkdirAll (Dir p) 493 s")
  have s1: "coherent s1" "os_wf s1" "file_data s1 p = file_data s p"
    using coherent_calls(9) [OF co wf] os_wf_MkdirAll [OF wf] file_data_MkdirAll [OF wf] m by (metis snd_conv)+
  obtain e2 s2 where st: "os_Stat p s1 = (e2, s2)" by (cases "os_Stat p s1")
  have sf: "same_files s1 s2"
    using st by (auto simp: os_Stat_def same_files_def tick_def split: option.splits)
  have s2: "coherent s2" "os_wf s2" "file_data s2 p = file_data s p"
    using coherent_calls(1) [OF s1(1)] os_wf_Stat [OF s1(2)] same_files_data [OF sf] st s1(3) by (metis snd_conv)+
  obtain e3 s3 where op: "os_OpenFile p O_RDWR_CREATE (creq_Mode req) s2 = (e3, s3)"
    by (cases "os_OpenFile p O_RDWR_CREATE (creq_Mode req) s2")
  have s3: "coherent s3" using coherent_OpenFile [OF s2(1,2)] op by (metis snd_conv)
  have "coherent s' \<and> (r = None \<longrightarrow>
      (\<exists>c. file_data s' p = Some c \<and> (file_data s p = Some c \<or> length c = nat (creq_Size req))))"
  proof (cases "e1 = None \<and> (\<exists>err. e2 = Inl err \<and> is_not_exist err)")
    case False
    have "\<exists>c. file_data s2 p = Some c" if "e2 = Inr info" "\<not> fi_IsDir info" for info
      using st that same_files_data [OF sf]
      by (auto simp: os_Stat_def tick_def file_data_def info_of_def split: option.splits)
    then show ?thesis
      using False ok m st nodir s1(1) s2 unfolding create_file_def by (auto split: option.splits sum.splits if_splits)
  next
    case True
    show ?thesis
    proof (cases e3)
      case (Inl err)
      then show ?thesis using True ok m st op nodir s3 by (auto simp: create_file_def)
    next
      case (Inr f)
      obtain i n where f: "fds s3 f = Some (p, i, True)" "lookup s3 p = Some (i, n)" "\<not> i_dir n"
          "\<And>c. lookup s2 p = Some (i, c) \<Longrightarrow> n = c" "lookup s2 p = None \<Longrightarrow> i_data n = []"
        using OpenFile_lookup [OF op [unfolded Inr]] by (auto simp: O_RDWR_CREATE_def)
      have d3: "file_data s3 p = Some (i_data n)" using f by (simp add: file_data_def)
      have old: "file_data s2 p = Some (i_data n) \<or> i_data n = []"
      proof (cases "lookup s2 p")
        case None
        then show ?thesis using f(5) by simp
      next
        case (Some x)
        then obtain j c where x: "lookup s2 p = Some (j, c)" by (cases x) auto
        then have "j = i"
          using grows_OpenFile [OF s2(2), of p O_RDWR_CREATE "creq_Mode req"] op f(2) unfolding grows_def by fastforce
        then show ?thesis using x f(3,4) by (auto simp: file_data_def)
      qed
      obtain e4 s4 where t: "os_Truncate f (creq_Size req) s3 = (e4, s4)" by (cases "os_Truncate f (creq_Size req) s3")
      have s4: "coherent s4" using coherent_calls(8) [OF s3, of f "creq_Size req"] t by simp
      have cl: "coherent (os_Close f u) \<and> file_data (os_Close f u) p = file_data u p" if "coherent u" for u
        using coherent_Close [OF that] same_files_data [OF same_files_Close] by simp
      show ?thesis
      proof (cases "creq_Size req > 0")
        case size: True
        then have s': "s' = os_Close f s4" "r = e4"
          using True ok m st op nodir t Inr by (auto simp: create_file_def split: option.splits)
        then show ?thesis
          using cl [OF s4] Truncate_data [OF s3 f(1) _ d3] t by auto
      next
        case size: False
        then have s': "s' = os_Close f s3"
          using True ok m st op nodir Inr by (auto simp: create_file_def)
        then show ?thesis using cl [OF s3] d3 old size s2(3) by auto
      qed
    qed
  qed
  then show "coherent s'"
    and "r = None \<Longrightarrow> \<exists>c. file_data s' p = Some c \<and> (file_data s p = Some c \<or> length c = nat (creq_Size req))"
    by blast+
qed

end
