(* ===== verification/ClientNet.thy ===== *)
theory ClientNet
  imports Message "HOL-Library.Multiset"
begin

text \<open>
  The network side of the client (\<open>client.go\<close>): the receive loop \<open>handleReceive\<close> that reassembles
  frames from a TCP connection, the synchronous \<open>readResp\<close> used while authenticating, \<open>handleSend\<close>,
  the numbering of requests (\<open>genMsgID\<close>) and the router \<open>processMsg\<close> between callers and connections.

  A connection delivers a list of bytes and then an error (end of stream, reset, deadline). How
  many of them one \<open>conn.Read\<close> returns is chosen by an oracle, within what \<open>net.Conn\<close> guarantees:
  at least one byte, at most the buffer and at most what is there.
\<close>

section \<open>The receive loop\<close>

record recv_state =
  bufHead :: bytes
  readSize :: nat
  bufMsg :: bytes
  rpayload :: bytes
  magicNumChecked :: bool

definition recv_init :: recv_state where
  "recv_init = \<lparr>bufHead = replicate HeadSize 0, readSize = 0, bufMsg = [], rpayload = [], magicNumChecked = False\<rparr>"

text \<open>\<open>conn.Read(buf)\<close> with \<open>n\<close> proposed by the oracle: the bytes read and the bytes left, or an error
  when the stream is over.\<close>

definition conn_Read :: "nat \<Rightarrow> nat \<Rightarrow> bytes \<Rightarrow> (bytes \<times> bytes) option" where
  "conn_Read n len inp =
     (if inp = [] then None
      else let k = max 1 (min n (min len (length inp))) in Some (take k inp, drop k inp))"

text \<open>Store bytes in a buffer from an index on.\<close>

definition put_bytes :: "bytes \<Rightarrow> nat \<Rightarrow> bytes \<Rightarrow> bytes" where
  "put_bytes buf i d = take i buf @ d @ drop (i + length d) buf"

datatype recv_result = RecvGo recv_state bytes | RecvMsg MSG bytes recv_state bytes | RecvReturn

text \<open>One turn of the loop.\<close>

definition recv_step :: "cbor_lib \<Rightarrow> nat \<Rightarrow> recv_state \<Rightarrow> bytes \<Rightarrow> recv_result" where
  "recv_step cb n st inp =
     (if readSize st < HeadSize then
        (case conn_Read n (HeadSize - readSize st) inp of
           None \<Rightarrow> RecvReturn
         | Some (d, inp') \<Rightarrow>
             (let st1 = st\<lparr>bufHead := put_bytes (bufHead st) (readSize st) d, readSize := readSize st + length d\<rparr>
              in if readSize st1 > 1 \<and> \<not> magicNumChecked st1 then
                   if \<not> MagicNumberCheck (bufHead st1 ! 0) (bufHead st1 ! 1) then RecvReturn
                   else RecvGo (st1\<lparr>magicNumChecked := True\<rparr>) inp'
                 else RecvGo st1 inp'))
      else if bufMsg st = [] then
        (let msgSize = Uint32 (take MessageSize (drop 3 (bufHead st)));
             payloadSize = Uint32 (drop (3 + MessageSize) (bufHead st))
         in if msgSize > MaxMsgSize \<or> payloadSize > MaxPayloadSize then RecvReturn
            else RecvGo (st\<lparr>bufMsg := replicate (unat msgSize) 0, rpayload := replicate (unat payloadSize) 0\<rparr>) inp)
      else if readSize st < HeadSize + length (bufMsg st) then
        (let i = readSize st - HeadSize
         in case conn_Read n (length (bufMsg st) - i) inp of
              None \<Rightarrow> RecvReturn
            | Some (d, inp') \<Rightarrow>
                RecvGo (st\<lparr>bufMsg := put_bytes (bufMsg st) i d, readSize := readSize st + length d\<rparr>) inp')
      else if readSize st < HeadSize + length (bufMsg st) + length (rpayload st) then
        (let i = readSize st - HeadSize - length (bufMsg st)
         in case conn_Read n (length (rpayload st) - i) inp of
              None \<Rightarrow> RecvReturn
            | Some (d, inp') \<Rightarrow>
                RecvGo (st\<lparr>rpayload := put_bytes (rpayload st) i d, readSize := readSize st + length d\<rparr>) inp')
      else
        (case DecodePre (bufHead st) of
           Inl err \<Rightarrow> RecvReturn
         | Inr (msg, _, _) \<Rightarrow>
             (case Decode cb msg (bufMsg st) of
                Inl err \<Rightarrow> RecvReturn
              | Inr msg' \<Rightarrow>
                  RecvMsg msg' (rpayload st) (st\<lparr>readSize := 0, bufMsg := [], rpayload := []\<rparr>) inp)))"

text \<open>The loop with the oracle \<open>frag\<close>: the messages passed to \<open>receiveHandle\<close> until it returns.\<close>

partial_function (option) handleReceive ::
  "cbor_lib \<Rightarrow> (nat \<Rightarrow> nat) \<Rightarrow> nat \<Rightarrow> recv_state \<Rightarrow> bytes \<Rightarrow> (MSG \<times> bytes) list option" where
  "handleReceive cb frag t st inp =
     (case recv_step cb (frag t) st inp of
        RecvReturn \<Rightarrow> Some []
      | RecvGo st' inp' \<Rightarrow> handleReceive cb frag (Suc t) st' inp'
      | RecvMsg m p st' inp' \<Rightarrow>
          Option.bind (handleReceive cb frag (Suc t) st' inp') (\<lambda>ms. Some ((m, p) # ms)))"

section \<open>Reassembly is correct\<close>

text \<open>The state after \<open>k\<close> bytes of a frame: what has been read is in its place.\<close>

definition reassembling :: "cbor_lib \<Rightarrow> MSG \<Rightarrow> bytes \<Rightarrow> nat \<Rightarrow> recv_state \<Rightarrow> bool" where
  "reassembling cb m p k st \<longleftrightarrow>
     readSize st = k \<and> k \<le> length (frame cb m p) \<and> length (bufHead st) = HeadSize
   \<and> take (min k HeadSize) (bufHead st) = take (min k HeadSize) (frame cb m p)
   \<and> (bufMsg st = [] \<longrightarrow> k \<le> HeadSize)
   \<and> (bufMsg st \<noteq> [] \<longrightarrow> HeadSize \<le> k \<and> length (bufMsg st) = length (Encode cb m)
        \<and> length (rpayload st) = length p
        \<and> take (k - HeadSize) (bufMsg st @ rpayload st) = take (k - HeadSize) (Encode cb m @ p))"

lemma put_bytes_length [simp]: "i + length d \<le> length b \<Longrightarrow> length (put_bytes b i d) = length b"
  by (simp add: put_bytes_def)

lemma take_put_bytes [simp]: "i + length d \<le> length b \<Longrightarrow> take (i + length d) (put_bytes b i d) = take i b @ d"
  by (simp add: put_bytes_def)

lemma put_bytes_agree:
  assumes "i + length d \<le> length b" and "take i b = take i x" and "d = take (length d) (drop i x)"
  shows "take (i + length d) (put_bytes b i d) = take (i + length d) x"
  using assms by (metis take_add take_put_bytes)

lemma conn_Read_Some:
  assumes "inp \<noteq> []" and "0 < len"
  obtains d where "conn_Read n len inp = Some (d, drop (length d) inp)" "d = take (length d) inp"
    "0 < length d" "length d \<le> len" "length d \<le> length inp"
proof -
  let ?k = "max 1 (min n (min len (length inp)))"
  have k: "0 < ?k" "?k \<le> len" "?k \<le> length inp" using assms by (auto simp: Suc_le_eq)
  then have len: "length (take ?k inp) = ?k" by simp
  have "conn_Read n len inp = Some (take ?k inp, drop ?k inp)" using assms(1) by (simp add: conn_Read_def Let_def)
  then show ?thesis
    using k by (intro that [of "take ?k inp"]) (simp_all only: len)
qed

lemma frame_split:
  "take HeadSize (frame cb m p) = fst (EncodeMsg cb m (length p))"
  "drop HeadSize (frame cb m p) = Encode cb m @ p"
  by (simp_all add: frame_eq)

text \<open>The bytes at hand are those of the rest of the frame, as far as either goes.\<close>

definition agree :: "bytes \<Rightarrow> bytes \<Rightarrow> bool" where
  "agree a b \<longleftrightarrow> take (length b) a = take (length a) b"

lemma agree_drop: "agree a b \<Longrightarrow> agree (drop n a) (drop n b)"
  unfolding agree_def by (metis drop_take length_drop)

lemma agree_take: "agree a b \<Longrightarrow> n \<le> length a \<Longrightarrow> n \<le> length b \<Longrightarrow> take n a = take n b"
  unfolding agree_def by (metis min.absorb1 take_take)

lemma reassembling_head:
  assumes "reassembling cb m p k st" and "HeadSize \<le> k"
  shows "bufHead st = fst (EncodeMsg cb m (length p))"
proof -
  have "take HeadSize (bufHead st) = take HeadSize (frame cb m p)" "length (bufHead st) = HeadSize"
    using assms unfolding reassembling_def by (simp_all only: min.absorb2)
  then show ?thesis unfolding frame_split(1) by (simp only: take_all order_refl)
qed

lemma head_fields:
  "take MessageSize (drop 3 (fst (EncodeMsg cb m n))) = PutUint32 (of_nat (length (Encode cb m)))"
  "drop (3 + MessageSize) (fst (EncodeMsg cb m n)) = PutUint32 (of_nat n)"
  by (simp_all add: EncodeMsg_def Let_def MessageSize_def)

text \<open>Reading header bytes.\<close>

lemma recv_step_header:
  assumes st: "reassembling cb m p k st" and k: "k < HeadSize" and a: "agree inp (drop k (frame cb m p))"
    and inp: "inp \<noteq> []"
  shows "\<exists>st' d. recv_step cb n st inp = RecvGo st' (drop d inp) \<and> 0 < d \<and> d \<le> length inp
    \<and> reassembling cb m p (k + d) st'"
proof -
  obtain d where d: "conn_Read n (HeadSize - k) inp = Some (d, drop (length d) inp)" "d = take (length d) inp"
    "0 < length d" "length d \<le> HeadSize - k" "length d \<le> length inp"
    using conn_Read_Some [OF inp, of "HeadSize - k" n] k by force
  have rs: "readSize st = k" "length (bufHead st) = HeadSize" "bufMsg st = []"
    and tk: "take k (bufHead st) = take k (frame cb m p)"
    using st k by (auto simp: reassembling_def)
  let ?b = "put_bytes (bufHead st) k d"
  have le: "k + length d \<le> HeadSize" using d(4) k by simp
  have "d = take (length d) (drop k (frame cb m p))"
    using d(2) agree_take [OF a d(5)] le by simp
  then have b: "take (k + length d) ?b = take (k + length d) (frame cb m p)"
    using le rs(2) tk by (intro put_bytes_agree) simp_all
  have magic: "MagicNumberCheck (?b ! 0) (?b ! 1)" if "1 < k + length d"
  proof -
    have "?b ! j = frame cb m p ! j" if "j < k + length d" for j
      using b that by (metis nth_take)
    moreover have "0 < k + length d" using that by linarith
    ultimately have "?b ! 0 = frame cb m p ! 0" "?b ! 1 = frame cb m p ! 1" using that by blast+
    then show ?thesis using head_frame(1) by simp
  qed
  have r: "reassembling cb m p (k + length d) (st\<lparr>bufHead := ?b, readSize := k + length d\<rparr>)"
    "reassembling cb m p (k + length d) (st\<lparr>bufHead := ?b, readSize := k + length d, magicNumChecked := True\<rparr>)"
    using b le rs(2,3) by (simp_all add: reassembling_def min_def)
  show ?thesis
    using k d r magic rs(1) by (auto simp: recv_step_def Let_def intro!: exI [of _ "length d"])
qed

text \<open>Reading the message and the payload.\<close>

lemma recv_step_body:
  assumes st: "reassembling cb m p k st" and k: "k < length (frame cb m p)" and b: "bufMsg st \<noteq> []"
    and a: "agree inp (drop k (frame cb m p))" and inp: "inp \<noteq> []"
  shows "\<exists>st' d. recv_step cb n st inp = RecvGo st' (drop d inp) \<and> 0 < d \<and> d \<le> length inp
    \<and> reassembling cb m p (k + d) st' \<and> bufMsg st' \<noteq> []"
proof -
  let ?e = "Encode cb m" let ?i = "k - HeadSize"
  have rs: "readSize st = k" "length (bufHead st) = HeadSize" "HeadSize \<le> k"
    "length (bufMsg st) = length ?e" "length (rpayload st) = length p"
    and tk: "take ?i (bufMsg st @ rpayload st) = take ?i (?e @ p)"
    and hd: "take HeadSize (bufHead st) = take HeadSize (frame cb m p)"
    using st b by (auto simp: reassembling_def min_def)
  have f: "drop k (frame cb m p) = drop ?i (?e @ p)"
    using rs(3) by (metis drop_drop frame_split(2) le_add_diff_inverse2)
  show ?thesis
  proof (cases "?i < length ?e")
    case True
    obtain d where d: "conn_Read n (length ?e - ?i) inp = Some (d, drop (length d) inp)" "d = take (length d) inp"
      "0 < length d" "length d \<le> length ?e - ?i" "length d \<le> length inp"
      using conn_Read_Some [OF inp, of "length ?e - ?i" n] True by force
    let ?b = "put_bytes (bufMsg st) ?i d"
    have "take (length d) inp = take (length d) (drop k (frame cb m p))"
      using agree_take [OF a d(5)] d(4) f True by simp
    then have "d = take (length d) (drop ?i ?e)" using d(2,4) f True by simp
    then have t: "take (?i + length d) ?b = take (?i + length d) ?e"
      using d(4) True rs(4) tk by (intro put_bytes_agree) simp_all
    have l: "length ?b = length ?e" using d(4) True rs(4) by simp
    then have nb: "?b \<noteq> []" using True by auto
    have "k + length d \<le> length (frame cb m p)"
      unfolding length_frame using d(4) True rs(3) by linarith
    then have "reassembling cb m p (k + length d) (st\<lparr>bufMsg := ?b, readSize := k + length d\<rparr>)"
      using t l nb rs hd d(4) True by (simp add: reassembling_def min_def)
    moreover have "recv_step cb n st inp = RecvGo (st\<lparr>bufMsg := ?b, readSize := k + length d\<rparr>) (drop (length d) inp)"
    proof -
      have "k < HeadSize + length (bufMsg st)" "\<not> k < HeadSize" using True rs(3,4) by linarith+
      then show ?thesis using rs(1,4) b d(1) by (simp only: recv_step_def Let_def if_True if_False option.case prod.case)
    qed
    ultimately show ?thesis using d(3,5) nb by (intro exI [of _ "length d"] exI) auto
  next
    case False
    let ?j = "?i - length ?e"
    have lt: "?j < length p" using k False rs(3) by simp
    obtain d where d: "conn_Read n (length p - ?j) inp = Some (d, drop (length d) inp)" "d = take (length d) inp"
      "0 < length d" "length d \<le> length p - ?j" "length d \<le> length inp"
      using conn_Read_Some [OF inp, of "length p - ?j" n] lt by force
    let ?b = "put_bytes (rpayload st) ?j d"
    have "take (length d) inp = take (length d) (drop k (frame cb m p))"
      using agree_take [OF a d(5)] d(4) f False lt by simp
    then have "d = take (length d) (drop ?j p)" using d(2) f False by simp
    moreover have "bufMsg st = ?e" "take ?j (rpayload st) = take ?j p"
      using tk False rs(4) by simp_all
    moreover from calculation have "take (?j + length d) ?b = take (?j + length d) p"
      using d(4) lt rs(5) by (intro put_bytes_agree) simp_all
    moreover have "?i + length d - length ?e = ?j + length d" "length ?e \<le> ?i + length d" using False by linarith+
    ultimately have t: "take (?i + length d) (bufMsg st @ ?b) = take (?i + length d) (?e @ p)"
      by (simp only: take_append take_all)
    have l: "length ?b = length p" using d(4) lt rs(5) by simp
    have "k + length d \<le> length (frame cb m p)"
      unfolding length_frame using d(4) lt rs(3) False by linarith
    then have "reassembling cb m p (k + length d) (st\<lparr>rpayload := ?b, readSize := k + length d\<rparr>)"
      using t l b rs hd d(4) lt False by (simp add: reassembling_def min_def)
    moreover have "recv_step cb n st inp = RecvGo (st\<lparr>rpayload := ?b, readSize := k + length d\<rparr>) (drop (length d) inp)"
    proof -
      have "\<not> k < HeadSize" "\<not> k < HeadSize + length (bufMsg st)"
        "k < HeadSize + length (bufMsg st) + length (rpayload st)"
        using False lt rs(3-5) by linarith+
      then show ?thesis
        using rs(1,4,5) b d(1) by (simp only: recv_step_def Let_def if_True if_False option.case prod.case)
    qed
    ultimately show ?thesis using d(3,5) b by (intro exI [of _ "length d"] exI) auto
  qed
qed

text \<open>Allocating the buffers, and delivering the message.\<close>

lemma recv_step_alloc:
  assumes st: "reassembling cb m p HeadSize st" and b: "bufMsg st = []" and fit: "fits cb m p"
    and ne: "Encode cb m \<noteq> []"
  shows "\<exists>st'. recv_step cb n st inp = RecvGo st' inp \<and> reassembling cb m p HeadSize st' \<and> bufMsg st' \<noteq> []"
proof -
  have h: "bufHead st = fst (EncodeMsg cb m (length p))" using reassembling_head [OF st] by simp
  have un: "unat (of_nat (length (Encode cb m)) :: uint32) = length (Encode cb m)"
      "unat (of_nat (length p) :: uint32) = length p"
    using fit by (auto simp: fits_def intro!: unat_of_nat_uint32)
  have sizes: "\<not> (of_nat (length (Encode cb m)) :: uint32) > MaxMsgSize" "\<not> (of_nat (length p) :: uint32) > MaxPayloadSize"
    using fit un by (simp_all add: fits_def word_less_nat_alt)
  let ?st = "st\<lparr>bufMsg := replicate (length (Encode cb m)) 0, rpayload := replicate (length p) 0\<rparr>"
  have rs: "readSize st = HeadSize" "length (bufHead st) = HeadSize" using st unfolding reassembling_def by blast+
  have "recv_step cb n st inp = RecvGo ?st inp"
    using rs b sizes unfolding recv_step_def h head_fields by (simp add: Let_def un)
  moreover have "reassembling cb m p HeadSize ?st"
    using st ne unfolding reassembling_def by simp
  ultimately show ?thesis using ne by (intro exI [of _ ?st]) simp
qed

lemma recv_step_deliver:
  assumes st: "reassembling cb m p (length (frame cb m p)) st" and b: "bufMsg st \<noteq> []"
    and fit: "fits cb m p" "cbor_roundtrip cb m"
  shows "recv_step cb n st inp = RecvMsg m p (st\<lparr>readSize := 0, bufMsg := [], rpayload := []\<rparr>) inp"
proof -
  have h: "bufHead st = fst (EncodeMsg cb m (length p))" using reassembling_head [OF st] by simp
  obtain z where z: "newMSG (Type m) = Some z" using newMSG_Type_Some by blast
  have "DecodePre (bufHead st) = Inr (z, of_nat (length (Encode cb m)), of_nat (length p))"
    unfolding h using z fit(1) by (intro DecodePre_EncodeMsg) (auto simp: fits_def)
  moreover have "bufMsg st = Encode cb m" "rpayload st = p" "readSize st = length (frame cb m p)"
    using st b by (auto simp: reassembling_def)
  moreover have "Decode cb z (Encode cb m) = Inr m" using fit(2) z by (simp add: cbor_roundtrip_def)
  ultimately show ?thesis using b by (simp add: recv_step_def)
qed

definition recv_idle :: "recv_state \<Rightarrow> bool" where
  "recv_idle st \<longleftrightarrow> readSize st = 0 \<and> bufMsg st = [] \<and> length (bufHead st) = HeadSize"

lemma recv_idle_start: "recv_idle st \<Longrightarrow> reassembling cb m p 0 st"
  by (simp add: recv_idle_def reassembling_def)

lemma recv_step_nothing:
  assumes "reassembling cb m p k st" and "k < length (frame cb m p)" and "bufMsg st \<noteq> [] \<or> k < HeadSize"
  shows "recv_step cb n st [] = RecvReturn"
  using assms by (auto simp: recv_step_def reassembling_def conn_Read_def Let_def)

text \<open>From any point of a frame: if the rest of it arrives, the message is delivered and the loop
  goes on with what follows, otherwise it returns.\<close>

lemma handleReceive_frame:
  assumes "fits cb m p" "cbor_roundtrip cb m" "Encode cb m \<noteq> []"
    and "reassembling cb m p k st" and "agree inp (drop k (frame cb m p))"
  shows "if length inp < length (frame cb m p) - k then handleReceive cb frag t st inp = Some []
    else \<exists>t' st'. recv_idle st' \<and> handleReceive cb frag t st inp =
       Option.bind (handleReceive cb frag t' st' (drop (length (frame cb m p) - k) inp)) (\<lambda>ms. Some ((m, p) # ms))"
  using assms(4,5)
proof (induction "2 * length inp + (if bufMsg st = [] then 1 else 0)" arbitrary: inp k st t rule: less_induct)
  case less
  let ?L = "length (frame cb m p)"
  have go: ?case
    if s: "recv_step cb (frag t) st inp = RecvGo st' (drop d inp)" "d \<le> length inp" "reassembling cb m p (k + d) st'"
      and dec: "0 < d \<or> d = 0 \<and> bufMsg st = [] \<and> bufMsg st' \<noteq> []" for st' d
  proof -
    have a: "agree (drop d inp) (drop (k + d) (frame cb m p))"
      using agree_drop [OF less.prems(2), of d] by (simp add: add.commute)
    have le: "k + d \<le> ?L" using s(3) by (simp add: reassembling_def)
    have eq: "handleReceive cb frag t st inp = handleReceive cb frag (Suc t) st' (drop d inp)"
      by (subst handleReceive.simps) (simp add: s(1))
    have "2 * length (drop d inp) + (if bufMsg st' = [] then 1 else 0) < 2 * length inp + (if bufMsg st = [] then 1 else 0)"
      using dec s(2) by auto
    note ih = less.hyps [OF this s(3) a, of "Suc t"]
    have "drop (?L - (k + d)) (drop d inp) = drop (?L - k) inp" using le by simp
    moreover have "length (drop d inp) < ?L - (k + d) \<longleftrightarrow> length inp < ?L - k" using s(2) le by simp linarith
    ultimately show ?thesis unfolding eq using ih by (simp only:)
  qed
  have k: "k \<le> ?L" "bufMsg st = [] \<Longrightarrow> k \<le> HeadSize" using less.prems(1) by (auto simp: reassembling_def)
  consider (empty) "inp = []" "k < ?L" "bufMsg st \<noteq> [] \<or> k < HeadSize" | (header) "inp \<noteq> []" "k < HeadSize"
    | (alloc) "bufMsg st = []" "k = HeadSize" | (body) "inp \<noteq> []" "bufMsg st \<noteq> []" "k < ?L"
    | (full) "bufMsg st \<noteq> []" "k = ?L"
    using k assms(3) by fastforce
  then show ?case
  proof cases
    case empty
    then show ?thesis
      using recv_step_nothing [OF less.prems(1)] by (subst handleReceive.simps) simp
  next
    case header
    then show ?thesis using recv_step_header [OF less.prems(1) _ less.prems(2), of "frag t"] go by blast
  next
    case alloc
    then obtain st' where "recv_step cb (frag t) st inp = RecvGo st' inp" "reassembling cb m p k st'" "bufMsg st' \<noteq> []"
      using recv_step_alloc [of cb m p st "frag t" inp] assms less.prems(1) by blast
    then show ?thesis using go [of st' 0] alloc by simp
  next
    case body
    then show ?thesis using recv_step_body [OF less.prems(1) _ _ less.prems(2), of "frag t"] go by blast
  next
    case full
    then have "length (bufHead st) = HeadSize" using less.prems(1) by (simp add: reassembling_def)
    then have "recv_idle (st\<lparr>readSize := 0, bufMsg := [], rpayload := []\<rparr>)" by (simp add: recv_idle_def)
    then show ?thesis
      using recv_step_deliver [of cb m p st "frag t" inp] less.prems(1) full assms
      by (subst handleReceive.simps) auto
  qed
qed

lemma handleReceive_frames:
  assumes "\<forall>(m, p) \<in> set ms. fits cb m p \<and> cbor_roundtrip cb m \<and> Encode cb m \<noteq> []"
    and "fits cb m' p'" "cbor_roundtrip cb m'" "Encode cb m' \<noteq> []" "k < length (frame cb m' p')" "recv_idle st"
  shows "handleReceive cb frag t st (concat (map (\<lambda>(m, p). frame cb m p) ms) @ take k (frame cb m' p')) = Some ms"
  using assms(1,6)
proof (induction ms arbitrary: st t)
  case Nil
  then show ?case
    using handleReceive_frame [OF assms(2-4) recv_idle_start [OF Nil(2)], of "take k (frame cb m' p')" frag t] assms(5)
    by (simp add: agree_def)
next
  case (Cons mp ms)
  obtain m p where mp: "mp = (m, p)" by (cases mp)
  let ?r = "concat (map (\<lambda>(m, p). frame cb m p) ms) @ take k (frame cb m' p')"
  have m: "fits cb m p" "cbor_roundtrip cb m" "Encode cb m \<noteq> []" using Cons.prems(1) mp by auto
  have "agree (frame cb m p @ ?r) (drop 0 (frame cb m p))" by (simp add: agree_def)
  from handleReceive_frame [OF m recv_idle_start [OF Cons.prems(2)] this, of frag t]
  obtain t' st' where "recv_idle st'" "handleReceive cb frag t st (frame cb m p @ ?r) =
       Option.bind (handleReceive cb frag t' st' ?r) (\<lambda>ms. Some ((m, p) # ms))"
    by auto
  then show ?case using Cons.IH Cons.prems(1) mp by simp
qed

text \<open>A header that announces an empty message makes no turn of the loop advance.\<close>

lemma recv_step_empty:
  assumes "HeadSize \<le> readSize st" and "bufMsg st = []"
    and "Uint32 (take MessageSize (drop 3 (bufHead st))) = 0" and "Uint32 (drop (3 + MessageSize) (bufHead st)) = 0"
    and "rpayload st = []"
  shows "recv_step cb n st inp = RecvGo st inp"
  using assms by (simp add: recv_step_def)

section \<open>Synchronous replies\<close>

text \<open>\<open>io.ReadFull\<close> and \<open>io.CopyN\<close> from a stream of bytes that ends.\<close>

definition ReadFull :: "nat \<Rightarrow> bytes \<Rightarrow> (goerror + bytes) \<times> bytes" where
  "ReadFull n inp =
     (if n \<le> length inp then (Inr (take n inp), drop n inp)
      else (Inl (if inp = [] then ErrEOF else ErrUnexpectedEOF), []))"

definition CopyN :: "nat \<Rightarrow> bytes \<Rightarrow> goerror option \<times> bytes" where
  "CopyN n inp = (if n \<le> length inp then (None, drop n inp) else (Some ErrEOF, []))"

definition readResp :: "cbor_lib \<Rightarrow> bytes \<Rightarrow> (goerror + MSG) \<times> bytes" where
  "readResp cb inp =
     (case ReadFull HeadSize inp of
        (Inl err, r) \<Rightarrow> (Inl err, r)
      | (Inr head, r) \<Rightarrow>
          if \<not> MagicNumberCheck (head ! 0) (head ! 1) then (Inl ErrBadProtocol, r)
          else (case DecodePre head of
             Inl err \<Rightarrow> (Inl err, r)
           | Inr (msg, msgSize, payloadSize) \<Rightarrow>
               (case ReadFull (unat msgSize) r of
                  (Inl err, r2) \<Rightarrow> (Inl err, r2)
                | (Inr body, r2) \<Rightarrow>
                    (case Decode cb msg body of
                       Inl err \<Rightarrow> (Inl err, r2)
                     | Inr msg' \<Rightarrow>
                         if payloadSize > 0 then
                           (case CopyN (unat payloadSize) r2 of
                              (Some err, r3) \<Rightarrow> (Inl err, r3)
                            | (None, r3) \<Rightarrow> (Inr msg', r3))
                         else (Inr msg', r2)))))"

lemma readResp_parse:
  assumes "parse_frame cb inp = Inr ((m, p), n)"
  shows "readResp cb inp = (Inr m, drop n inp)"
proof -
  obtain z ms ps where *: "MagicNumberCheck (inp ! 0) (inp ! 1)" "DecodePre (take HeadSize inp) = Inr (z, ms, ps)"
    "n = HeadSize + (unat ms + unat ps)" "n \<le> length inp"
    "Decode cb z (take (unat ms) (drop HeadSize inp)) = Inr m"
    using assms by (rule parse_frame_InrE)
  have "unat ps = 0" if "\<not> ps > 0" using that by (simp add: word_less_nat_alt)
  with * show ?thesis
    by (auto simp: readResp_def ReadFull_def CopyN_def ac_simps)
qed

lemma readResp_frame:
  "fits cb m p \<Longrightarrow> cbor_roundtrip cb m \<Longrightarrow> readResp cb (frame cb m p @ rest) = (Inr m, rest)"
  using readResp_parse [OF parse_frame_frame] by simp

section \<open>Requests and responses\<close>

text \<open>\<open>genMsgID\<close>: the atomic counter of the client, 64 bits wide.\<close>

definition genMsgID :: "int64 \<Rightarrow> int64 \<times> int64" where
  "genMsgID i = (let j = wrap64 (i + 1) in (j, j))"

fun genMsgIDs :: "nat \<Rightarrow> int64 \<Rightarrow> int64 list" where
  "genMsgIDs 0 i = []"
| "genMsgIDs (Suc n) i = (let (k, i') = genMsgID i in k # genMsgIDs n i')"

text \<open>\<open>handleSend\<close> for one message: the bytes written to the connection.\<close>

definition handleSend ::
  "cbor_lib \<Rightarrow> ('w \<Rightarrow> bytes \<Rightarrow> goerror option \<times> 'w) \<Rightarrow> MSG \<times> bytes \<Rightarrow> 'w \<Rightarrow> goerror option \<times> 'w" where
  "handleSend cb wr wmsg w =
     (let (head, msgbs) = EncodeMsg cb (fst wmsg) (length (snd wmsg))
      in Buffers_WriteTo wr [head, msgbs, snd wmsg] w)"

text \<open>\<open>processMsg\<close>: a request from a caller (with the channel it waits on) or a response from a
  connection; what is passed on.\<close>

type_synonym chan = nat

datatype router_in = MsgIn MSG bytes chan | Received MSG bytes
datatype router_out = SendHandle MSG bytes | ToCaller chan MSG bytes

type_synonym res_cache = "int64 \<Rightarrow> chan option"

definition route :: "router_in \<Rightarrow> res_cache \<Rightarrow> router_out list \<times> res_cache" where
  "route ev resCache =
     (case ev of
        MsgIn m p ch \<Rightarrow> ([SendHandle m p], resCache(GetID m \<mapsto> ch))
      | Received m p \<Rightarrow>
          (case resCache (GetID m) of
             Some ch \<Rightarrow> ([ToCaller ch m p], resCache(GetID m := None))
           | None \<Rightarrow> ([], resCache)))"

fun processMsg :: "router_in list \<Rightarrow> res_cache \<Rightarrow> router_out list" where
  "processMsg [] resCache = []"
| "processMsg (ev # evs) resCache =
     (let (out, resCache') = route ev resCache in out @ processMsg evs resCache')"

text \<open>The IDs of the requests, and of the responses, among the events.\<close>

definition req_ids :: "router_in list \<Rightarrow> int64 list" where
  "req_ids evs = List.map_filter (\<lambda>ev. case ev of MsgIn m _ _ \<Rightarrow> Some (GetID m) | _ \<Rightarrow> None) evs"

definition res_ids :: "router_in list \<Rightarrow> int64 list" where
  "res_ids evs = List.map_filter (\<lambda>ev. case ev of Received m _ \<Rightarrow> Some (GetID m) | _ \<Rightarrow> None) evs"

lemma ids_simps [simp]:
  "req_ids [] = []" "req_ids (MsgIn m p ch # evs) = GetID m # req_ids evs" "req_ids (Received m p # evs) = req_ids evs"
  "res_ids [] = []" "res_ids (MsgIn m p ch # evs) = res_ids evs" "res_ids (Received m p # evs) = GetID m # res_ids evs"
  by (simp_all add: req_ids_def res_ids_def List.map_filter_simps)

lemma ids_append [simp]:
  "req_ids (xs @ ys) = req_ids xs @ req_ids ys" "res_ids (xs @ ys) = res_ids xs @ res_ids ys"
  by (simp_all add: req_ids_def res_ids_def List.map_filter_def)

fun router_cache :: "router_in list \<Rightarrow> res_cache \<Rightarrow> res_cache" where
  "router_cache [] c = c"
| "router_cache (ev # evs) c = router_cache evs (snd (route ev c))"

lemma processMsg_append: "processMsg (xs @ ys) c = processMsg xs c @ processMsg ys (router_cache xs c)"
  by (induction xs arbitrary: c) (simp_all add: case_prod_beta)

text \<open>A caller's entry survives until a response with its ID arrives.\<close>

lemma router_cache_keeps:
  "c i = Some ch \<Longrightarrow> i \<notin> set (req_ids evs) \<Longrightarrow> i \<notin> set (res_ids evs) \<Longrightarrow> router_cache evs c i = Some ch"
proof (induction evs arbitrary: c)
  case (Cons ev evs)
  then show ?case by (cases ev) (auto simp: route_def split: option.splits)
qed simp

text \<open>What is delivered belongs to an earlier request, or to an entry of the cache.\<close>

lemma processMsg_origin:
  "ToCaller ch m p \<in> set (processMsg evs c) \<Longrightarrow>
     Received m p \<in> set evs \<and> (c (GetID m) = Some ch \<or> (\<exists>m' p'. MsgIn m' p' ch \<in> set evs \<and> GetID m' = GetID m))"
proof (induction evs arbitrary: c)
  case (Cons ev evs)
  show ?case
  proof (cases ev)
    case (MsgIn m' p' ch')
    then have "ToCaller ch m p \<in> set (processMsg evs (c(GetID m' \<mapsto> ch')))"
      using Cons.prems by (simp add: route_def)
    from Cons.IH [OF this] show ?thesis
      unfolding MsgIn by (cases "GetID m = GetID m'") auto
  next
    case (Received m' p')
    then consider (here) "m' = m" "p' = p" "c (GetID m) = Some ch"
      | (later) "ToCaller ch m p \<in> set (processMsg evs c)"
      | (gone) "ToCaller ch m p \<in> set (processMsg evs (c(GetID m' := None)))"
      using Cons.prems by (auto simp: route_def split: option.splits)
    then show ?thesis
    proof cases
      case gone
      from Cons.IH [OF this] show ?thesis by (cases "GetID m = GetID m'") auto
    qed (use Cons.IH [of c] Received in auto)
  qed
qed simp

definition delivered_ids :: "router_out list \<Rightarrow> int64 list" where
  "delivered_ids out = List.map_filter (\<lambda>x. case x of ToCaller _ m _ \<Rightarrow> Some (GetID m) | _ \<Rightarrow> None) out"

lemma delivered_ids_simps [simp]:
  "delivered_ids [] = []" "delivered_ids (SendHandle m p # out) = delivered_ids out"
  "delivered_ids (ToCaller ch m p # out) = GetID m # delivered_ids out"
  "delivered_ids (xs @ ys) = delivered_ids xs @ delivered_ids ys"
  by (simp_all add: delivered_ids_def List.map_filter_simps) (simp add: List.map_filter_def)

lemma delivered_ids_set: "i \<in> set (delivered_ids out) \<longleftrightarrow> (\<exists>ch m p. ToCaller ch m p \<in> set out \<and> GetID m = i)"
  by (induction out) (auto simp: delivered_ids_def List.map_filter_simps split: router_out.splits)

text \<open>With IDs that are all different, no request is answered twice.\<close>

lemma delivered_once:
  "distinct (req_ids evs) \<Longrightarrow> \<forall>i \<in> set (req_ids evs). c i = None \<Longrightarrow> distinct (delivered_ids (processMsg evs c))"
proof (induction evs arbitrary: c)
  case (Cons ev evs)
  show ?case
  proof (cases ev)
    case (MsgIn m p ch)
    then have "distinct (delivered_ids (processMsg evs (c(GetID m \<mapsto> ch))))"
      using Cons.prems by (intro Cons.IH) auto
    then show ?thesis using MsgIn by (simp add: route_def)
  next
    case (Received m p)
    have no: "GetID m \<notin> set (delivered_ids (processMsg evs (c(GetID m := None))))"
      if "c (GetID m) = Some ch" for ch
    proof
      assume "GetID m \<in> set (delivered_ids (processMsg evs (c(GetID m := None))))"
      then obtain ch' m' p' where "ToCaller ch' m' p' \<in> set (processMsg evs (c(GetID m := None)))" "GetID m' = GetID m"
        by (auto simp: delivered_ids_set)
      then have "GetID m \<in> set (req_ids evs)"
        using processMsg_origin by (force simp: req_ids_def List.map_filter_def)
      then show False using Cons.prems(2) that Received by auto
    qed
    show ?thesis using Cons Received no by (auto simp: route_def split: option.splits)
  qed
qed simp

lemma genMsgIDs_eq: "genMsgIDs n i = map (\<lambda>k. wrap64 (i + 1 + int k)) [0..<n]"
proof (induction n arbitrary: i)
  case (Suc n)
  have "wrap64 (wrap64 (i + 1) + 1 + int k) = wrap64 (i + 1 + int (Suc k))" for k
  proof -
    have "wrap64 (i + 1) + 1 + int k + 2 ^ 63 = (i + 1 + 2 ^ 63) mod 2 ^ 64 + (1 + int k)"
      unfolding wrap64_def by linarith
    moreover have "((i + 1 + 2 ^ 63) mod 2 ^ 64 + (1 + int k)) mod 2 ^ 64 = (i + 1 + 2 ^ 63 + (1 + int k)) mod 2 ^ 64"
      by (rule mod_add_left_eq)
    moreover have "i + 1 + 2 ^ 63 + (1 + int k) = i + 1 + int (Suc k) + 2 ^ 63" by linarith
    ultimately show ?thesis unfolding wrap64_def [of "wrap64 _ + _ + _"] wrap64_def [of "i + 1 + int (Suc k)"] by presburger
  qed
  then show ?case
    unfolding genMsgIDs.simps genMsgID_def Let_def prod.case Suc.IH
    by (simp add: upt_conv_Cons map_Suc_upt [symmetric] comp_def del: upt_Suc)
qed simp

lemma wrap64_eqD: "wrap64 x = wrap64 y \<Longrightarrow> 2 ^ 64 dvd x - y"
  by (simp add: wrap64_def mod_eq_dvd_iff)

lemma genMsgIDs_distinct:
  assumes "n \<le> 2 ^ 64"
  shows "distinct (genMsgIDs n i)"
proof -
  have "j = k" if "wrap64 (i + 1 + int j) = wrap64 (i + 1 + int k)" "j < n" "k < n" for j k
  proof (rule ccontr)
    assume "j \<noteq> k"
    have "2 ^ 64 dvd int j - int k" using wrap64_eqD [OF that(1)] by simp
    moreover have "int n \<le> 2 ^ 64" using assms by (metis of_nat_le_iff of_nat_numeral of_nat_power)
    then have "int j - int k \<noteq> 0" "\<bar>int j - int k\<bar> < 2 ^ 64" using \<open>j \<noteq> k\<close> that(2,3) by linarith+
    ultimately show False using zdvd_imp_le [of "2 ^ 64" "\<bar>int j - int k\<bar>"] by simp
  qed
  then show ?thesis by (auto simp: genMsgIDs_eq distinct_map inj_on_def)
qed

section \<open>Properties\<close>

lemma recv_idle_init: "recv_idle recv_init"
  by (simp add: recv_idle_def recv_init_def)

text \<open>C16: the client receives exactly the messages that were sent, in order, with their payloads,
  whatever pieces \<open>conn.Read\<close> returns: on a stream of frames that ends within a frame, \<open>handleReceive\<close>
  passes on every complete message and returns.\<close>

theorem handleReceive_delivers:
  assumes "\<forall>(m, p) \<in> set ms. fits cb m p \<and> cbor_roundtrip cb m \<and> Encode cb m \<noteq> []"
    and "fits cb m' p'" "cbor_roundtrip cb m'" "Encode cb m' \<noteq> []" "k < length (frame cb m' p')"
  shows "handleReceive cb frag 0 recv_init (concat (map (\<lambda>(m, p). frame cb m p) ms) @ take k (frame cb m' p')) = Some ms"
  by (rule handleReceive_frames [OF assms recv_idle_init])

theorem handleReceive_delivers_witness:
  "let m = MStatReq (zeroStatReq\<lparr>sreq_ID := 7\<rparr>); f = frame id_cbor m [1, 2] in
   handleReceive id_cbor (\<lambda>t. t mod 3) 0 recv_init (f @ f @ take 4 f) = Some [(m, [1, 2]), (m, [1, 2])]"
  using handleReceive_delivers [of "[(MStatReq (zeroStatReq\<lparr>sreq_ID := 7\<rparr>), [1, 2]), (MStatReq (zeroStatReq\<lparr>sreq_ID := 7\<rparr>), [1, 2])]"
      id_cbor "MStatReq (zeroStatReq\<lparr>sreq_ID := 7\<rparr>)" "[1, 2]" 4 "\<lambda>t. t mod 3"]
  by (simp add: id_cbor_fits id_cbor_StatReq Let_def length_greater_0_conv [symmetric] del: length_greater_0_conv)

text \<open>A frame with an empty message: the loop never leaves the branch that allocates the buffers.\<close>

definition recv_stuck :: "cbor_lib \<Rightarrow> MSG \<Rightarrow> bytes \<Rightarrow> recv_state \<Rightarrow> bytes \<Rightarrow> bool" where
  "recv_stuck cb m p st inp \<longleftrightarrow>
     (\<exists>k. reassembling cb m p k st \<and> agree inp (drop k (frame cb m p)) \<and> HeadSize \<le> k + length inp)"

lemma recv_stuck_step:
  assumes "fits cb m p" and "Encode cb m = []" and "recv_stuck cb m p st inp"
  shows "\<exists>st' inp'. recv_step cb n st inp = RecvGo st' inp' \<and> recv_stuck cb m p st' inp'"
proof -
  obtain k where k: "reassembling cb m p k st" "agree inp (drop k (frame cb m p))" "HeadSize \<le> k + length inp"
    using assms(3) by (auto simp: recv_stuck_def)
  have b: "bufMsg st = []" using k(1) assms(2) by (auto simp: reassembling_def)
  show ?thesis
  proof (cases "k < HeadSize")
    case True
    then have "inp \<noteq> []" using k(3) by auto
    then obtain st' d where "recv_step cb n st inp = RecvGo st' (drop d inp)" "d \<le> length inp"
        "reassembling cb m p (k + d) st'"
      using recv_step_header [OF k(1) True k(2), of n] by blast
    moreover have "agree (drop d inp) (drop (k + d) (frame cb m p))"
      using agree_drop [OF k(2), of d] by (simp add: add.commute)
    moreover have "HeadSize \<le> k + d + length (drop d inp)" using k(3) calculation(2) by simp
    ultimately show ?thesis unfolding recv_stuck_def by blast
  next
    case False
    then have kk: "k = HeadSize" using k(1) b by (auto simp: reassembling_def)
    have h: "bufHead st = fst (EncodeMsg cb m (length p))" using reassembling_head [OF k(1)] False by simp
    have un: "unat (of_nat (length p) :: uint32) = length p"
      using assms(1) by (auto simp: fits_def intro!: unat_of_nat_uint32)
    then have sz: "\<not> (of_nat (length p) :: uint32) > MaxPayloadSize"
      using assms(1) by (simp add: fits_def word_less_nat_alt)
    let ?st = "st\<lparr>bufMsg := [], rpayload := replicate (length p) 0\<rparr>"
    have rs: "readSize st = HeadSize" using k(1) kk by (simp add: reassembling_def)
    have "recv_step cb n st inp = RecvGo ?st inp"
      using rs b sz unfolding recv_step_def h head_fields by (simp add: Let_def un assms(2))
    moreover have "reassembling cb m p k ?st" using k(1) b unfolding reassembling_def by (auto simp: min_def)
    ultimately show ?thesis using k unfolding recv_stuck_def by blast
  qed
qed

lemma handleReceive_stuck:
  assumes "fits cb m p" and "Encode cb m = []" and "recv_stuck cb m p st inp"
  shows "handleReceive cb frag t st inp = None"
proof -
  have "handleReceive cb frag t st inp = Some ms \<Longrightarrow> cb = cb \<longrightarrow> \<not> recv_stuck cb m p st inp" for ms
  proof (rule handleReceive.raw_induct [where P = "\<lambda>cb' frag t st inp ms. cb' = cb \<longrightarrow> \<not> recv_stuck cb m p st inp"])
    fix rec :: "cbor_lib \<Rightarrow> (nat \<Rightarrow> nat) \<Rightarrow> nat \<Rightarrow> recv_state \<Rightarrow> bytes \<Rightarrow> (MSG \<times> bytes) list option"
      and cb' frag t st inp ms
    assume rec: "\<And>cb' frag t st inp ms. rec cb' frag t st inp = Some ms \<Longrightarrow> cb' = cb \<longrightarrow> \<not> recv_stuck cb m p st inp"
      and body: "(case recv_step cb' (frag t) st inp of
        RecvGo st' inp' \<Rightarrow> rec cb' frag (Suc t) st' inp'
      | RecvMsg m p st' inp' \<Rightarrow> Option.bind (rec cb' frag (Suc t) st' inp') (\<lambda>ms. Some ((m, p) # ms))
      | RecvReturn \<Rightarrow> Some []) = Some ms"
    show "cb' = cb \<longrightarrow> \<not> recv_stuck cb m p st inp"
      using recv_stuck_step [OF assms(1,2), of st inp "frag t"] body rec by fastforce
  qed
  then show ?thesis using assms(3) by (cases "handleReceive cb frag t st inp") auto
qed

text \<open>C34: a frame whose message is empty stops the client for good: once such a header (with any
  payload size that is allowed) has arrived on a connection, \<open>handleReceive\<close> neither delivers
  anything more nor returns, whatever follows.\<close>

theorem handleReceive_empty_message_hangs:
  assumes "fits cb m p" and "Encode cb m = []"
  shows "handleReceive cb frag 0 recv_init (frame cb m p @ rest) = None"
proof -
  have "agree (frame cb m p @ rest) (drop 0 (frame cb m p))" by (simp add: agree_def)
  moreover have "HeadSize \<le> 0 + length (frame cb m p @ rest)" by simp
  ultimately have "recv_stuck cb m p recv_init (frame cb m p @ rest)"
    using recv_idle_start [OF recv_idle_init] unfolding recv_stuck_def by blast
  then show ?thesis by (rule handleReceive_stuck [OF assms])
qed

theorem handleReceive_empty_message_hangs_witness:
  "handleReceive (id_cbor\<lparr>Marshal := (\<lambda>_. Inl ErrEOF)\<rparr>) (\<lambda>_. 4) 0 recv_init
     (frame (id_cbor\<lparr>Marshal := (\<lambda>_. Inl ErrEOF)\<rparr>) (MStatReq zeroStatReq) [] @ [1, 2, 3]) = None"
  by (rule handleReceive_empty_message_hangs) (simp_all add: fits_def Encode_def)

text \<open>C15: responses reach the caller that waits for them: with requests numbered by \<open>genMsgID\<close> and sent
  and answered in any order, a response is passed only to the channel of the request with the same
  ID, each request is answered at most once, and the first response that arrives after a request with
  its ID is passed to that request's channel.\<close>

theorem router_correct:
  assumes "mset (req_ids evs) = mset (genMsgIDs n i)" and "n \<le> 2 ^ 64"
  shows "(\<forall>ch m p. ToCaller ch m p \<in> set (processMsg evs Map.empty) \<longrightarrow>
       Received m p \<in> set evs \<and> (\<exists>m' p'. MsgIn m' p' ch \<in> set evs \<and> GetID m' = GetID m))
    \<and> distinct (delivered_ids (processMsg evs Map.empty))
    \<and> (\<forall>pre mid post m p ch m' p'. evs = pre @ MsgIn m p ch # mid @ Received m' p' # post \<longrightarrow>
        GetID m' = GetID m \<longrightarrow> GetID m \<notin> set (res_ids mid) \<longrightarrow>
        ToCaller ch m' p' \<in> set (processMsg evs Map.empty))"
proof (intro conjI allI impI)
  have d: "distinct (req_ids evs)"
    using mset_eq_imp_distinct_iff [OF assms(1)] genMsgIDs_distinct [OF assms(2)] by blast
  then show "distinct (delivered_ids (processMsg evs Map.empty))" by (intro delivered_once) auto
  fix pre mid post m p ch m' p'
  assume e: "evs = pre @ MsgIn m p ch # mid @ Received m' p' # post" "GetID m' = GetID m" "GetID m \<notin> set (res_ids mid)"
  define c where "c = (router_cache pre Map.empty)(GetID m \<mapsto> ch)"
  have "GetID m \<notin> set (req_ids mid)" using d e(1) by auto
  then have "router_cache mid c (GetID m) = Some ch" using e(3) by (intro router_cache_keeps) (simp_all add: c_def)
  then show "ToCaller ch m' p' \<in> set (processMsg evs Map.empty)"
    using e(2) by (simp add: e(1) processMsg_append route_def c_def [symmetric])
next
  fix ch m p
  assume "ToCaller ch m p \<in> set (processMsg evs Map.empty)"
  from processMsg_origin [OF this] show "Received m p \<in> set evs" "\<exists>m' p'. MsgIn m' p' ch \<in> set evs \<and> GetID m' = GetID m"
    by auto
qed

theorem router_correct_witness:
  "let q = (\<lambda>i. MStatReq (zeroStatReq\<lparr>sreq_ID := i\<rparr>)); r = (\<lambda>i. MStatRes (zeroStatRes\<lparr>sres_ID := i\<rparr>)) in
   ToCaller 5 (r 1) [9] \<in> set (processMsg [MsgIn (q 2) [] 6, MsgIn (q 1) [] 5, Received (r 1) [9]] Map.empty)"
proof -
  let ?q = "\<lambda>i. MStatReq (zeroStatReq\<lparr>sreq_ID := i\<rparr>)" and ?r = "\<lambda>i. MStatRes (zeroStatRes\<lparr>sres_ID := i\<rparr>)"
  let ?evs = "[MsgIn (?q 2) [] 6, MsgIn (?q 1) [] 5, Received (?r 1) [9]]"
  have "mset (req_ids ?evs) = mset (genMsgIDs 2 0)" by (simp add: genMsgIDs_eq upt_rec wrap64_def)
  from router_correct [OF this] have
    "\<forall>pre mid post m p ch m' p'. ?evs = pre @ MsgIn m p ch # mid @ Received m' p' # post \<longrightarrow>
        GetID m' = GetID m \<longrightarrow> GetID m \<notin> set (res_ids mid) \<longrightarrow>
        ToCaller ch m' p' \<in> set (processMsg ?evs Map.empty)"
    by simp
  from this [rule_format, of "[MsgIn (?q 2) [] 6]" "?q 1" "[]" 5 "[]" "?r 1" "[9]" "[]"] show ?thesis
    by (simp add: Let_def)
qed

end
