(* ===== verification/Client.thy ===== *)
theory Client
  imports ClientNet ChunkCodec
begin

text \<open>
  The requests of the client (\<open>copierClient\<close> and its methods \<open>Create\<close>, \<open>Write\<close>, \<open>Read\<close>, \<open>ReadDir\<close>,
  \<open>Stat\<close>, \<open>Hash\<close> in \<open>client.go\<close>). A method numbers its request, hands it to the router and waits for
  the response on a channel of its own. That exchange is the parameter \<open>call\<close>, on a world of the
  caller's choice: it returns the response, or the error of a cancelled context. The theory
  \<open>Rpc\<close> instantiates it with the server behind the frames of the wire.
\<close>

record copierClient =
  cc_target :: string
  cc_id :: int64
  cc_batch :: int64
  cc_timeout :: int64
  cc_useChecksum :: bool
  cc_useEncryption :: bool
  cc_authToken :: string
  cc_authUser :: string
  cc_identityFile :: string
  cc_encryptionKey :: "bytes option"

type_synonym 'w caller = "MSG \<Rightarrow> bytes \<Rightarrow> 'w \<Rightarrow> (goerror + (MSG \<times> bytes)) \<times> 'w"

text \<open>Number a request, send it and wait: what all methods have in common.\<close>

definition request ::
  "'w caller \<Rightarrow> (int64 \<Rightarrow> MSG) \<Rightarrow> bytes \<Rightarrow> copierClient \<times> 'w \<Rightarrow> (goerror + (MSG \<times> bytes)) \<times> copierClient \<times> 'w" where
  "request call mk payload = (\<lambda>(cc, w).
     let (i, next) = genMsgID (cc_id cc);
         (r, w') = call (mk i) payload w
     in (r, cc\<lparr>cc_id := next\<rparr>, w'))"

definition cc_Create ::
  "'w caller \<Rightarrow> string \<Rightarrow> int64 \<Rightarrow> uint32 \<Rightarrow> copierClient \<times> 'w \<Rightarrow> (goerror + (MSG \<times> bytes)) \<times> copierClient \<times> 'w" where
  "cc_Create call target sz mode =
     request call (\<lambda>i. MCreateReq (zeroCreateReq\<lparr>creq_ID := i, creq_Size := sz, creq_Mode := mode, creq_Path := target\<rparr>)) []"

text \<open>The payload of \<open>Write\<close>: compressed, encrypted if the client encrypts, with the algorithms used.\<close>

definition write_coding ::
  "codec_lib \<Rightarrow> (nat \<Rightarrow> goerror + bytes) \<Rightarrow> copierClient \<Rightarrow> bytes \<Rightarrow> uint8 \<Rightarrow> goerror + (bytes \<times> uint8 \<times> uint8)" where
  "write_coding lib rnd cc payload compressionAlgo =
     (case compressChunk lib payload compressionAlgo of
        Inl err \<Rightarrow> Inl err
      | Inr (compressed, algo) \<Rightarrow>
          if cc_useEncryption cc then
            (case encryptChunk lib rnd compressed (cc_encryptionKey cc) of
               Inl err \<Rightarrow> Inl err
             | Inr encrypted \<Rightarrow> Inr (encrypted, algo, EncryptionSecretBox))
          else Inr (compressed, algo, EncryptionNone))"

definition cc_Write ::
  "codec_lib \<Rightarrow> (nat \<Rightarrow> goerror + bytes) \<Rightarrow> 'w caller \<Rightarrow> string \<Rightarrow> int64 \<Rightarrow> bytes \<Rightarrow> uint8 \<Rightarrow>
    copierClient \<times> 'w \<Rightarrow> (goerror + (MSG \<times> bytes)) \<times> copierClient \<times> 'w" where
  "cc_Write lib rnd call target off payload compressionAlgo = (\<lambda>(cc, w).
     case write_coding lib rnd cc payload compressionAlgo of
       Inl err \<Rightarrow> (Inl err, cc, w)
     | Inr (toSend, algo, encAlgo) \<Rightarrow>
         request call (\<lambda>i. MWriteReq \<lparr>wreq_ID = i, wreq_Path = target, wreq_Offset = off,
             wreq_Checksum = (if cc_useChecksum cc \<and> toSend \<noteq> [] then ChecksumIEEE toSend else 0),
             wreq_Compression = algo, wreq_Encryption = encAlgo\<rparr>)
           toSend (cc, w))"

definition cc_Read ::
  "'w caller \<Rightarrow> string \<Rightarrow> int64 \<Rightarrow> int64 \<Rightarrow> uint8 \<Rightarrow> copierClient \<times> 'w \<Rightarrow> (goerror + (MSG \<times> bytes)) \<times> copierClient \<times> 'w" where
  "cc_Read call target off sz compressionAlgo = (\<lambda>(cc, w).
     request call (\<lambda>i. MReadReq \<lparr>rreq_ID = i, rreq_Path = target, rreq_Offset = off, rreq_Size = sz,
         rreq_Compression = compressionAlgo,
         rreq_Encryption = (if cc_useEncryption cc then EncryptionSecretBox else EncryptionNone)\<rparr>)
       [] (cc, w))"

text \<open>The bytes of the file that the response to \<open>Read\<close> stands for: decrypted, decompressed.\<close>

definition read_decoding :: "codec_lib \<Rightarrow> bytes option \<Rightarrow> int64 \<Rightarrow> ReadRes \<Rightarrow> bytes \<Rightarrow> goerror + bytes" where
  "read_decoding lib key offset readRes payload =
     (case (if rres_Encryption readRes = EncryptionSecretBox then decryptChunk lib payload key else Inr payload) of
        Inl decErr \<Rightarrow> Inl (Errorf (''decryption failed at offset '' @ dec_int offset @ '': '' @ err_text decErr))
      | Inr plain \<Rightarrow>
          (case decompressChunk lib plain (rres_Compression readRes) of
             Inl err \<Rightarrow> Inl (Errorf (''decompression failed at offset '' @ dec_int offset @ '': '' @ err_text err))
           | Inr data \<Rightarrow> Inr data))"

definition cc_ReadDir ::
  "'w caller \<Rightarrow> string \<Rightarrow> copierClient \<times> 'w \<Rightarrow> (goerror + (MSG \<times> bytes)) \<times> copierClient \<times> 'w" where
  "cc_ReadDir call target = request call (\<lambda>i. MReadDirReq \<lparr>dreq_ID = i, dreq_Path = target\<rparr>) []"

definition cc_Stat ::
  "'w caller \<Rightarrow> string \<Rightarrow> copierClient \<times> 'w \<Rightarrow> (goerror + (MSG \<times> bytes)) \<times> copierClient \<times> 'w" where
  "cc_Stat call target = request call (\<lambda>i. MStatReq \<lparr>sreq_ID = i, sreq_Path = target\<rparr>) []"

definition cc_Hash ::
  "'w caller \<Rightarrow> string \<Rightarrow> copierClient \<times> 'w \<Rightarrow> (goerror + (MSG \<times> bytes)) \<times> copierClient \<times> 'w" where
  "cc_Hash call target = request call (\<lambda>i. MHashReq \<lparr>hreq_ID = i, hreq_Path = target\<rparr>) []"

end
