(* ===== verification/Rpc.thy ===== *)
theory Rpc
  imports ServerFiles Client
begin

text \<open>
  The exchange of a request and its response, end to end. \<open>direct_call\<close> hands a request to the
  server's worker and takes the reply; \<open>wire_call\<close> goes through everything in between: the frame
  written by \<open>handleSend\<close>, cut by the network in any way, \<open>OnTraffic\<close>, the worker, the frame of the
  reply, \<open>handleReceive\<close> with any sizes of reads, and the router. Shown: they agree. The rest of the
  development reasons about \<open>direct_call\<close>.
\<close>

section \<open>Calls\<close>

definition direct_call ::
  "('pk, 'sig) server_env \<Rightarrow> (nat \<Rightarrow> goerror + bytes) \<Rightarrow> connid \<Rightarrow> copierServer caller" where
  "direct_call env rnd conn m p srv =
     (let srv' = handle_msg env rnd \<lparr>wm_msg = m, wm_payload = p, wm_conn = conn\<rparr> srv
      in case drop (length (srv_out srv)) (srv_out srv') of
           [] \<Rightarrow> (Inl ErrCanceled, srv')
         | (_, m', p') # _ \<Rightarrow> (Inr (m', p'), srv'))"

definition wire_call ::
  "cbor_lib \<Rightarrow> ('pk, 'sig) server_env \<Rightarrow> (nat \<Rightarrow> goerror + bytes) \<Rightarrow> (bytes \<Rightarrow> bytes list) \<Rightarrow> (nat \<Rightarrow> nat) \<Rightarrow>
    connid \<Rightarrow> chan \<Rightarrow> copierServer caller" where
  "wire_call cb env rnd cuts frag conn ch m p srv =
     (case handleSend cb append_writer (m, p) [] of
        (Some err, _) \<Rightarrow> (Inl ErrCanceled, srv)
      | (None, sent) \<Rightarrow>
          (case traffic cb [] (cuts sent) of
             None \<Rightarrow> (Inl ErrCanceled, srv)
           | Some (ms, _, _) \<Rightarrow>
               (let srv' = fold (\<lambda>(m, p). handle_msg env rnd \<lparr>wm_msg = m, wm_payload = p, wm_conn = conn\<rparr>) ms srv;
                    back = concat (map (\<lambda>(c, m, p). if c = conn then frame cb m p else [])
                             (drop (length (srv_out srv)) (srv_out srv')))
                in case handleReceive cb frag 0 recv_init back of
                     None \<Rightarrow> (Inl ErrCanceled, srv')
                   | Some rs \<Rightarrow>
                       (case List.map_filter (\<lambda>x. case x of ToCaller c m p \<Rightarrow> if c = ch then Some (m, p) else None | _ \<Rightarrow> None)
                               (processMsg (MsgIn m p ch # map (\<lambda>(m, p). Received m p) rs) Map.empty) of
                          [] \<Rightarrow> (Inl ErrCanceled, srv')
                        | x # _ \<Rightarrow> (Inr x, srv')))))"

lemma handleSend_frame: "handleSend cb append_writer (m, p) [] = (None, frame cb m p)"
  using WriteMessage_append [of cb "[]" m p] by (simp add: handleSend_def WriteMessage_def)

lemma direct_call_reply:
  "srv_out (handle_msg env rnd \<lparr>wm_msg = m, wm_payload = p, wm_conn = conn\<rparr> srv) = srv_out srv @ [(c, m', p')] \<Longrightarrow>
     direct_call env rnd conn m p srv
       = (Inr (m', p'), handle_msg env rnd \<lparr>wm_msg = m, wm_payload = p, wm_conn = conn\<rparr> srv)"
  by (simp add: direct_call_def Let_def)

text \<open>C9: a request and its response survive the wire: when the request and the server's reply fit in
  frames that the CBOR library can decode, then sending the request as a frame that arrives in
  whatever pieces, handling it, sending the reply back in whatever pieces and routing it to the
  caller is the same as handing the request to the server's worker and taking its reply.\<close>

theorem wire_call_direct:
  assumes "srv_inv srv" and "is_request m" and "\<And>b. concat (cuts b) = b"
    and "fits cb m p" and "cbor_roundtrip cb m"
    and "srv' = handle_msg env rnd \<lparr>wm_msg = m, wm_payload = p, wm_conn = conn\<rparr> srv" and "\<not> srv_panic srv'"
    and "\<And>m' p'. srv_out srv' = srv_out srv @ [(conn, m', p')] \<Longrightarrow> fits cb m' p' \<and> cbor_roundtrip cb m' \<and> Encode cb m' \<noteq> []"
  shows "wire_call cb env rnd cuts frag conn ch m p srv = direct_call env rnd conn m p srv"
proof -
  let ?wm = "\<lparr>wm_msg = m, wm_payload = p, wm_conn = conn\<rparr>"
  obtain m' p' where out: "srv_out srv' = srv_out srv @ [(conn, m', p')]" "GetID m' = GetID m"
    using handle_msg_reply_or_panic [OF assms(1), of ?wm env rnd srv'] assms(2,6,7)
    by (auto simp: answers_def split: if_splits)
  note r = assms(8) [OF out(1)]
  have "traffic cb [] (cuts (frame cb m p)) = Some ([(m, p)], ActionNone, [])"
    using assms(3-5) by (intro traffic_frames) (simp_all add: parse_frame_def)
  moreover have "handleReceive cb frag 0 recv_init (frame cb m' p') = Some [(m', p')]"
    using handleReceive_frames [of "[(m', p')]" cb m' p' 0 recv_init frag 0] r recv_idle_init by simp
  ultimately show ?thesis
    using out assms(6)
    by (simp add: wire_call_def handleSend_frame direct_call_reply Let_def route_def List.map_filter_simps)
qed

text \<open>A coder for the one exchange: an unauthenticated \<open>StatReq\<close> and its denial.\<close>

definition denial :: AuthRes where
  "denial = \<lparr>ares_ID = 7, ares_Success = False, ares_Challenge = [], ares_Token = [], ares_User = [],
     ares_Error = ''authentication required before type '' @ dec_nat (unat StatReqT)\<rparr>"

definition denial_cbor :: cbor_lib where
  "denial_cbor = id_cbor\<lparr>Unmarshal_AuthRes := (\<lambda>_ _. Inr denial)\<rparr>"

theorem wire_call_direct_witness:
  "let m = MStatReq (zeroStatReq\<lparr>sreq_ID := 7\<rparr>); srv = newServer sample_os in
   fst (wire_call denial_cbor sample_env sample_rnd (\<lambda>b. [take 3 b, drop 3 b]) (\<lambda>t. 2) 0 5 m [] srv)
     = Inr (MAuthRes denial, [])"
proof -
  let ?m = "MStatReq (zeroStatReq\<lparr>sreq_ID := 7\<rparr>)" and ?srv = "newServer sample_os"
  let ?s = "handle_msg sample_env sample_rnd \<lparr>wm_msg = ?m, wm_payload = [], wm_conn = 0\<rparr> ?srv"
  have t: "Type ?m = StatReqT" "GetID ?m = 7" by (simp_all add: zeroStatReq_def)
  have h: "?s = authDenied 0 7 (ares_Error denial) ?srv"
    using handle_msg_unauth [of "\<lparr>wm_msg = ?m, wm_payload = [], wm_conn = 0\<rparr>" ?srv sample_env sample_rnd] t
    by (simp add: rejectUnauthenticated_def newServer_def mtype_defs denial_def)
  have out: "srv_out ?s = [(0, MAuthRes denial, [])]" "\<not> srv_panic ?s"
    unfolding h by (simp_all add: newServer_def authRes_def denial_def)
  have enc: "length (Encode denial_cbor m) = 1" for m by (simp add: Encode_def denial_cbor_def id_cbor_def)
  have rt: "cbor_roundtrip denial_cbor (MAuthRes denial)"
    by (simp add: cbor_roundtrip_def newMSG_def mtype_defs denial_cbor_def)
  have rq: "cbor_roundtrip denial_cbor ?m"
    using id_cbor_StatReq [of 7] by (simp add: cbor_roundtrip_def newMSG_def mtype_defs denial_cbor_def Encode_def)
  have "Encode denial_cbor m \<noteq> []" for m using enc [of m] by auto
  then have "wire_call denial_cbor sample_env sample_rnd (\<lambda>b. [take 3 b, drop 3 b]) (\<lambda>t. 2) 0 5 ?m [] ?srv
      = direct_call sample_env sample_rnd 0 ?m [] ?srv"
    using rt rq out enc
    by (intro wire_call_direct [OF newServer_inv [OF os_wf_sample] _ _ _ _ refl]) (auto simp: fits_def newServer_def)
  then show ?thesis using out by (simp add: direct_call_def newServer_def Let_def)
qed

end
