(* ===== verification/Resume.thy ===== *)
theory Resume
  imports Client Auth Files
begin

text \<open>
  The parts of \<open>transfer.go\<close> that uploads and downloads share: the resume state, kept in a file under
  the directory for temporary files, and the comparison of SHA-256 sums after a transfer.

  \<open>encoding/json\<close> is the parameter \<open>json_lib\<close>, on the four exported fields of \<open>resumeState\<close>;
  \<open>os.TempDir()\<close> is the parameter \<open>tmpDir\<close>. What is relied on is that decoding gives back what was
  encoded (\<open>json_ok\<close>).
\<close>

section \<open>The resume state\<close>

record resumeState =
  rs_Version :: int64
  rs_SourceSize :: int64
  rs_ChunkSize :: int64
  rs_Completed :: "int64 list"
  rs_path :: string
  rs_completedSet :: "int64 set"
  rs_pending :: "int64 list"
  rs_batch :: int64

type_synonym resume_json = "int64 \<times> int64 \<times> int64 \<times> int64 list"

record json_lib =
  js_Encode :: "resume_json \<Rightarrow> goerror + bytes"
  js_Decode :: "bytes \<Rightarrow> goerror + resume_json"

definition json_of :: "resumeState \<Rightarrow> resume_json" where
  "json_of st = (rs_Version st, rs_SourceSize st, rs_ChunkSize st, rs_Completed st)"

definition json_ok :: "json_lib \<Rightarrow> bool" where
  "json_ok js \<longleftrightarrow> (\<forall>x b. js_Encode js x = Inr b \<longrightarrow> b \<noteq> [] \<and> js_Decode js b = Inr x)"

definition stateFilePath :: "string \<Rightarrow> string \<Rightarrow> string \<Rightarrow> string" where
  "stateFilePath tmpDir srcPath targetPath =
     (let h = Sum256 (bytes_of (srcPath @ '':'' @ targetPath));
          name = ''gcp-resume-'' @ EncodeToString (take 16 h) @ ''.json''
      in Join [tmpDir, ''gcp'', name])"

definition loadResumeState ::
  "json_lib \<Rightarrow> string \<Rightarrow> string \<Rightarrow> string \<Rightarrow> int64 \<Rightarrow> int64 \<Rightarrow> int64 \<Rightarrow> os_state \<Rightarrow> resumeState option \<times> os_state" where
  "loadResumeState js tmpDir srcPath targetPath sourceSize chunkSize batch s =
     (let p = stateFilePath tmpDir srcPath targetPath
      in case os_Open p s of
           (Inl err, s1) \<Rightarrow> (None, s1)
         | (Inr f, s1) \<Rightarrow>
             (case os_ReadAll f s1 of
                (Inl err, s2) \<Rightarrow> (None, os_Close f s2)
              | (Inr b, s2) \<Rightarrow>
                  (case js_Decode js b of
                     Inl err \<Rightarrow> (None, os_Close f s2)
                   | Inr (version, ssize, csize, completed) \<Rightarrow>
                       if version \<noteq> 1 \<or> ssize \<noteq> sourceSize \<or> csize \<noteq> chunkSize then (None, os_Close f s2)
                       else (Some \<lparr>rs_Version = version, rs_SourceSize = ssize, rs_ChunkSize = csize,
                               rs_Completed = completed, rs_path = p, rs_completedSet = set completed,
                               rs_pending = [], rs_batch = batch\<rparr>, os_Close f s2))))"

definition O_CREATE_TRUNC :: OpenFlags where
  "O_CREATE_TRUNC = \<lparr>o_rdwr = True, o_create = True, o_trunc = True\<rparr>"

text \<open>\<open>os.Create\<close> opens with mode 0666.\<close>

definition saveResumeState ::
  "json_lib \<Rightarrow> resumeState \<Rightarrow> os_state \<Rightarrow> goerror option \<times> resumeState \<times> os_state" where
  "saveResumeState js st s =
     (case os_MkdirAll (Dir (rs_path st)) 493 s of
        (Some err, s1) \<Rightarrow> (Some err, st, s1)
      | (None, s1) \<Rightarrow>
          (let st' = st\<lparr>rs_Completed := sorted_list_of_set (rs_completedSet st)\<rparr>;
               tmp = rs_path st @ ''.tmp''
           in case os_OpenFile tmp O_CREATE_TRUNC 438 s1 of
                (Inl err, s2) \<Rightarrow> (Some err, st', s2)
              | (Inr f, s2) \<Rightarrow>
                  (case js_Encode js (json_of st') of
                     Inl err \<Rightarrow> (Some err, st', snd (os_Remove tmp (os_Close f s2)))
                   | Inr b \<Rightarrow>
                       (case os_WriteAt f b 0 s2 of
                          ((_, Some err), s3) \<Rightarrow> (Some err, st', snd (os_Remove tmp (os_Close f s3)))
                        | ((_, None), s3) \<Rightarrow>
                            (case os_CloseErr f s3 of
                               (Some err, s4) \<Rightarrow> (Some err, st', snd (os_Remove tmp s4))
                             | (None, s4) \<Rightarrow>
                                 (case os_Rename tmp (rs_path st) s4 of (r, s5) \<Rightarrow> (r, st', s5)))))))"

definition deleteResumeState :: "resumeState option \<Rightarrow> os_state \<Rightarrow> os_state" where
  "deleteResumeState st s = (case st of None \<Rightarrow> s | Some r \<Rightarrow> snd (os_Remove (rs_path r) s))"

definition addCompletedOffset ::
  "json_lib \<Rightarrow> int64 \<Rightarrow> resumeState option \<times> os_state \<Rightarrow> goerror option \<times> resumeState option \<times> os_state" where
  "addCompletedOffset js offset = (\<lambda>(st, s).
     case st of
       None \<Rightarrow> (None, None, s)
     | Some r \<Rightarrow>
         (let r' = r\<lparr>rs_completedSet := insert offset (rs_completedSet r), rs_pending := rs_pending r @ [offset]\<rparr>
          in if int (length (rs_pending r')) \<ge> rs_batch r' then
               (let (e, r'', s') = saveResumeState js r' s in (e, Some r'', s'))
             else (None, Some r', s)))"

definition flushResumeState ::
  "json_lib \<Rightarrow> resumeState option \<times> os_state \<Rightarrow> goerror option \<times> resumeState option \<times> os_state" where
  "flushResumeState js = (\<lambda>(st, s).
     case st of
       None \<Rightarrow> (None, None, s)
     | Some r \<Rightarrow>
         if rs_pending r \<noteq> [] then (let (e, r', s') = saveResumeState js r s in (e, Some r', s'))
         else (None, Some r, s))"

definition isCompleted :: "resumeState option \<Rightarrow> int64 \<Rightarrow> bool" where
  "isCompleted st offset = (case st of None \<Rightarrow> False | Some r \<Rightarrow> offset \<in> rs_completedSet r)"

section \<open>A transfer\<close>

text \<open>What a transfer works on: the client, the network behind it, the local files and the resume
  state.\<close>

record 'w xfer =
  x_cc :: copierClient
  x_net :: 'w
  x_os :: os_state
  x_state :: "resumeState option"

definition on_client ::
  "(copierClient \<times> 'w \<Rightarrow> 'a \<times> copierClient \<times> 'w) \<Rightarrow> 'w xfer \<Rightarrow> 'a \<times> 'w xfer" where
  "on_client m x = (let (r, cc, w) = m (x_cc x, x_net x) in (r, x\<lparr>x_cc := cc, x_net := w\<rparr>))"

definition on_state ::
  "(resumeState option \<times> os_state \<Rightarrow> 'a \<times> resumeState option \<times> os_state) \<Rightarrow> 'w xfer \<Rightarrow> 'a \<times> 'w xfer" where
  "on_state m x = (let (r, st, s) = m (x_state x, x_os x) in (r, x\<lparr>x_state := st, x_os := s\<rparr>))"

text \<open>The settings of a transfer: what the flags of \<open>cp\<close> say, and the libraries.\<close>

record options =
  opt_json :: json_lib
  opt_tmpDir :: string
  opt_codec :: codec_lib
  opt_rnd :: "nat \<Rightarrow> goerror + bytes"
  opt_chunkSize :: int64
  opt_maxRetries :: int64
  opt_sha256 :: bool
  opt_compression :: uint8

text \<open>The number of rounds of \<open>for attempt := 0; attempt <= maxRetries; attempt++\<close>.\<close>

definition attempts :: "int64 \<Rightarrow> nat" where
  "attempts maxRetries = nat (maxRetries + 1)"

section \<open>Hash comparison\<close>

text \<open>The comparison: lengths, then byte by byte.\<close>

definition compare_hashes :: "bytes \<Rightarrow> bytes \<Rightarrow> goerror option" where
  "compare_hashes remote here =
     (if length remote \<noteq> length here then
        Some (Errorf (''hash length mismatch: server='' @ dec_nat (length remote) @ '' local='' @ dec_nat (length here)))
      else if list_ex (\<lambda>i. remote ! i \<noteq> here ! i) [0..<length here] then
        Some (Errorf ''SHA-256 mismatch: file may be corrupted'')
      else None)"

definition verifyFileHash :: "'w caller \<Rightarrow> string \<Rightarrow> string \<Rightarrow> 'w xfer \<Rightarrow> goerror option \<times> 'w xfer" where
  "verifyFileHash call remotePath localPath x =
     (case on_client (cc_Hash call remotePath) x of
        (Inl err, x1) \<Rightarrow> (Some (Errorf (''hash request failed: '' @ err_text err)), x1)
      | (Inr (MHashRes hashRes, _), x1) \<Rightarrow>
          if \<not> hres_Success hashRes then (Some (Errorf (''hash failed: '' @ hres_Error hashRes)), x1)
          else
            (case os_Open localPath (x_os x1) of
               (Inl err, s1) \<Rightarrow>
                 (Some (Errorf (''cannot open local file for hash: '' @ err_text err)), x1\<lparr>x_os := s1\<rparr>)
             | (Inr f, s1) \<Rightarrow>
                 (case os_ReadAll f s1 of
                    (Inl err, s2) \<Rightarrow>
                      (Some (Errorf (''cannot read local file for hash: '' @ err_text err)),
                       x1\<lparr>x_os := os_Close f s2\<rparr>)
                  | (Inr b, s2) \<Rightarrow>
                      (compare_hashes (hres_Hash hashRes) (Sum256 b), x1\<lparr>x_os := os_Close f s2\<rparr>)))
      | (Inr _, x1) \<Rightarrow> (Some PanicAssertion, x1))"

lemma compare_hashes_eq: "compare_hashes a b = None \<longleftrightarrow> a = b"
  by (auto simp: compare_hashes_def list_ex_iff intro: nth_equalityI)

section \<open>Names of state files\<close>

lemma join_slash_suffix: "es \<noteq> [] \<Longrightarrow> join_slash es @ t = join_slash (butlast es @ [last es @ t])"
proof (induction es rule: join_slash.induct)
  case (3 c d cs)
  then show ?case by (cases "butlast (d # cs) @ [last (d # cs) @ t]") auto
qed auto

lemma Clean_tmp:
  assumes "abs_clean p"
  shows "Clean (p @ ''.tmp'') = p @ ''.tmp''"
proof (cases "clean_elements p = []")
  case True
  then have "p = ''/''" using assms unfolding abs_clean_def by (metis Clean_def join_slash.simps(1))
  moreover have "Clean (''/'' @ ''.tmp'') = ''/'' @ ''.tmp''" by code_simp
  ultimately show ?thesis by simp
next
  case False
  let ?es = "clean_elements p"
  let ?fs = "butlast ?es @ [last ?es @ ''.tmp'']"
  have p: "p = CHR ''/'' # join_slash ?es" "IsAbs p" using assms unfolding abs_clean_def by (metis Clean_def)+
  have dots: "''..'' \<notin> set ?es" by (rule clean_elements_no_dots [OF p(2)])
  have el: "list_all element ?es" by simp
  have pt: "p @ ''.tmp'' = CHR ''/'' # join_slash ?fs"
    using p(1) join_slash_suffix [OF False, of "''.tmp''"] by (metis append_Cons)
  have "list_all element (butlast ?es)" "element (last ?es)"
    using el False by (auto simp: list_all_iff dest: in_set_butlastD)
  then have fs: "list_all element ?fs" by (auto simp: element_def list_all_iff)
  have "elements (p @ ''.tmp'') = ?fs" unfolding pt using elements_join [OF fs] by simp
  moreover have "''..'' \<notin> set ?fs"
  proof -
    have "length (last ?es @ ''.tmp'') \<noteq> length ''..''" by simp
    then have "last ?es @ ''.tmp'' \<noteq> ''..''" by metis
    then show ?thesis using dots by (auto dest: in_set_butlastD)
  qed
  ultimately have "clean_elements (p @ ''.tmp'') = ?fs"
    using clean_stack_push [of ?fs "IsAbs (p @ ''.tmp'')" "[]"] unfolding clean_elements_def [of "p @ ''.tmp''"] by simp
  then show ?thesis using pt p(2) unfolding Clean_def by simp
qed

lemma tmp_name_differs:
  assumes "abs_clean p"
  shows "resolve s (p @ ''.tmp'') \<noteq> resolve s p"
proof -
  have "IsAbs p" "p \<noteq> []" using assms by (auto simp: abs_clean_def)
  then show ?thesis using Clean_tmp [OF assms] assms by (simp add: resolve_def abs_clean_def)
qed

lemma stateFilePath_abs: "IsAbs tmpDir \<Longrightarrow> abs_clean (stateFilePath tmpDir a b)"
  using Join_abs [of "[tmpDir, _, _]"] by (simp add: stateFilePath_def Let_def del: Join.simps)

section \<open>Saving and loading\<close>

text \<open>What saving does to the temporary file leaves the state file alone.\<close>

lemma tmp_written:
  assumes wf: "os_wf s" and p: "abs_clean p" and op: "os_OpenFile (p @ ''.tmp'') O_CREATE_TRUNC perm s = (Inr f, s1)"
    and wr: "os_WriteAt f d 0 s1 = ((n, r), s2)"
  shows "lookup s2 p = lookup s p" and "r = None \<Longrightarrow> d \<noteq> [] \<Longrightarrow> file_data s2 (p @ ''.tmp'') = Some d"
proof -
  let ?t = "p @ ''.tmp''"
  obtain i nd where i: "fds s1 f = Some (?t, i, True)" "lookup s1 ?t = Some (i, nd)" "i_data nd = []" "\<not> i_dir nd"
    by (rule OpenFile_lookup [OF op]) (auto simp: O_CREATE_TRUNC_def)
  have wf1: "os_wf s1" using os_wf_OpenFile [OF wf] op by (metis snd_conv)
  have "lookup s1 p = lookup s p" by (rule lookup_OpenFile_other [OF wf op]) (use tmp_name_differs [OF p] in metis)
  moreover have "lookup s2 p = lookup s1 p"
    by (rule lookup_WriteAt_other [OF wf1 i(1,2) wr]) (use tmp_name_differs [OF p] in metis)
  ultimately show "lookup s2 p = lookup s p" by simp
  assume "r = None" "d \<noteq> []"
  show "file_data s2 ?t = Some d" using wr [unfolded \<open>r = None\<close>]
  proof (cases rule: WriteAt_cases)
    case none
    then show ?thesis using \<open>d \<noteq> []\<close> by simp
  next
    case (put p' i' nd' k m)
    then have "i' = i" "nd' = nd" using i lookup_inode by auto
    then have "lookup s2 ?t = Some (i, m)" using put i(2) lookup_update [of s2 s1 i m ?t] by auto
    then show ?thesis using put i \<open>nd' = nd\<close> by (auto simp: file_data_def write_at_def)
  qed
qed

lemma save_cases:
  assumes wf: "os_wf s" and p: "abs_clean (rs_path st)" and sv: "saveResumeState js st s = (r, st', s')"
  shows "r \<noteq> None \<Longrightarrow> file_data s' (rs_path st) = file_data s (rs_path st)"
    and "r = None \<Longrightarrow> st' = st\<lparr>rs_Completed := sorted_list_of_set (rs_completedSet st)\<rparr>
          \<and> (\<exists>b. js_Encode js (json_of st') = Inr b \<and> (b \<noteq> [] \<longrightarrow> file_data s' (rs_path st) = Some b))"
proof -
  let ?p = "rs_path st" let ?t = "rs_path st @ ''.tmp''"
  let ?st = "st\<lparr>rs_Completed := sorted_list_of_set (rs_completedSet st)\<rparr>"
  obtain e1 s1 where m: "os_MkdirAll (Dir ?p) 493 s = (e1, s1)" by (cases "os_MkdirAll (Dir ?p) 493 s")
  have s1: "file_data s1 ?p = file_data s ?p" "os_wf s1"
    using file_data_MkdirAll [OF wf] os_wf_MkdirAll [OF wf] m by (metis snd_conv)+
  have pne: "?p \<noteq> []" using p by (auto simp: abs_clean_def)
  note tn = tmp_name_differs [OF p]
  have rm: "file_data (snd (os_Remove ?t u)) ?p = file_data u ?p" for u
    using lookup_Remove_other [of u ?p ?t] tn [of u] by (simp add: file_data_def)
  have cl: "file_data (os_Close f u) q = file_data u q" for f u q by (rule same_files_data [OF same_files_Close])
  have "(r \<noteq> None \<longrightarrow> file_data s' ?p = file_data s ?p)
    \<and> (r = None \<longrightarrow> st' = ?st \<and> (\<exists>b. js_Encode js (json_of ?st) = Inr b \<and> (b \<noteq> [] \<longrightarrow> file_data s' ?p = Some b)))"
  proof (cases e1)
    case (Some e)
    then show ?thesis using sv m s1 by (auto simp: saveResumeState_def)
  next
    case e1: None
    obtain x s2 where op: "os_OpenFile ?t O_CREATE_TRUNC 438 s1 = (x, s2)" by (cases "os_OpenFile ?t O_CREATE_TRUNC 438 s1")
    have s2: "file_data s2 ?p = file_data s ?p"
      using lookup_OpenFile_other [OF s1(2) op tn [symmetric]] s1(1) by (simp add: file_data_def)
    show ?thesis
    proof (cases x)
      case (Inl e)
      then show ?thesis using sv m e1 op s2 by (auto simp: saveResumeState_def Let_def)
    next
      case x: (Inr f)
      show ?thesis
      proof (cases "js_Encode js (json_of ?st)")
        case (Inl e)
        then show ?thesis using sv m e1 op x s2 rm cl by (auto simp: saveResumeState_def Let_def)
      next
        case b: (Inr b)
        obtain n w s3 where wr: "os_WriteAt f b 0 s2 = ((n, w), s3)" by (metis prod.exhaust)
        note tw = tmp_written [OF s1(2) p op [unfolded x] wr]
        have s3: "file_data s3 ?p = file_data s ?p" using tw(1) s1(1) by (simp add: file_data_def)
        show ?thesis
        proof (cases w)
          case (Some e)
          then show ?thesis using sv m e1 op x b wr s3 rm cl by (auto simp: saveResumeState_def Let_def)
        next
          case w: None
          obtain e4 s4 where c: "os_CloseErr f s3 = (e4, s4)" by (cases "os_CloseErr f s3")
          have s4: "file_data s4 q = file_data s3 q" for q
            using same_files_data [OF same_files_CloseErr [of s3 f], of q] c by simp
          show ?thesis
          proof (cases e4)
            case (Some e)
            then show ?thesis using sv m e1 op x b wr w c s3 s4 rm by (auto simp: saveResumeState_def Let_def)
          next
            case e4: None
            have "os_Rename ?t ?p s4 = (r, s')" "st' = ?st"
              using sv m e1 op x b wr w c e4 by (auto simp: saveResumeState_def Let_def split: prod.splits)
            then show ?thesis
              using Rename_lookup [of ?t ?p s4 r s'] pne b tw(2) w s4 s3
              by (auto simp: file_data_def same_files_lookup)
          qed
        qed
      qed
    qed
  qed
  then show "r \<noteq> None \<Longrightarrow> file_data s' ?p = file_data s ?p"
    and "r = None \<Longrightarrow> st' = ?st \<and> (\<exists>b. js_Encode js (json_of st') = Inr b \<and> (b \<noteq> [] \<longrightarrow> file_data s' ?p = Some b))"
    by blast+
qed

lemma load_data:
  assumes "no_faults s" and "file_data s (stateFilePath tmpDir a b) = Some d"
    and "js_Decode js d = Inr (1, ssize, csize, completed)"
  shows "fst (loadResumeState js tmpDir a b sourceSize chunkSize batch s)
    = (if ssize = sourceSize \<and> csize = chunkSize
       then Some \<lparr>rs_Version = 1, rs_SourceSize = sourceSize, rs_ChunkSize = chunkSize, rs_Completed = completed,
        rs_path = stateFilePath tmpDir a b, rs_completedSet = set completed, rs_pending = [], rs_batch = batch\<rparr>
       else None)"
proof -
  let ?p = "stateFilePath tmpDir a b"
  obtain i n where n: "lookup s ?p = Some (i, n)" "\<not> i_dir n" "i_data n = d"
    using assms(2) by (auto simp: file_data_def split: option.splits if_splits)
  obtain f s1 where f: "os_Open ?p s = (Inr f, s1)" "fds s1 f = Some (?p, i, False)" "inodes s1 i = Some n" "faults s1 = faults s"
    using assms(1) n lookup_inode [OF n(1)]
    by (auto simp: os_Open_def os_OpenFile_def no_faults_def tick_def open_ino_def Let_def)
  then have "os_ReadAll f s1 = (Inr d, s1\<lparr>ticks := Suc (ticks s1)\<rparr>)"
    using assms(1) n by (simp add: os_ReadAll_def tick_def no_faults_def)
  then show ?thesis using f assms(3) by (simp add: loadResumeState_def Let_def)
qed

text \<open>Loading reads only.\<close>

lemma load_files:
  "same_files s (snd (loadResumeState js tmpDir a b ss cs batch s))"
  "os_wf s \<Longrightarrow> os_wf (snd (loadResumeState js tmpDir a b ss cs batch s))"
  "coherent s \<Longrightarrow> os_wf s \<Longrightarrow> coherent (snd (loadResumeState js tmpDir a b ss cs batch s))"
proof -
  let ?p = "stateFilePath tmpDir a b"
  obtain x s1 where op: "os_Open ?p s = (x, s1)" by (cases "os_Open ?p s")
  have s1: "same_files s s1" "os_wf s \<Longrightarrow> os_wf s1" "coherent s \<Longrightarrow> os_wf s \<Longrightarrow> coherent s1"
    using op same_files_OpenFile [of _ s ?p 0] os_wf_OpenFile [of s ?p] coherent_OpenFile [of s ?p]
    unfolding os_Open_def by (metis OpenFlags.select_convs(2,3) snd_conv)+
  have l: "snd (loadResumeState js tmpDir a b ss cs batch s)
      = (case x of Inl e \<Rightarrow> s1 | Inr f \<Rightarrow> os_Close f (snd (os_ReadAll f s1)))"
    by (simp add: loadResumeState_def Let_def op split: sum.splits prod.splits)
  show "same_files s (snd (loadResumeState js tmpDir a b ss cs batch s))"
    unfolding l using s1(1) same_files_trans [OF same_files_trans [OF s1(1) same_files_ReadAll] same_files_Close]
    by (auto split: sum.splits)
  show "os_wf s \<Longrightarrow> os_wf (snd (loadResumeState js tmpDir a b ss cs batch s))"
    unfolding l using s1(2) by (auto split: sum.splits intro: os_wf_Close os_wf_ReadAll)
  show "coherent s \<Longrightarrow> os_wf s \<Longrightarrow> coherent (snd (loadResumeState js tmpDir a b ss cs batch s))"
    unfolding l using s1(2,3) by (auto split: sum.splits intro: coherent_Close coherent_calls)
qed

lemma Open_data:
  assumes "os_Open p s = (Inr f, s1)"
  shows "same_files s s1" and "\<exists>i n. fds s1 f = Some (p, i, False) \<and> lookup s1 p = Some (i, n)"
proof -
  show "same_files s s1" using same_files_Open [of s p] assms by simp
  obtain i n where "fds s1 f = Some (p, i, o_rdwr \<lparr>o_rdwr = False, o_create = False, o_trunc = False\<rparr>)"
      "lookup s1 p = Some (i, n)"
    by (rule OpenFile_lookup [OF assms [unfolded os_Open_def]])
  then show "\<exists>i n. fds s1 f = Some (p, i, False) \<and> lookup s1 p = Some (i, n)" by simp
qed

lemma Open_read:
  assumes "os_Open p s = (Inr f, s1)" and "os_ReadAll f s1 = (Inr b, s2)"
  shows "file_data s p = Some b"
proof -
  obtain i n where i: "fds s1 f = Some (p, i, False)" "lookup s1 p = Some (i, n)" using Open_data(2) [OF assms(1)] by blast
  obtain m where "inodes s1 i = Some m" "\<not> i_dir m" "b = i_data m" using ReadAll_open [OF assms(2) i(1)] by blast
  then have "file_data s1 p = Some b" using i(2) lookup_inode by (fastforce simp: file_data_def)
  then show ?thesis using same_files_data [OF Open_data(1) [OF assms(1)]] by simp
qed

lemma on_client_simps:
  "on_client m x = (r, x') \<Longrightarrow> \<exists>cc w. m (x_cc x, x_net x) = (r, cc, w) \<and> x' = x\<lparr>x_cc := cc, x_net := w\<rparr>"
  by (cases "m (x_cc x, x_net x)") (auto simp: on_client_def)

lemma on_client_keeps:
  "on_client m x = (r, x') \<Longrightarrow> x_os x' = x_os x \<and> x_state x' = x_state x"
  using on_client_simps by fastforce

text \<open>Comparing hashes changes no local file.\<close>

lemma verifyFileHash_local:
  assumes "verifyFileHash call remotePath localPath x = (r, x')"
  shows "same_files (x_os x) (x_os x') \<and> x_state x' = x_state x"
proof -
  obtain h x1 where c: "on_client (cc_Hash call remotePath) x = (h, x1)" by (cases "on_client (cc_Hash call remotePath) x")
  obtain e s1 where op: "os_Open localPath (x_os x) = (e, s1)" by (cases "os_Open localPath (x_os x)")
  have s1: "same_files (x_os x) s1" using same_files_Open [of "x_os x" localPath] op by simp
  have rd: "same_files (x_os x) (os_Close f t)" if "os_ReadAll f s1 = (b, t)" for f b t
    using same_files_trans [OF same_files_trans [OF s1 same_files_ReadAll] same_files_Close, of f f] that by simp
  have x1: "x_os x1 = x_os x" "x_state x1 = x_state x" using on_client_keeps [OF c] by simp_all
  show ?thesis
    using assms c op x1 s1 by (auto simp: verifyFileHash_def intro: rd split: sum.splits MSG.splits if_splits prod.splits)
qed

text \<open>Without a state file nothing is loaded.\<close>

lemma load_fresh:
  assumes "file_data s (stateFilePath tmpDir a b) = None"
  shows "fst (loadResumeState js tmpDir a b ss cs batch s) = None"
  using assms Open_read [of "stateFilePath tmpDir a b" s]
  by (fastforce simp: loadResumeState_def Let_def split: sum.splits prod.splits)

lemma load_missing:
  assumes "no_faults s" and "lookup s (stateFilePath tmpDir a b) = None"
  shows "loadResumeState js tmpDir a b ss cs batch s = (None, s\<lparr>ticks := Suc (ticks s)\<rparr>)"
  using assms by (simp add: loadResumeState_def Let_def os_Open_def os_OpenFile_def tick_def no_faults_def)

section \<open>A concrete state\<close>

lemma hex_digit_no_slash: "m < 16 \<Longrightarrow> CHR ''/'' \<noteq> hex_digit m"
proof -
  have "list_all (\<lambda>m. CHR ''/'' \<noteq> hex_digit m) [0..<16]" by code_simp
  then show "m < 16 \<Longrightarrow> CHR ''/'' \<noteq> hex_digit m" by (simp add: list_all_iff)
qed

lemma hex_no_slash: "CHR ''/'' \<notin> set (EncodeToString b)"
proof (induction b)
  case (Cons x b)
  have "unat x div 16 < 16" "unat x mod 16 < 16" using unsigned_less [of x, where ?'a = nat] by auto
  then show ?case using Cons hex_digit_no_slash by (simp add: EncodeToString_def)
qed (simp add: EncodeToString_def)

lemma stateFilePath_tmp:
  obtains h where "stateFilePath ''/tmp'' a b = ''/tmp/gcp/'' @ h" "CHR ''/'' \<notin> set h" "h \<noteq> []"
proof -
  let ?n = "''gcp-resume-'' @ EncodeToString (take 16 (Sum256 (bytes_of (a @ '':'' @ b)))) @ ''.json''"
  have n: "list_all element [''tmp'', ''gcp'', ?n]" using hex_no_slash by (simp add: element_def)
  have "elements (''/tmp/gcp/'' @ ?n) = [''tmp'', ''gcp'', ?n]" using elements_join [OF n] by simp
  then have "stateFilePath ''/tmp'' a b = ''/tmp/gcp/'' @ ?n"
    by (simp add: stateFilePath_def Let_def Clean_def clean_elements_def)
  then show thesis using that hex_no_slash by fastforce
qed

lemma Dir_word:
  assumes "CHR ''/'' \<notin> set w"
  shows "Dir (d @ CHR ''/'' # w) = Clean (d @ ''/'')"
proof -
  have "\<And>x. x \<in> set (rev w) \<Longrightarrow> x \<noteq> CHR ''/''" using assms by auto
  then show ?thesis using dropWhile_append2 [of "rev w" "\<lambda>c. c \<noteq> CHR ''/''"] by (simp add: Dir_def Split_def)
qed

definition sample_json :: json_lib where
  "sample_json = \<lparr>js_Encode = (\<lambda>x. if x = (1, 8, 4, [0]) then Inr [123] else Inl ErrEOF),
     js_Decode = (\<lambda>b. if b = [123] then Inr (1, 8, 4, [0]) else Inl ErrEOF)\<rparr>"

lemma sample_json_ok: "json_ok sample_json"
  by (simp add: json_ok_def sample_json_def)

definition sample_tmp :: os_state where
  "sample_tmp = empty_os\<lparr>names := [(''/'', 0), (''/tmp'', 1), (''/tmp/gcp'', 2)],
     inodes := (\<lambda>i. if i < 3 then Some \<lparr>i_dir = True, i_data = [], i_mode = 493, i_mtime = 0\<rparr> else None), next_ino := 3\<rparr>"

definition sample_state :: resumeState where
  "sample_state = \<lparr>rs_Version = 1, rs_SourceSize = 8, rs_ChunkSize = 4, rs_Completed = [],
     rs_path = stateFilePath ''/tmp'' ''a'' ''b'', rs_completedSet = {0}, rs_pending = [0], rs_batch = 4\<rparr>"

lemma sample_tmp_ok: "os_wf sample_tmp" "no_faults sample_tmp"
  by (auto simp: os_wf_def no_faults_def sample_tmp_def empty_os_def)

lemma sample_saved: "fst (saveResumeState sample_json sample_state sample_tmp) = None"
proof -
  obtain h where p: "stateFilePath ''/tmp'' ''a'' ''b'' = ''/tmp/gcp/'' @ h" "CHR ''/'' \<notin> set h" "h \<noteq> []"
    by (rule stateFilePath_tmp)
  have abs: "abs_clean (''/tmp/gcp/'' @ h)" using stateFilePath_abs [of "''/tmp''" "''a''" "''b''"] p(1) by simp
  have c: "Clean (''/tmp/gcp/'' @ h) = ''/tmp/gcp/'' @ h" "Clean (''/tmp/gcp/'' @ h @ ''.tmp'') = ''/tmp/gcp/'' @ h @ ''.tmp''"
    using abs Clean_tmp [OF abs] by (simp_all add: abs_clean_def)
  have "Clean ''/tmp/gcp/'' = ''/tmp/gcp''" by code_simp
  then have d: "Dir (''/tmp/gcp/'' @ h) = ''/tmp/gcp''" "Dir (''/tmp/gcp/'' @ h @ ''.tmp'') = ''/tmp/gcp''"
    using p(2) Dir_word [of h "''/tmp/gcp''"] Dir_word [of "h @ ''.tmp''" "''/tmp/gcp''"] by simp_all
  have g: "Clean ''/tmp/gcp'' = ''/tmp/gcp''" "Clean ''/tmp'' = ''/tmp''" by code_simp+
  have m: "os_MkdirAll ''/tmp/gcp'' 493 sample_tmp = (None, sample_tmp)"
    using g by (simp add: os_MkdirAll_def resolve_def ancestors_def elements_def path_of_def lookup_def
        sample_tmp_def empty_os_def)
  show ?thesis
    using p(3) c d m g unfolding saveResumeState_def sample_state_def p(1)
    by (simp add: os_OpenFile_def os_WriteAt_def os_CloseErr_def os_Rename_def tick_def lookup_def resolve_def
        sample_tmp_def empty_os_def sample_json_def json_of_def O_CREATE_TRUNC_def open_ino_def add_inode_def
        is_directory_def os_Close_def Let_def)
qed

text \<open>C13: the state file is never torn: whatever system call fails while the resume state is saved, the
  state file has either its contents from before or, exactly when saving reports success, the complete
  new encoding.\<close>

theorem saveResumeState_atomic:
  assumes "os_wf s" and "json_ok js" and "IsAbs tmpDir" and "rs_path st = stateFilePath tmpDir a b"
    and "saveResumeState js st s = (r, st', s')"
  shows "(r \<noteq> None \<longrightarrow> file_data s' (stateFilePath tmpDir a b) = file_data s (stateFilePath tmpDir a b))
    \<and> (r = None \<longrightarrow> (\<exists>d. js_Encode js (json_of st') = Inr d \<and> file_data s' (stateFilePath tmpDir a b) = Some d))"
  using save_cases [OF assms(1) _ assms(5)] stateFilePath_abs [OF assms(3)] assms(2,4)
  unfolding json_ok_def by metis

theorem saveResumeState_atomic_witness:
  "\<exists>st' s'. saveResumeState sample_json sample_state sample_tmp = (None, st', s')
     \<and> (\<exists>d. js_Encode sample_json (json_of st') = Inr d \<and> file_data s' (stateFilePath ''/tmp'' ''a'' ''b'') = Some d)"
  using saveResumeState_atomic [of sample_tmp sample_json "''/tmp''" sample_state "''a''" "''b''"]
    sample_tmp_ok sample_json_ok sample_saved
  by (cases "saveResumeState sample_json sample_state sample_tmp") (auto simp: sample_state_def)

text \<open>C30: a resume state that was saved is loaded again by the next transfer between the same source and
  target, with the same size of the source and of the chunks: the same set of completed chunks, no
  pending ones and the batch of the new transfer; for another size of the source or of the chunks it
  is ignored.\<close>

theorem save_load_roundtrip:
  assumes "os_wf s" and "no_faults s" and "json_ok js" and "IsAbs tmpDir"
    and "rs_path st = stateFilePath tmpDir a b" and "rs_Version st = 1" and "finite (rs_completedSet st)"
    and "saveResumeState js st s = (None, st', s')"
  shows "fst (loadResumeState js tmpDir a b sourceSize chunkSize batch s')
      = (if rs_SourceSize st = sourceSize \<and> rs_ChunkSize st = chunkSize
         then Some (st'\<lparr>rs_pending := [], rs_batch := batch\<rparr>) else None)
    \<and> rs_completedSet st' = rs_completedSet st"
proof -
  have abs: "abs_clean (rs_path st)" using stateFilePath_abs [OF assms(4)] assms(5) by simp
  obtain d where st': "st' = st\<lparr>rs_Completed := sorted_list_of_set (rs_completedSet st)\<rparr>"
    and d: "js_Encode js (json_of st') = Inr d" "d \<noteq> [] \<longrightarrow> file_data s' (rs_path st) = Some d"
    using save_cases(2) [OF assms(1) abs assms(8)] by auto
  have dec: "js_Decode js d = Inr (json_of st')" "d \<noteq> []" using d(1) assms(3) unfolding json_ok_def by blast+
  have "faults s' = faults s"
    using assms(8) unfolding saveResumeState_def Let_def
    by (auto split: prod.splits option.splits sum.splits dest!: arg_cong [where f = "\<lambda>x. faults (snd x)"])
  then have "no_faults s'" using assms(2) by (simp add: no_faults_def)
  then have "fst (loadResumeState js tmpDir a b sourceSize chunkSize batch s')
      = (if rs_SourceSize st = sourceSize \<and> rs_ChunkSize st = chunkSize
         then Some \<lparr>rs_Version = 1, rs_SourceSize = sourceSize, rs_ChunkSize = chunkSize,
          rs_Completed = rs_Completed st', rs_path = stateFilePath tmpDir a b,
          rs_completedSet = set (rs_Completed st'), rs_pending = [], rs_batch = batch\<rparr> else None)"
    using d dec assms(5,6) st' by (intro load_data) (auto simp: json_of_def)
  then show ?thesis using st' assms(5-7) by simp
qed

theorem save_load_roundtrip_witness:
  "\<exists>st' s'. saveResumeState sample_json sample_state sample_tmp = (None, st', s')
     \<and> fst (loadResumeState sample_json ''/tmp'' ''a'' ''b'' 8 4 16 s') = Some (st'\<lparr>rs_pending := [], rs_batch := 16\<rparr>)"
  using save_load_roundtrip [of sample_tmp sample_json "''/tmp''" sample_state "''a''" "''b''" _ _ 8 4 16]
    sample_tmp_ok sample_json_ok sample_saved
  by (cases "saveResumeState sample_json sample_state sample_tmp") (auto simp: sample_state_def)

end
