(* ===== verification/Session.thy ===== *)
theory Session
  imports Rpc Resume
begin

text \<open>
  The requests of an authenticated client, together with what the server does for them. The
  invariant \<open>session_ok\<close> links the two ends: the connection is authenticated and both have the same
  encryption key. Every request keeps it; the lemmas say what the response means for the files of
  the server.
\<close>

definition session_ok :: "connid \<Rightarrow> connAuth \<Rightarrow> copierClient \<Rightarrow> copierServer \<Rightarrow> bool" where
  "session_ok conn ca cc srv \<longleftrightarrow>
     srv_inv srv \<and> coherent (srv_os srv) \<and> srv_ctx srv conn = Some ca \<and> ca_state ca = authOK
   \<and> (cc_useEncryption cc \<longrightarrow> cc_encryptionKey cc = ca_encryptionKey ca)"

text \<open>What is relied on of the libraries behind the coding of chunks.\<close>

definition codec_ok :: "codec_lib \<Rightarrow> (nat \<Rightarrow> goerror + bytes) \<Rightarrow> bool" where
  "codec_ok lib rnd \<longleftrightarrow> (\<forall>d. gzip_ok lib d) \<and> (\<forall>nonce key d. box_ok lib nonce key d)
     \<and> (\<forall>nonce. rnd 24 = Inr nonce \<longrightarrow> length nonce = 24)"

text \<open>Requests change nothing of the client but the number of the next request.\<close>

definition same_client :: "copierClient \<Rightarrow> copierClient \<Rightarrow> bool" where
  "same_client cc cc' \<longleftrightarrow> (\<exists>i. cc' = cc\<lparr>cc_id := i\<rparr>)"

lemma same_client_refl [simp]: "same_client cc cc"
  unfolding same_client_def by (intro exI [of _ "cc_id cc"]) simp

lemma same_client_id [simp]: "same_client cc (cc\<lparr>cc_id := i\<rparr>)"
  unfolding same_client_def by blast

lemma same_client_trans: "same_client a b \<Longrightarrow> same_client b c \<Longrightarrow> same_client a c"
  unfolding same_client_def by auto

lemma same_client_fields:
  "same_client cc cc' \<Longrightarrow> cc_useEncryption cc' = cc_useEncryption cc \<and> cc_encryptionKey cc' = cc_encryptionKey cc
     \<and> cc_useChecksum cc' = cc_useChecksum cc \<and> cc_batch cc' = cc_batch cc"
  unfolding same_client_def by auto

lemma codec_chunk:
  assumes "codec_ok lib rnd" and "compressChunk lib d algo = Inr (c, a)"
  shows "decompressChunk lib c a = Inr d" and "encryptChunk lib rnd c key = Inr e \<Longrightarrow> decryptChunk lib e key = Inr c"
  using assms compress_decompress [of lib d algo c a] encrypt_decrypt [of lib rnd c key e] unfolding codec_ok_def by blast+

text \<open>The server makes of the payload of \<open>Write\<close> the bytes the client started from.\<close>

lemma write_coding_payload:
  assumes lib: "codec_ok lib rnd" and key: "cc_useEncryption cc \<longrightarrow> cc_encryptionKey cc = key"
    and w: "write_coding lib rnd cc d algo = Inr (toSend, a, enc)"
    and req: "wreq_Checksum req = 0 \<or> wreq_Checksum req = ChecksumIEEE toSend" "wreq_Compression req = a" "wreq_Encryption req = enc"
  shows "write_payload lib req toSend key = Inr d"
proof -
  obtain c where c: "compressChunk lib d algo = Inr (c, a)"
    using w by (auto simp: write_coding_def split: sum.splits prod.splits if_splits)
  note u = codec_chunk [OF lib c]
  have ne: "EncryptionNone \<noteq> EncryptionSecretBox" by (simp add: EncryptionNone_def EncryptionSecretBox_def)
  show ?thesis
    using w req u key ne by (auto simp: write_coding_def c write_payload_def split: sum.splits if_splits)
qed

section \<open>Dispatch for an authenticated connection\<close>

lemma handle_authed:
  assumes "srv_ctx srv conn = Some ca" and "ca_state ca = authOK"
  shows "handle_msg env rnd \<lparr>wm_msg = MCreateReq q1, wm_payload = p, wm_conn = conn\<rparr> srv = srv_create conn q1 (Some ca) srv"
    and "handle_msg env rnd \<lparr>wm_msg = MWriteReq q2, wm_payload = p, wm_conn = conn\<rparr> srv = srv_write (env_codec env) conn q2 p ca srv"
    and "handle_msg env rnd \<lparr>wm_msg = MReadReq q3, wm_payload = p, wm_conn = conn\<rparr> srv = srv_read (env_codec env) rnd conn q3 ca srv"
    and "handle_msg env rnd \<lparr>wm_msg = MStatReq q4, wm_payload = p, wm_conn = conn\<rparr> srv = srv_stat conn q4 (Some ca) srv"
    and "handle_msg env rnd \<lparr>wm_msg = MReadDirReq q5, wm_payload = p, wm_conn = conn\<rparr> srv = srv_readDir conn q5 (Some ca) srv"
    and "handle_msg env rnd \<lparr>wm_msg = MHashReq q6, wm_payload = p, wm_conn = conn\<rparr> srv = srv_hash conn q6 (Some ca) srv"
  using assms by (simp_all add: handle_msg_def getConnAuth_def)

lemma session_okD:
  "session_ok conn ca cc srv \<Longrightarrow> srv_inv srv" "session_ok conn ca cc srv \<Longrightarrow> coherent (srv_os srv)"
  "session_ok conn ca cc srv \<Longrightarrow> srv_ctx srv conn = Some ca" "session_ok conn ca cc srv \<Longrightarrow> ca_state ca = authOK"
  by (simp_all add: session_ok_def)

lemma session_ok_next:
  assumes "session_ok conn ca cc srv" and "replied conn i t srv srv'" and "coherent (srv_os srv')" and "same_client cc cc'"
  shows "session_ok conn ca cc' srv'"
  using assms same_client_fields [OF assms(4)] replied_inv [OF assms(2)] replied_same_auth [OF assms(2)]
  by (auto simp: session_ok_def same_auth_def)

lemma session_request:
  assumes ok: "session_ok conn ca cc srv" and rep: "replied conn i t srv s" and out: "srv_out s = srv_out srv @ [(conn, m', p')]"
    and co: "coherent (srv_os s)" and call: "request (direct_call env rnd conn) mk p (cc, srv) = (r, cc', srv')"
    and h: "handle_msg env rnd \<lparr>wm_msg = mk (fst (genMsgID (cc_id cc))), wm_payload = p, wm_conn = conn\<rparr> srv = s"
  shows "r = Inr (m', p') \<and> srv' = s \<and> same_client cc cc' \<and> session_ok conn ca cc' s"
proof -
  have "request (direct_call env rnd conn) mk p (cc, srv) = (Inr (m', p'), cc\<lparr>cc_id := snd (genMsgID (cc_id cc))\<rparr>, s)"
    using direct_call_reply [of env rnd "mk (fst (genMsgID (cc_id cc)))" p conn srv conn m' p'] out h
    by (simp add: request_def case_prod_beta Let_def)
  then show ?thesis using call session_ok_next [OF ok rep co, of cc'] by auto
qed

section \<open>Write\<close>

definition write_result ::
  "bytes \<Rightarrow> int64 \<Rightarrow> string \<Rightarrow> copierServer \<Rightarrow> copierServer \<Rightarrow> goerror + (MSG \<times> bytes) \<Rightarrow> bool" where
  "write_result d off p srv srv' r \<longleftrightarrow>
     (case r of
        Inl e \<Rightarrow> srv' = srv
      | Inr (m, q) \<Rightarrow>
          (\<exists>res. m = MWriteRes res \<and>
             (if wres_Success res
              then 0 \<le> off \<and> (\<exists>c. file_data (srv_os srv) p = Some c \<and> file_data (srv_os srv') p = Some (write_at c (nat off) d))
              else \<exists>k. file_data (srv_os srv') p = map_option (\<lambda>c. write_at c (nat off) (take k d)) (file_data (srv_os srv) p))))"

lemma cc_Write_effect:
  assumes ok: "session_ok conn ca cc srv" and lib: "codec_ok (env_codec env) crnd" and d: "d \<noteq> []"
    and path: "sandboxPath (Some ca) target = Inr p"
    and call: "cc_Write (env_codec env) crnd (direct_call env rnd conn) target off d algo (cc, srv) = (r, cc', srv')"
  shows "session_ok conn ca cc' srv' \<and> same_client cc cc' \<and> write_result d off p srv srv' r"
proof (cases "write_coding (env_codec env) crnd cc d algo")
  case (Inl e)
  then show ?thesis using call ok by (auto simp: cc_Write_def write_result_def)
next
  case (Inr x)
  obtain toSend a enc where x: "x = (toSend, a, enc)" by (cases x)
  let ?i = "fst (genMsgID (cc_id cc))"
  let ?mk = "\<lambda>i. \<lparr>wreq_ID = i, wreq_Path = target, wreq_Offset = off,
      wreq_Checksum = (if cc_useChecksum cc \<and> toSend \<noteq> [] then ChecksumIEEE toSend else 0),
      wreq_Compression = a, wreq_Encryption = enc\<rparr>"
  let ?s = "srv_write (env_codec env) conn (?mk ?i) toSend ca srv"
  have pay: "write_payload (env_codec env) (?mk ?i) toSend (ca_encryptionKey ca) = Inr d"
    using ok by (intro write_coding_payload [OF lib _ Inr [unfolded x]]) (auto simp: session_ok_def)
  note eff = srv_write_effect [OF session_okD(1,2) [OF ok] pay d, where conn = conn and p = p and srv' = ?s]
  have rep: "replied conn ?i WriteResT srv ?s" using srv_write_replied [OF session_okD(1) [OF ok], of conn "?mk ?i"] by simp
  have call': "request (direct_call env rnd conn) (\<lambda>i. MWriteReq (?mk i)) toSend (cc, srv) = (r, cc', srv')"
    using call Inr by (simp add: cc_Write_def x)
  have co: "coherent (srv_os ?s)" and two: "write_done conn (?mk ?i) d p srv ?s \<or> write_refused conn (?mk ?i) d p srv ?s"
    using eff path by auto
  obtain res where res: "srv_out ?s = srv_out srv @ [(conn, MWriteRes res, [])]" "write_result d off p srv ?s (Inr (MWriteRes res, []))"
    using two
  proof
    assume "write_refused conn (?mk ?i) d p srv ?s"
    then obtain err k where "srv_out ?s = srv_out srv @ [(conn, MWriteRes \<lparr>wres_ID = ?i, wres_Success = False,
         wres_N = 0, wres_Error = err\<rparr>, [])]"
      "file_data (srv_os ?s) p = map_option (\<lambda>c. write_at c (nat off) (take k d)) (file_data (srv_os srv) p)"
      unfolding write_refused_def by auto
    then show thesis by (intro that) (auto simp: write_result_def)
  qed (use that in \<open>auto simp: write_done_def write_result_def\<close>)
  have "r = Inr (MWriteRes res, []) \<and> srv' = ?s \<and> same_client cc cc' \<and> session_ok conn ca cc' ?s"
    by (rule session_request [OF ok rep res(1) co call']) (rule handle_authed(2) [OF session_okD(3,4) [OF ok]])
  then show ?thesis using res(2) by blast
qed

lemma replied_out:
  assumes "replied conn i t srv srv'"
  obtains m p where "srv_out srv' = srv_out srv @ [(conn, m, p)]" "GetID m = i" "Type m = t"
  using replied_answers [OF assms] unfolding answers_def by blast

text \<open>The session outlives any write, also of no bytes.\<close>

lemma srv_write_coherent:
  assumes inv: "srv_inv srv" "coherent (srv_os srv)"
  shows "coherent (srv_os (srv_write lib conn req payload ca srv))"
proof -
  have fi: "fc_inv (srv_fdCache srv, srv_os srv)" by (rule srv_invD [OF inv(1)])
  have g: "coherent s1" if "fc_get p True (get_cache srv) = (x, fc, s1)" for p x fc s1
    using fc_get_files [OF fi inv(2)] that by (auto simp: get_cache_def)
  have w: "coherent s2" if "os_WriteAt f d off s1 = (r, s2)" "coherent s1" for f d off s1 r s2
    using coherent_calls(7) [OF that(2), of f d off] that(1) by simp
  have e: "coherent (snd (fc_evict p (fc, t)))" if "coherent t" for p fc t
    using fc_evict_files [OF that, of p fc] by (metis prod.collapse)
  show ?thesis
    using inv(2)
    by (auto simp: srv_write_def writeFailed_def writeSuccess_def dest!: g intro: w e
        split: sum.splits prod.splits option.splits)
qed

lemma cc_Write_session:
  assumes ok: "session_ok conn ca cc srv"
    and call: "cc_Write (env_codec env) crnd (direct_call env rnd conn) target off d algo (cc, srv) = (r, cc', srv')"
  shows "session_ok conn ca cc' srv'"
proof (cases "write_coding (env_codec env) crnd cc d algo")
  case (Inl e)
  then show ?thesis using call ok by (auto simp: cc_Write_def)
next
  case (Inr x)
  obtain toSend a enc where x: "x = (toSend, a, enc)" by (cases x)
  let ?i = "fst (genMsgID (cc_id cc))"
  let ?mk = "\<lambda>i. \<lparr>wreq_ID = i, wreq_Path = target, wreq_Offset = off,
      wreq_Checksum = (if cc_useChecksum cc \<and> toSend \<noteq> [] then ChecksumIEEE toSend else 0),
      wreq_Compression = a, wreq_Encryption = enc\<rparr>"
  let ?s = "srv_write (env_codec env) conn (?mk ?i) toSend ca srv"
  have call': "request (direct_call env rnd conn) (\<lambda>i. MWriteReq (?mk i)) toSend (cc, srv) = (r, cc', srv')"
    using call Inr by (simp add: cc_Write_def x)
  have rep: "replied conn ?i WriteResT srv ?s" using srv_write_replied [OF session_okD(1) [OF ok], of conn "?mk ?i"] by simp
  obtain m q where out: "srv_out ?s = srv_out srv @ [(conn, m, q)]" by (rule replied_out [OF rep])
  have "r = Inr (m, q) \<and> srv' = ?s \<and> same_client cc cc' \<and> session_ok conn ca cc' ?s"
    by (rule session_request [OF ok rep out srv_write_coherent [OF session_okD(1,2) [OF ok]] call'])
       (rule handle_authed(2) [OF session_okD(3,4) [OF ok]])
  then show ?thesis by simp
qed

section \<open>Create, stat and hash\<close>

lemma cc_Create_effect:
  assumes ok: "session_ok conn ca cc srv" and path: "sandboxPath (Some ca) target = Inr p"
    and call: "cc_Create (direct_call env rnd conn) target sz mode (cc, srv) = (r, cc', srv')"
  shows "session_ok conn ca cc' srv' \<and> same_client cc cc' \<and>
    (\<exists>res q. r = Inr (MCreateRes res, q) \<and> (cres_Success res \<longrightarrow>
       (\<exists>c. file_data (srv_os srv') p = Some c \<and> (file_data (srv_os srv) p = Some c \<or> length c = nat sz))))"
proof -
  let ?i = "fst (genMsgID (cc_id cc))"
  let ?mk = "\<lambda>i. zeroCreateReq\<lparr>creq_ID := i, creq_Size := sz, creq_Mode := mode, creq_Path := target\<rparr>"
  let ?s = "srv_create conn (?mk ?i) (Some ca) srv"
  obtain e s1 where c: "create_file (?mk ?i) p (srv_os srv) = (e, s1)" by (cases "create_file (?mk ?i) p (srv_os srv)")
  have wf: "os_wf (srv_os srv)" using fc_invD(2) srv_invD session_okD(1) [OF ok] by blast
  have nd: "\<not> creq_IsDir (?mk ?i)" by (simp add: zeroCreateReq_def)
  note eff = create_file_effect [OF wf session_okD(2) [OF ok] nd c]
  have rep: "replied conn ?i CreateResT srv ?s" using srv_create_replied [OF session_okD(1) [OF ok], of conn "?mk ?i"] by simp
  have s: "srv_os ?s = s1" "\<exists>res. srv_out ?s = srv_out srv @ [(conn, MCreateRes res, [])] \<and> (cres_Success res \<longleftrightarrow> e = None)"
    using path c by (auto simp: srv_create_def createFailed_def createSuccess_def split: option.splits)
  then obtain res where res: "srv_out ?s = srv_out srv @ [(conn, MCreateRes res, [])]" "cres_Success res \<longleftrightarrow> e = None" by blast
  have call': "request (direct_call env rnd conn) (\<lambda>i. MCreateReq (?mk i)) [] (cc, srv) = (r, cc', srv')"
    using call by (simp add: cc_Create_def)
  have co: "coherent (srv_os ?s)" using eff(1) s(1) by simp
  have "r = Inr (MCreateRes res, []) \<and> srv' = ?s \<and> same_client cc cc' \<and> session_ok conn ca cc' ?s"
    by (rule session_request [OF ok rep res(1) co call']) (rule handle_authed(1) [OF session_okD(3,4) [OF ok]])
  then show ?thesis using eff(2) s(1) res(2) by simp
qed

lemma cc_Stat_effect:
  assumes ok: "session_ok conn ca cc srv" and path: "sandboxPath (Some ca) target = Inr p"
    and call: "cc_Stat (direct_call env rnd conn) target (cc, srv) = (r, cc', srv')"
  shows "session_ok conn ca cc' srv' \<and> same_client cc cc' \<and> same_files (srv_os srv) (srv_os srv')
    \<and> faults (srv_os srv') = faults (srv_os srv) \<and>
    (\<exists>res q. r = Inr (MStatRes res, q) \<and> (sres_Success res \<and> \<not> sres_IsDir res \<longrightarrow>
       (\<exists>c. file_data (srv_os srv) p = Some c \<and> sres_Size res = int (length c)))
       \<and> (sres_Success res \<and> sres_IsDir res \<longrightarrow> file_data (srv_os srv) p = None))"
proof -
  let ?i = "fst (genMsgID (cc_id cc))"
  let ?mk = "\<lambda>i. \<lparr>sreq_ID = i, sreq_Path = target\<rparr>"
  let ?s = "srv_stat conn (?mk ?i) (Some ca) srv"
  obtain e s1 where st: "os_Stat p (srv_os srv) = (e, s1)" by (cases "os_Stat p (srv_os srv)")
  have sf: "same_files (srv_os srv) s1" "faults s1 = faults (srv_os srv)"
    using st by (auto simp: os_Stat_def same_files_def tick_def split: option.splits)
  have rep: "replied conn ?i StatResT srv ?s" using srv_stat_replied [OF session_okD(1) [OF ok], of conn "?mk ?i"] by simp
  have info: "\<exists>c. file_data (srv_os srv) p = Some c \<and> fi_Size i = int (length c)" if "e = Inr i" "\<not> fi_IsDir i" for i
    using st that by (auto simp: os_Stat_def tick_def file_data_def info_of_def split: option.splits)
  have isdir: "file_data (srv_os srv) p = None" if "e = Inr i" "fi_IsDir i" for i
    using st that by (auto simp: os_Stat_def tick_def file_data_def info_of_def split: option.splits)
  obtain res where res: "srv_out ?s = srv_out srv @ [(conn, MStatRes res, [])]"
      "sres_Success res \<and> \<not> sres_IsDir res \<longrightarrow> (\<exists>c. file_data (srv_os srv) p = Some c \<and> sres_Size res = int (length c))"
      "sres_Success res \<and> sres_IsDir res \<longrightarrow> file_data (srv_os srv) p = None"
    and os: "srv_os ?s = s1"
    using path st info isdir by (cases e) (auto simp: srv_stat_def zeroStatRes_def)
  have co: "coherent s1" using coherent_calls(1) [OF session_okD(2) [OF ok], of p] st by simp
  have call': "request (direct_call env rnd conn) (\<lambda>i. MStatReq (?mk i)) [] (cc, srv) = (r, cc', srv')"
    using call by (simp add: cc_Stat_def)
  have "r = Inr (MStatRes res, []) \<and> srv' = ?s \<and> same_client cc cc' \<and> session_ok conn ca cc' ?s"
    by (rule session_request [OF ok rep res(1) _ call'])
       (use co os in simp, rule handle_authed(4) [OF session_okD(3,4) [OF ok]])
  then show ?thesis using os res(2,3) sf by auto
qed

lemma cc_Hash_effect:
  assumes ok: "session_ok conn ca cc srv" and path: "sandboxPath (Some ca) target = Inr p"
    and call: "cc_Hash (direct_call env rnd conn) target (cc, srv) = (r, cc', srv')"
  shows "session_ok conn ca cc' srv' \<and> same_client cc cc' \<and> same_files (srv_os srv) (srv_os srv') \<and>
    (\<exists>res q. r = Inr (MHashRes res, q) \<and> (hres_Success res \<longrightarrow>
       (\<exists>c. file_data (srv_os srv) p = Some c \<and> hres_Hash res = Sum256 c)))"
proof -
  let ?i = "fst (genMsgID (cc_id cc))"
  let ?mk = "\<lambda>i. \<lparr>hreq_ID = i, hreq_Path = target\<rparr>"
  let ?s = "srv_hash conn (?mk ?i) (Some ca) srv"
  have fi: "fc_inv (srv_fdCache srv, srv_os srv)" by (rule srv_invD [OF session_okD(1) [OF ok]])
  obtain x fc s1 where g: "fc_get p False (get_cache srv) = (x, fc, s1)" by (cases "fc_get p False (get_cache srv)") auto
  have s1: "coherent s1" "same_files (srv_os srv) s1"
    using fc_get_files [OF fi session_okD(2) [OF ok]] g by (auto simp: get_cache_def)
  have ev: "coherent (snd (fc_evict p (fc, t))) \<and> same_files (srv_os srv) (snd (fc_evict p (fc, t)))"
    if "coherent t" "same_files (srv_os srv) t" for t
    using fc_evict_files [OF that(1), of p fc] that(2) same_files_trans by (metis prod.collapse)
  have "\<exists>res. srv_out ?s = srv_out srv @ [(conn, MHashRes res, [])] \<and> coherent (srv_os ?s) \<and> same_files (srv_os srv) (srv_os ?s)
      \<and> (hres_Success res \<longrightarrow> (\<exists>c. file_data (srv_os srv) p = Some c \<and> hres_Hash res = Sum256 c))"
  proof (cases x)
    case (Inl e)
    then show ?thesis using path g ev [OF s1] by (simp add: srv_hash_def hashFailed_def zeroHashRes_def)
  next
    case (Inr f)
    obtain i w where f: "fds s1 f = Some (p, i, w)"
      using fc_get_usable [OF fi] g Inr by (fastforce simp: get_cache_def)
    obtain e s2 where sk: "fd_Seek f s1 = (e, s2)" by (cases "fd_Seek f s1")
    have s2: "coherent s2" "same_files (srv_os srv) s2" "fds s2 = fds s1"
      using coherent_calls(4) [OF s1(1), of f] sk s1(2) fds_unchanged(12) [of f s1]
      by (auto simp: fd_Seek_def same_files_def tick_def split: option.splits)
    obtain b s3 where rd: "os_ReadAll f s2 = (b, s3)" by (cases "os_ReadAll f s2")
    have s3: "coherent s3" "same_files (srv_os srv) s3"
      using coherent_calls(6) [OF s2(1), of f] same_files_ReadAll [of s2 f] rd s2(2) same_files_trans by auto
    have dat: "file_data (srv_os srv) p = Some d" if bd: "b = Inr d" for d
    proof -
      obtain n where "inodes s2 i = Some n" "\<not> i_dir n" "d = i_data n"
        using ReadAll_open [of f s2 d s3 p i w] rd bd f s2(3) by auto
      then show ?thesis using coherent_handle(2) [OF s2(1), of f p i w n] f s2(3) same_files_data [OF s2(2)] by simp
    qed
    show ?thesis
      using path g Inr sk rd ev [OF s2(1,2)] ev [OF s3] dat
      by (auto simp: srv_hash_def hashFailed_def zeroHashRes_def split: option.splits sum.splits)
  qed
  then obtain res where res: "srv_out ?s = srv_out srv @ [(conn, MHashRes res, [])]" "coherent (srv_os ?s)"
      "same_files (srv_os srv) (srv_os ?s)" "hres_Success res \<longrightarrow> (\<exists>c. file_data (srv_os srv) p = Some c \<and> hres_Hash res = Sum256 c)"
    by blast
  have rep: "replied conn ?i HashResT srv ?s" using srv_hash_replied [OF session_okD(1) [OF ok], of conn "?mk ?i"] by simp
  have call': "request (direct_call env rnd conn) (\<lambda>i. MHashReq (?mk i)) [] (cc, srv) = (r, cc', srv')"
    using call by (simp add: cc_Hash_def)
  have "r = Inr (MHashRes res, []) \<and> srv' = ?s \<and> same_client cc cc' \<and> session_ok conn ca cc' ?s"
    by (rule session_request [OF ok rep res(1,2) call']) (rule handle_authed(6) [OF session_okD(3,4) [OF ok]])
  then show ?thesis using res(3,4) by blast
qed

section \<open>Read\<close>

lemma srv_read_faults: "faults (srv_os (srv_read lib rnd conn req ca srv)) = faults (srv_os srv)"
proof -
  have g: "fc_get p False (get_cache srv) = (x, fc, s1) \<Longrightarrow> faults s1 = faults (srv_os srv)" for p x fc s1
    using fc_get_faults [of p False "srv_fdCache srv" "srv_os srv"] by (simp add: get_cache_def)
  have st: "fd_Stat f s1 = (x, s2) \<Longrightarrow> faults s2 = faults s1" for f s1 x s2
    using faults_unchanged(6) [of f s1] by simp
  have rd: "os_ReadAt f n off s2 = (x, s3) \<Longrightarrow> faults s3 = faults s2" for f n off s2 x s3
    using faults_unchanged(8) [of f n off s2] by simp
  show ?thesis
    by (auto simp: srv_read_def readFailed_def readSuccess_def Let_def dest!: g st rd split: sum.splits prod.splits option.splits)
qed

lemma read_done_decoding:
  assumes lib: "codec_ok lib rnd" and rd: "read_done lib rnd key conn req d srv srv'"
    and key: "rreq_Encryption req = EncryptionSecretBox \<longrightarrow> key' = key"
  shows "\<exists>res q. srv_out srv' = srv_out srv @ [(conn, MReadRes res, q)] \<and> rres_Success res
    \<and> rres_Checksum res = ChecksumIEEE q \<and> read_decoding lib key' off res q = Inr d"
proof -
  have ne: "EncryptionNone \<noteq> EncryptionSecretBox" by (simp add: EncryptionNone_def EncryptionSecretBox_def)
  obtain c algo q enc where c: "compressChunk lib d (rreq_Compression req) = Inr (c, algo)"
      "if rreq_Encryption req = EncryptionSecretBox then encryptChunk lib rnd c key = Inr q \<and> enc = EncryptionSecretBox
       else q = c \<and> enc = EncryptionNone"
      "srv_out srv' = srv_out srv @ [(conn, MReadRes \<lparr>rres_ID = rreq_ID req, rres_Success = True,
            rres_N = int (length q), rres_Checksum = ChecksumIEEE q, rres_Compression = algo,
            rres_Encryption = enc, rres_Error = []\<rparr>, q)]"
    using rd unfolding read_done_def by blast
  note u = codec_chunk [OF lib c(1)]
  show ?thesis
    using c(2,3) u key ne by (auto simp: read_decoding_def split: if_splits)
qed

lemma cc_Read_effect:
  assumes ok: "session_ok conn ca cc srv" and lib: "codec_ok (env_codec env) rnd"
    and path: "sandboxPath (Some ca) target = Inr p" and sz: "0 < sz" "sz \<le> maxAlloc"
    and call: "cc_Read (direct_call env rnd conn) target off sz algo (cc, srv) = (r, cc', srv')"
  shows "session_ok conn ca cc' srv' \<and> same_client cc cc' \<and> file_data (srv_os srv') p = file_data (srv_os srv) p
    \<and> faults (srv_os srv') = faults (srv_os srv) \<and>
    (\<exists>res q. r = Inr (MReadRes res, q) \<and> (rres_Success res \<longrightarrow>
       (\<exists>c k. file_data (srv_os srv) p = Some c \<and> 0 \<le> off \<and> k \<le> nat sz \<and> (no_faults (srv_os srv) \<longrightarrow> k = nat sz)
          \<and> rres_Checksum res = ChecksumIEEE q
          \<and> read_decoding (env_codec env) (cc_encryptionKey cc) off res q = Inr (take k (drop (nat off) c)))))"
proof -
  let ?i = "fst (genMsgID (cc_id cc))"
  let ?mk = "\<lambda>i. \<lparr>rreq_ID = i, rreq_Path = target, rreq_Offset = off, rreq_Size = sz, rreq_Compression = algo,
         rreq_Encryption = (if cc_useEncryption cc then EncryptionSecretBox else EncryptionNone)\<rparr>"
  let ?s = "srv_read (env_codec env) rnd conn (?mk ?i) ca srv"
  have ne: "EncryptionNone \<noteq> EncryptionSecretBox" by (simp add: EncryptionNone_def EncryptionSecretBox_def)
  have call': "request (direct_call env rnd conn) (\<lambda>i. MReadReq (?mk i)) [] (cc, srv) = (r, cc', srv')"
    using call by (simp add: cc_Read_def)
  have rep: "replied conn ?i ReadResT srv ?s"
    using srv_read_replied [OF session_okD(1) [OF ok], of conn "?mk ?i" "env_codec env" rnd ca] sz by auto
  note eff = srv_read_effect [OF session_okD(1,2) [OF ok], where req = "?mk ?i" and p = p and conn = conn, OF _ _ _ refl]
  have co: "coherent (srv_os ?s)" "file_data (srv_os ?s) p = file_data (srv_os srv) p"
    using eff path sz by simp_all
  have key: "rreq_Encryption (?mk ?i) = EncryptionSecretBox \<longrightarrow> cc_encryptionKey cc = ca_encryptionKey ca"
    using ok ne by (simp add: session_ok_def)
  obtain res q where res: "srv_out ?s = srv_out srv @ [(conn, MReadRes res, q)]"
    and suc: "rres_Success res \<longrightarrow> (\<exists>c k. file_data (srv_os srv) p = Some c \<and> 0 \<le> off \<and> k \<le> nat sz
          \<and> (no_faults (srv_os srv) \<longrightarrow> k = nat sz) \<and> rres_Checksum res = ChecksumIEEE q
          \<and> read_decoding (env_codec env) (cc_encryptionKey cc) off res q = Inr (take k (drop (nat off) c)))"
  proof -
    consider (bad) err where "srv_out ?s = srv_out srv @ [(conn, MReadRes (zeroReadRes\<lparr>rres_ID := ?i, rres_Error := err\<rparr>), [])]"
      | (good) c k where "file_data (srv_os srv) p = Some c" "0 \<le> off" "k \<le> nat sz" "no_faults (srv_os srv) \<longrightarrow> k = nat sz"
         "read_done (env_codec env) rnd (ca_encryptionKey ca) conn (?mk ?i) (take k (drop (nat off) c)) srv ?s"
      using eff [of ca "env_codec env" rnd] path sz by auto
    then show thesis
    proof cases
      case bad
      then show thesis by (intro that) (auto simp: zeroReadRes_def)
    next
      case good
      then show thesis using read_done_decoding [OF lib good(5) key, of off] that by blast
    qed
  qed
  have "r = Inr (MReadRes res, q) \<and> srv' = ?s \<and> same_client cc cc' \<and> session_ok conn ca cc' ?s"
    by (rule session_request [OF ok rep res co(1) call']) (rule handle_authed(3) [OF session_okD(3,4) [OF ok]])
  then show ?thesis using co(2) suc srv_read_faults by metis
qed

text \<open>Reads of any size leave the files and the session as they are, even one that brings the server
  down.\<close>

lemma srv_read_files:
  assumes inv: "srv_inv srv" "coherent (srv_os srv)"
  shows "coherent (srv_os (srv_read lib rnd conn req ca srv)) \<and> same_files (srv_os srv) (srv_os (srv_read lib rnd conn req ca srv))"
proof -
  let ?I = "\<lambda>s. coherent s \<and> same_files (srv_os srv) s"
  have fi: "fc_inv (srv_fdCache srv, srv_os srv)" by (rule srv_invD [OF inv(1)])
  have g: "?I s1" if "fc_get p False (get_cache srv) = (x, fc, s1)" for p x fc s1
    using fc_get_files [OF fi inv(2)] that by (auto simp: get_cache_def)
  have st: "?I s2" if "fd_Stat f s1 = (x, s2)" "?I s1" for f s1 x s2
    using coherent_calls(3) [of s1 f] that by (auto simp: same_files_def fd_Stat_def tick_def split: option.splits)
  have rd: "?I s3" if "os_ReadAt f n off s2 = (x, s3)" "?I s2" for f n off s2 x s3
    using coherent_calls(5) [of s2 f n off] same_files_ReadAt [of s2 f n off] same_files_trans that by fastforce
  have here: "?I (srv_os srv)" using inv(2) by simp
  show ?thesis
    using here
    by (auto simp: srv_read_def readFailed_def readSuccess_def Let_def dest!: g dest: st rd
        split: sum.splits prod.splits option.splits)
qed

lemma cc_Read_session:
  assumes ok: "session_ok conn ca cc srv" and call: "cc_Read (direct_call env rnd conn) target off sz algo (cc, srv) = (r, cc', srv')"
  shows "session_ok conn ca cc' srv' \<and> same_files (srv_os srv) (srv_os srv')"
proof -
  let ?i = "fst (genMsgID (cc_id cc))"
  let ?mk = "\<lambda>i. \<lparr>rreq_ID = i, rreq_Path = target, rreq_Offset = off, rreq_Size = sz, rreq_Compression = algo,
         rreq_Encryption = (if cc_useEncryption cc then EncryptionSecretBox else EncryptionNone)\<rparr>"
  let ?s = "srv_read (env_codec env) rnd conn (?mk ?i) ca srv"
  have h: "handle_msg env rnd \<lparr>wm_msg = MReadReq (?mk ?i), wm_payload = [], wm_conn = conn\<rparr> srv = ?s"
    by (rule handle_authed(3) [OF session_okD(3,4) [OF ok]])
  have s: "srv' = ?s" "cc' = cc\<lparr>cc_id := snd (genMsgID (cc_id cc))\<rparr>"
    using call h by (auto simp: cc_Read_def request_def direct_call_def case_prod_beta Let_def split: list.splits)
  have f: "coherent (srv_os ?s)" "same_files (srv_os srv) (srv_os ?s)" using srv_read_files [OF session_okD(1,2) [OF ok]] by blast+
  have "srv_inv ?s" "srv_ctx ?s = srv_ctx srv"
    using srv_read_replied [OF session_okD(1) [OF ok], of conn "?mk ?i" "env_codec env" rnd ca]
    by (auto simp: srv_inv_def same_auth_def dest: replied_inv replied_same_auth)
  then show ?thesis using ok s f by (simp add: session_ok_def)
qed

section \<open>Comparison of the SHA-256 sums\<close>

lemma verifyFileHash_effect:
  assumes ok: "session_ok conn ca (x_cc x) (x_net x)" and path: "sandboxPath (Some ca) remotePath = Inr p"
    and v: "verifyFileHash (direct_call env rnd conn) remotePath localPath x = (r, x')"
  shows "same_files (srv_os (x_net x)) (srv_os (x_net x')) \<and> same_files (x_os x) (x_os x')
    \<and> x_state x' = x_state x
    \<and> (r = None \<longrightarrow> (\<exists>c d. file_data (srv_os (x_net x)) p = Some c \<and> file_data (x_os x) localPath = Some d
          \<and> Sum256 c = Sum256 d))"
proof -
  obtain h x1 where c: "on_client (cc_Hash (direct_call env rnd conn) remotePath) x = (h, x1)"
    by (cases "on_client (cc_Hash (direct_call env rnd conn) remotePath) x")
  obtain cc1 srv1 where m: "cc_Hash (direct_call env rnd conn) remotePath (x_cc x, x_net x) = (h, cc1, srv1)"
      "x1 = x\<lparr>x_cc := cc1, x_net := srv1\<rparr>"
    using c by (cases "cc_Hash (direct_call env rnd conn) remotePath (x_cc x, x_net x)") (auto simp: on_client_def)
  obtain res q where h: "h = Inr (MHashRes res, q)" "same_files (srv_os (x_net x)) (srv_os srv1)"
      "hres_Success res \<longrightarrow> (\<exists>c. file_data (srv_os (x_net x)) p = Some c \<and> hres_Hash res = Sum256 c)"
    using cc_Hash_effect [OF ok path m(1)] by blast
  show ?thesis
  proof (cases "hres_Success res")
    case False
    then show ?thesis using v c h m by (auto simp: verifyFileHash_def)
  next
    case True
    obtain e s1 where op: "os_Open localPath (x_os x) = (e, s1)" by (cases "os_Open localPath (x_os x)")
    show ?thesis
    proof (cases e)
      case (Inl err)
      moreover have "same_files (x_os x) s1"
        using op same_files_Open [of "x_os x" localPath] by simp
      ultimately show ?thesis using v c h m True op by (auto simp: verifyFileHash_def)
    next
      case (Inr f)
      obtain b s2 where rd: "os_ReadAll f s1 = (b, s2)" by (cases "os_ReadAll f s1")
      have "same_files (x_os x) (os_Close f s2)"
        using same_files_trans [OF same_files_trans [OF Open_data(1) [OF op [unfolded Inr]] same_files_ReadAll] same_files_Close] rd
        by (metis snd_conv)
      moreover have "file_data (x_os x) localPath = Some d" if "b = Inr d" for d
        using Open_read [OF op [unfolded Inr]] rd that by simp
      ultimately show ?thesis
        using v c h m True op Inr rd by (auto simp: verifyFileHash_def compare_hashes_eq split: sum.splits)
    qed
  qed
qed

lemma verifyFileHash_equal:
  assumes "session_ok conn ca (x_cc x) (x_net x)" and "sandboxPath (Some ca) remotePath = Inr p"
    and "case fst (on_client (cc_Hash (direct_call env rnd conn) remotePath) x) of Inr (MHashRes r, _) \<Rightarrow> hres_Success r | _ \<Rightarrow> False"
    and "file_data (srv_os (x_net x)) p = Some c"
    and "case os_Open localPath (x_os x) of (Inl e, _) \<Rightarrow> False | (Inr f, s) \<Rightarrow> fst (os_ReadAll f s) = Inr c"
  shows "\<exists>x'. verifyFileHash (direct_call env rnd conn) remotePath localPath x = (None, x')"
proof -
  let ?m = "cc_Hash (direct_call env rnd conn) remotePath"
  obtain h x1 where c: "on_client ?m x = (h, x1)" by (cases "on_client ?m x")
  obtain r q where h: "h = Inr (MHashRes r, q)" "hres_Success r"
    using assms(3) c by (auto split: sum.splits prod.splits MSG.splits)
  obtain cc1 srv1 where m: "?m (x_cc x, x_net x) = (h, cc1, srv1)" using on_client_simps [OF c] by blast
  have "hres_Hash r = Sum256 c" using cc_Hash_effect [OF assms(1,2) m] assms(4) h by auto
  then show ?thesis
    using c h assms(5) on_client_keeps [OF c]
    by (auto simp: verifyFileHash_def compare_hashes_eq split: prod.splits sum.splits)
qed

end
