(* ===== verification/Chunks.thy ===== *)
theory Chunks
  imports Prelude "HOL-Library.Multiset"
begin

text \<open>
  \<open>processChunks\<close> (\<open>transfer.go\<close>): a file is cut into chunks, a goroutine is started for every chunk,
  at most \<open>batch\<close> of them run at a time, errors go into a channel of capacity \<open>batch\<close>.

  The planning loop alone is \<open>chunk_loop\<close>. The whole function is a transition system: the state
  is that of the loop, of the goroutines (waiting for the semaphore, running, sending an error) and
  of the channel of errors; the steps are those the scheduler may choose from. What a chunk does is
  the parameter \<open>fn\<close>, on a world of its caller's choice; \<open>flush\<close> is the final write of the resume
  state, and \<open>completed\<close> tells which offsets the resume state already has. \<open>pool_interrupt\<close> is the
  cancellation of the caller's context, as on SIGINT. The progress channel, which is always drained
  while the context lives, is left out.
\<close>

section \<open>Planning\<close>

type_synonym chunk = "int64 \<times> int64"

definition next_size :: "int64 \<Rightarrow> int64 \<Rightarrow> int64" where
  "next_size chunkSize remainSize = (if remainSize < chunkSize then remainSize else chunkSize)"

partial_function (option) chunk_loop ::
  "int64 \<Rightarrow> (int64 \<Rightarrow> bool) \<Rightarrow> int64 \<Rightarrow> int64 \<Rightarrow> chunk list option" where
  "chunk_loop chunkSize completed offset remainSize =
     (if remainSize > 0 then
        (let size = next_size chunkSize remainSize
         in if completed offset then
              chunk_loop chunkSize completed (wrap64 (offset + size)) (wrap64 (remainSize - size))
            else
              Option.bind (chunk_loop chunkSize completed (wrap64 (offset + size)) (wrap64 (remainSize - size)))
                (\<lambda>l. Some ((offset, size) # l)))
      else Some [])"

section \<open>The goroutines\<close>

datatype phase = Spawning | Waiting | Returned "goerror option"

record 'w pool =
  p_offset :: int64
  p_remain :: int64
  p_waiting :: "chunk list"
  p_running :: "chunk list"
  p_sending :: "goerror list"
  p_errs :: "goerror list"
  p_cancelled :: bool
  p_phase :: phase
  p_world :: 'w
  p_spawned :: "chunk list"
  p_done :: "chunk list"
  p_failed :: "chunk list"
  p_interrupted :: bool

text \<open>The last four are history: the chunks started, finished without and with an error, and whether
  the caller's context was cancelled.\<close>

fun returned :: "phase \<Rightarrow> bool" where
  "returned (Returned r) = True"
| "returned _ = False"

definition pool_init :: "int64 \<Rightarrow> int64 \<Rightarrow> 'w \<Rightarrow> 'w pool" where
  "pool_init fileSize startOffset w = \<lparr>p_offset = startOffset, p_remain = wrap64 (fileSize - startOffset),
     p_waiting = [], p_running = [], p_sending = [], p_errs = [], p_cancelled = False, p_phase = Spawning,
     p_world = w, p_spawned = [], p_done = [], p_failed = [], p_interrupted = False\<rparr>"

definition advance :: "int64 \<Rightarrow> 'w pool \<Rightarrow> 'w pool" where
  "advance sz s = s\<lparr>p_offset := wrap64 (p_offset s + sz), p_remain := wrap64 (p_remain s - sz)\<rparr>"

text \<open>Slots of the semaphore in use: a goroutine keeps its slot while it sends an error.\<close>

abbreviation slots :: "'w pool \<Rightarrow> nat" where
  "slots s \<equiv> length (p_running s) + length (p_sending s)"

inductive pool_step ::
  "nat \<Rightarrow> int64 \<Rightarrow> (int64 \<Rightarrow> bool) \<Rightarrow> (int64 \<Rightarrow> int64 \<Rightarrow> 'w \<Rightarrow> goerror option \<times> 'w) \<Rightarrow> ('w \<Rightarrow> 'w) \<Rightarrow> 'w pool \<Rightarrow> 'w pool \<Rightarrow> bool"
  for batch chunkSize completed "fn" flush where
  spawn_error: "p_phase s = Spawning \<Longrightarrow> p_remain s > 0 \<Longrightarrow> p_errs s = e # es \<Longrightarrow>
    pool_step batch chunkSize completed fn flush s
      (s\<lparr>p_errs := es, p_cancelled := True, p_phase := Returned (Some e)\<rparr>)"
| spawn_skip: "p_phase s = Spawning \<Longrightarrow> p_remain s > 0 \<Longrightarrow> p_errs s = [] \<Longrightarrow> completed (p_offset s) \<Longrightarrow>
    pool_step batch chunkSize completed fn flush s (advance (next_size chunkSize (p_remain s)) s)"
| spawn: "p_phase s = Spawning \<Longrightarrow> p_remain s > 0 \<Longrightarrow> p_errs s = [] \<Longrightarrow> \<not> completed (p_offset s) \<Longrightarrow>
    c = (p_offset s, next_size chunkSize (p_remain s)) \<Longrightarrow>
    pool_step batch chunkSize completed fn flush s
      (advance (snd c) (s\<lparr>p_waiting := p_waiting s @ [c], p_spawned := p_spawned s @ [c]\<rparr>))"
| spawned_all: "p_phase s = Spawning \<Longrightarrow> \<not> p_remain s > 0 \<Longrightarrow>
    pool_step batch chunkSize completed fn flush s (s\<lparr>p_phase := Waiting\<rparr>)"
| acquire: "p_waiting s = xs @ c # ys \<Longrightarrow> slots s < batch \<Longrightarrow>
    pool_step batch chunkSize completed fn flush s
      (s\<lparr>p_waiting := xs @ ys, p_running := p_running s @ [c]\<rparr>)"
| abandon: "p_waiting s = xs @ c # ys \<Longrightarrow> p_cancelled s \<Longrightarrow>
    pool_step batch chunkSize completed fn flush s (s\<lparr>p_waiting := xs @ ys\<rparr>)"
| run_ok: "p_running s = xs @ (off, sz) # ys \<Longrightarrow> fn off sz (p_world s) = (None, w') \<Longrightarrow>
    pool_step batch chunkSize completed fn flush s
      (s\<lparr>p_running := xs @ ys, p_world := w', p_done := p_done s @ [(off, sz)]\<rparr>)"
| run_error: "p_running s = xs @ (off, sz) # ys \<Longrightarrow> fn off sz (p_world s) = (Some e, w') \<Longrightarrow>
    pool_step batch chunkSize completed fn flush s
      (s\<lparr>p_running := xs @ ys, p_world := w', p_sending := p_sending s @ [e], p_failed := p_failed s @ [(off, sz)]\<rparr>)"
| run_cancelled: "p_running s = xs @ (off, sz) # ys \<Longrightarrow> p_cancelled s \<Longrightarrow>
    pool_step batch chunkSize completed fn flush s
      (s\<lparr>p_running := xs @ ys, p_sending := p_sending s @ [ErrCanceled], p_failed := p_failed s @ [(off, sz)]\<rparr>)"
| send: "p_sending s = xs @ e # ys \<Longrightarrow> length (p_errs s) < batch \<Longrightarrow>
    pool_step batch chunkSize completed fn flush s (s\<lparr>p_sending := xs @ ys, p_errs := p_errs s @ [e]\<rparr>)"
| send_cancelled: "p_sending s = xs @ e # ys \<Longrightarrow> p_cancelled s \<Longrightarrow>
    pool_step batch chunkSize completed fn flush s (s\<lparr>p_sending := xs @ ys\<rparr>)"
| finish: "p_phase s = Waiting \<Longrightarrow> p_waiting s = [] \<Longrightarrow> p_running s = [] \<Longrightarrow> p_sending s = [] \<Longrightarrow>
    r = (case p_errs s of [] \<Rightarrow> None | e # es \<Rightarrow> Some e) \<Longrightarrow>
    pool_step batch chunkSize completed fn flush s
      (s\<lparr>p_world := flush (p_world s), p_errs := tl (p_errs s), p_cancelled := True, p_phase := Returned r\<rparr>)"
| pool_interrupt: "\<not> returned (p_phase s) \<Longrightarrow> \<not> p_cancelled s \<Longrightarrow>
    pool_step batch chunkSize completed fn flush s (s\<lparr>p_cancelled := True, p_interrupted := True\<rparr>)"

section \<open>Lemmas on the plan\<close>

lemma next_size_pos: "0 < cs \<Longrightarrow> 0 < r \<Longrightarrow> 0 < next_size cs r \<and> next_size cs r \<le> r \<and> next_size cs r \<le> cs"
  by (simp add: next_size_def)

text \<open>In range, the arithmetic of the loop does not wrap around.\<close>

definition in_file :: "int64 \<Rightarrow> int64 \<Rightarrow> bool" where
  "in_file off r \<longleftrightarrow> 0 \<le> off \<and> 0 \<le> r \<and> off + r < 2 ^ 63"

lemma in_file_step:
  assumes "in_file off r" and "0 < cs" and "0 < r"
  shows "wrap64 (off + next_size cs r) = off + next_size cs r" "wrap64 (r - next_size cs r) = r - next_size cs r"
    "in_file (off + next_size cs r) (r - next_size cs r)"
  using assms next_size_pos [OF assms(2,3)] unfolding in_file_def by (auto intro!: wrap64_id)

lemma chunk_loop_stop: "\<not> 0 < r \<Longrightarrow> chunk_loop cs cp off r = Some []"
  by (subst chunk_loop.simps) simp

lemma chunk_loop_step:
  assumes "in_file off r" and "0 < cs" and "0 < r"
  shows "chunk_loop cs cp off r =
    (if cp off then chunk_loop cs cp (off + next_size cs r) (r - next_size cs r)
     else Option.bind (chunk_loop cs cp (off + next_size cs r) (r - next_size cs r))
        (\<lambda>l. Some ((off, next_size cs r) # l)))"
  by (subst chunk_loop.simps) (simp add: in_file_step [OF assms] assms(3) Let_def)

text \<open>What the loop plans: nonempty chunks within the file and at most as long as asked for, that
  start at multiples of the chunk size, in order; together with the chunks that the resume state
  already has they cover the file.\<close>

lemma chunk_loop_plan:
  assumes "0 < cs" and "in_file off r" and "cs dvd off"
  shows "\<exists>l. chunk_loop cs cp off r = Some l
    \<and> (\<forall>(a, n) \<in> set l. off \<le> a \<and> 0 < n \<and> n \<le> cs \<and> a + n \<le> off + r \<and> \<not> cp a \<and> cs dvd a)
    \<and> sorted_wrt (\<lambda>(a, n) (a', n'). a + n \<le> a') l
    \<and> (\<forall>i. off \<le> i \<and> i < off + r \<longrightarrow> cp (cs * (i div cs)) \<or> (\<exists>(a, n) \<in> set l. a \<le> i \<and> i < a + n))"
  using assms(2,3)
proof (induction "nat r" arbitrary: off r rule: less_induct)
  case less
  show ?case
  proof (cases "0 < r")
    case False
    then show ?thesis using less.prems by (auto simp: chunk_loop_stop in_file_def)
  next
    case True
    let ?n = "next_size cs r"
    note n = next_size_pos [OF assms(1) True]
    obtain l where l: "chunk_loop cs cp (off + ?n) (r - ?n) = Some l"
      "\<forall>(a, m) \<in> set l. off + ?n \<le> a \<and> 0 < m \<and> m \<le> cs \<and> a + m \<le> off + r \<and> \<not> cp a \<and> cs dvd a"
      "sorted_wrt (\<lambda>(a, n) (a', n'). a + n \<le> a') l"
      "\<forall>i. off + ?n \<le> i \<and> i < off + r \<longrightarrow> cp (cs * (i div cs)) \<or> (\<exists>(a, n) \<in> set l. a \<le> i \<and> i < a + n)"
    proof (cases "r < cs")
      case True
      then have "?n = r" by (simp add: next_size_def)
      then show ?thesis by (intro that [of "[]"]) (auto simp: chunk_loop_stop)
    next
      case False
      then have "?n = cs" by (simp add: next_size_def)
      then have "cs dvd off + ?n" using less.prems(2) by simp
      then show ?thesis
        using less.hyps [of "r - ?n" "off + ?n"] in_file_step(3) [OF less.prems(1) assms(1) True] n True that by auto
    qed
    have here: "cs * (i div cs) = off" if "off \<le> i" "i < off + ?n" for i
    proof -
      obtain k where k: "off = cs * k" using less.prems(2) by blast
      have "i - cs * k < cs" "0 \<le> i - cs * k" using that n k by simp_all
      then have "i div cs = k" using assms(1) by (metis add_diff_cancel_left' diff_add_cancel div_mult_self4 div_pos_pos_trivial less_irrefl add_0_right add.commute)
      then show ?thesis using k by simp
    qed
    show ?thesis
    proof (cases "cp off")
      case True
      have "chunk_loop cs cp off r = Some l"
        using True l(1) by (simp add: chunk_loop_step [OF less.prems(1) assms(1) \<open>0 < r\<close>])
      moreover have "\<forall>(a, m) \<in> set l. off \<le> a \<and> 0 < m \<and> m \<le> cs \<and> a + m \<le> off + r \<and> \<not> cp a \<and> cs dvd a"
        using l(2) n by fastforce
      moreover have "cp (cs * (i div cs)) \<or> (\<exists>(a, m) \<in> set l. a \<le> i \<and> i < a + m)"
        if "off \<le> i" "i < off + r" for i
        using that l(4) here [of i] True by (cases "i < off + ?n") auto
      ultimately show ?thesis using l(3) by blast
    next
      case False
      let ?l = "(off, ?n) # l"
      have "chunk_loop cs cp off r = Some ?l"
        using False l(1) by (simp add: chunk_loop_step [OF less.prems(1) assms(1) True])
      moreover have "\<forall>(a, m) \<in> set ?l. off \<le> a \<and> 0 < m \<and> m \<le> cs \<and> a + m \<le> off + r \<and> \<not> cp a \<and> cs dvd a"
        using l(2) n False less.prems(2) by fastforce
      moreover have "sorted_wrt (\<lambda>(a, n) (a', n'). a + n \<le> a') ?l" using l(2,3) by auto
      moreover have "\<forall>i. off \<le> i \<and> i < off + r \<longrightarrow> cp (cs * (i div cs)) \<or> (\<exists>(a, m) \<in> set ?l. a \<le> i \<and> i < a + m)"
        using l(4) by (metis (no_types, lifting) case_prodI insertCI linorder_not_less list.simps(15))
      ultimately show ?thesis by blast
    qed
  qed
qed

section \<open>Invariant of the pool\<close>

text \<open>Chunks one after the other, all without an error.\<close>

fun run_chunks :: "(int64 \<Rightarrow> int64 \<Rightarrow> 'w \<Rightarrow> goerror option \<times> 'w) \<Rightarrow> chunk list \<Rightarrow> 'w \<Rightarrow> 'w option" where
  "run_chunks fn [] w = Some w"
| "run_chunks fn ((off, sz) # cs) w =
     (case fn off sz w of (None, w') \<Rightarrow> run_chunks fn cs w' | (Some e, w') \<Rightarrow> None)"

lemma run_chunks_append:
  "run_chunks fn (xs @ ys) w = Option.bind (run_chunks fn xs w) (run_chunks fn ys)"
  by (induction fn xs w rule: run_chunks.induct) (auto split: prod.splits option.splits)

definition live_inv where
  "live_inv cs cp fn off0 r0 w0 s \<longleftrightarrow>
     \<not> p_cancelled s \<and> mset (p_spawned s) = mset (p_waiting s) + mset (p_running s) + mset (p_done s) + mset (p_failed s)
   \<and> length (p_failed s) = length (p_sending s) + length (p_errs s)
   \<and> (p_failed s = [] \<longrightarrow> run_chunks fn (p_done s) w0 = Some (p_world s))
   \<and> chunk_loop cs cp off0 r0 =
       (if p_phase s = Spawning then map_option ((@) (p_spawned s)) (chunk_loop cs cp (p_offset s) (p_remain s))
        else Some (p_spawned s))"

definition end_inv where
  "end_inv cs cp fn flush off0 r0 w0 s \<longleftrightarrow>
     p_waiting s = [] \<and> p_running s = [] \<and> p_sending s = [] \<and> chunk_loop cs cp off0 r0 = Some (p_spawned s)
   \<and> mset (p_done s) = mset (p_spawned s) \<and> (\<exists>w. run_chunks fn (p_done s) w0 = Some w \<and> p_world s = flush w)"

definition pool_inv where
  "pool_inv cs cp fn flush off0 r0 w0 s \<longleftrightarrow>
     in_file (p_offset s) (p_remain s)
   \<and> (\<not> p_interrupted s \<longrightarrow>
        (case p_phase s of
           Returned None \<Rightarrow> end_inv cs cp fn flush off0 r0 w0 s
         | Returned (Some e) \<Rightarrow> True
         | _ \<Rightarrow> live_inv cs cp fn off0 r0 w0 s))"

lemma pool_inv_init:
  assumes "in_file off r" and "r = wrap64 (n - off)"
  shows "pool_inv cs cp fn flush off r w (pool_init n off w)"
  using assms by (cases "chunk_loop cs cp off r") (simp_all add: pool_inv_def live_inv_def pool_init_def)

lemma live_inv_phase:
  "\<not> returned (p_phase s) \<Longrightarrow> \<not> p_interrupted s \<Longrightarrow>
     pool_inv cs cp fn flush off0 r0 w0 s \<longleftrightarrow> in_file (p_offset s) (p_remain s) \<and> live_inv cs cp fn off0 r0 w0 s"
  by (cases "p_phase s") (auto simp: pool_inv_def)

text \<open>A goroutine's step: what holds of a pool that has not returned is kept, and a pool that has
  returned without an error has no goroutine left.\<close>

lemma pool_inv_goroutine:
  assumes inv: "pool_inv cs cp fn flush off0 r0 w0 s"
    and same: "p_phase s' = p_phase s" "p_offset s' = p_offset s" "p_remain s' = p_remain s"
      "p_interrupted s' = p_interrupted s"
    and some: "p_waiting s \<noteq> [] \<or> p_running s \<noteq> [] \<or> p_sending s \<noteq> []"
    and live: "live_inv cs cp fn off0 r0 w0 s \<Longrightarrow> live_inv cs cp fn off0 r0 w0 s'"
  shows "pool_inv cs cp fn flush off0 r0 w0 s'"
  using inv same some live unfolding pool_inv_def
  by (auto simp: end_inv_def split: phase.splits option.splits)

lemma pool_step_inv:
  assumes "pool_step batch cs cp fn flush s s'" and inv: "pool_inv cs cp fn flush off0 r0 w0 s" and cs: "0 < cs"
  shows "pool_inv cs cp fn flush off0 r0 w0 s'"
  using assms(1)
proof (cases rule: pool_step.cases)
  case (spawn_error e es)
  then show ?thesis using inv by (auto simp: pool_inv_def)
next
  case spawn_skip
  then have f: "in_file (p_offset s) (p_remain s)" using inv by (simp add: pool_inv_def)
  show ?thesis
    using spawn_skip inv in_file_step [OF f cs] chunk_loop_step [OF f cs, of cp]
    by (auto simp: pool_inv_def advance_def live_inv_def)
next
  case (spawn c)
  then have f: "in_file (p_offset s) (p_remain s)" using inv by (simp add: pool_inv_def)
  show ?thesis
    using spawn inv in_file_step [OF f cs] chunk_loop_step [OF f cs, of cp]
    by (auto simp: pool_inv_def advance_def live_inv_def option.map_comp comp_def
        split: Option.bind_splits)
next
  case spawned_all
  then show ?thesis using inv by (auto simp: pool_inv_def live_inv_def chunk_loop_stop)
next
  case (acquire xs c ys)
  show ?thesis
    by (rule pool_inv_goroutine [OF inv]) (use acquire in \<open>auto simp: live_inv_def\<close>)
next
  case (abandon xs c ys)
  show ?thesis
    by (rule pool_inv_goroutine [OF inv]) (use abandon in \<open>auto simp: live_inv_def\<close>)
next
  case (run_ok xs off sz ys w')
  show ?thesis
    by (rule pool_inv_goroutine [OF inv]) (use run_ok in \<open>auto simp: live_inv_def run_chunks_append\<close>)
next
  case (run_error xs off sz ys e w')
  show ?thesis
    by (rule pool_inv_goroutine [OF inv]) (use run_error in \<open>auto simp: live_inv_def\<close>)
next
  case (run_cancelled xs off sz ys)
  show ?thesis
    by (rule pool_inv_goroutine [OF inv]) (use run_cancelled in \<open>auto simp: live_inv_def\<close>)
next
  case (send xs e ys)
  show ?thesis
    by (rule pool_inv_goroutine [OF inv]) (use send in \<open>auto simp: live_inv_def\<close>)
next
  case (send_cancelled xs e ys)
  show ?thesis
    by (rule pool_inv_goroutine [OF inv]) (use send_cancelled in \<open>auto simp: live_inv_def\<close>)
next
  case (finish r)
  then show ?thesis
    using inv by (cases "p_errs s") (auto simp: pool_inv_def live_inv_def end_inv_def)
next
  case pool_interrupt
  then show ?thesis using inv by (simp add: pool_inv_def)
qed

lemma pool_reach_inv:
  assumes "(pool_step batch cs cp fn flush)\<^sup>*\<^sup>* s s'" and "pool_inv cs cp fn flush off0 r0 w0 s" and "0 < cs"
  shows "pool_inv cs cp fn flush off0 r0 w0 s'"
  using assms by (induction rule: rtranclp_induct) (auto intro: pool_step_inv)

text \<open>What every chunk and the flush keep of the world holds of the world at every moment.\<close>

lemma pool_world_inv:
  assumes "(pool_step batch cs cp fn flush)\<^sup>*\<^sup>* s s'" and "I (p_world s)"
    and "\<And>a n w. I w \<Longrightarrow> I (snd (fn a n w))" and "\<And>w. I w \<Longrightarrow> I (flush w)"
  shows "I (p_world s')"
  using assms(1,2)
proof (induction rule: rtranclp_induct)
  case (step t u)
  from step(2) show ?case
  proof (cases rule: pool_step.cases)
    case (run_ok xs off sz ys w')
    then show ?thesis using step assms(3) [of "p_world t" off sz] by simp
  next
    case (run_error xs off sz ys e w')
    then show ?thesis using step assms(3) [of "p_world t" off sz] by simp
  qed (use step assms(4) in \<open>auto simp: advance_def\<close>)
qed

section \<open>Termination and deadlock\<close>

fun phase_weight :: "phase \<Rightarrow> nat" where
  "phase_weight Spawning = 2"
| "phase_weight Waiting = 1"
| "phase_weight (Returned r) = 0"

text \<open>Every step leaves less to do, so every run ends.\<close>

definition pool_measure :: "'w pool \<Rightarrow> nat" where
  "pool_measure s = 5 * nat (p_remain s) + 4 * length (p_waiting s) + 3 * length (p_running s)
     + 2 * length (p_sending s) + phase_weight (p_phase s) + (if p_cancelled s then 0 else 1)"

lemma pool_step_measure:
  assumes "pool_step batch cs cp fn flush s s'" and "in_file (p_offset s) (p_remain s)" and "0 < cs"
  shows "pool_measure s' < pool_measure s \<and> in_file (p_offset s') (p_remain s')"
  using assms(1)
proof (cases rule: pool_step.cases)
  case spawn_skip
  then show ?thesis
    using in_file_step [OF assms(2,3)] next_size_pos [OF assms(3)] by (simp add: pool_measure_def advance_def)
next
  case (spawn c)
  have "nat (p_remain s - next_size cs (p_remain s)) + 1 \<le> nat (p_remain s)"
    using next_size_pos [OF assms(3) spawn(3)] by linarith
  then show ?thesis
    using spawn in_file_step [OF assms(2,3)] by (simp add: pool_measure_def advance_def)
next
  case (finish r)
  then show ?thesis using assms(2) by (simp add: pool_measure_def)
qed (use assms(2) in \<open>auto simp: pool_measure_def\<close>)

text \<open>A pool that has not returned can take a step, unless the goroutines left all wait for room in
  the channel of errors.\<close>

lemma pool_progress:
  assumes "\<not> returned (p_phase s)" and "0 < batch" and "\<And>s'. \<not> pool_step batch cs cp fn flush s s'"
  shows "p_phase s = Waiting \<and> p_sending s \<noteq> [] \<and> p_running s = [] \<and> batch \<le> length (p_errs s)"
proof -
  have run: "p_running s = []"
  proof (rule ccontr)
    assume "p_running s \<noteq> []"
    then obtain off sz ys where r: "p_running s = [] @ (off, sz) # ys" by (cases "p_running s") auto
    obtain q w' where "fn off sz (p_world s) = (q, w')" by (cases "fn off sz (p_world s)")
    then show False using assms(3) pool_step.run_ok [OF r] pool_step.run_error [OF r] by (cases q) blast+
  qed
  have send: "p_sending s = [] \<or> batch \<le> length (p_errs s)"
  proof (cases "p_sending s")
    case (Cons e ys)
    then show ?thesis
      using assms(3) pool_step.send [of s "[]" e ys batch cs cp fn flush] by (metis append_Nil linorder_not_less)
  qed simp
  have w: "p_phase s = Waiting"
  proof (cases "p_phase s")
    case Spawning
    have "0 < p_remain s" using assms(3) pool_step.spawned_all [OF Spawning] by blast
    then show ?thesis
      using assms(3) pool_step.spawn_error [OF Spawning] pool_step.spawn_skip [OF Spawning]
        pool_step.spawn [OF Spawning _ _ _ refl]
      by (cases "p_errs s"; cases "cp (p_offset s)") blast+
  qed (use assms(1) in auto)
  have "p_sending s \<noteq> []"
  proof
    assume e: "p_sending s = []"
    show False
    proof (cases "p_waiting s")
      case Nil
      then show False using assms(3) pool_step.finish [OF w _ run e refl] by blast
    next
      case (Cons c ys)
      then show False using assms(2,3) pool_step.acquire [of s "[]" c ys batch] run e by fastforce
    qed
  qed
  then show ?thesis using run send w by blast
qed

text \<open>More failures than the channel holds, while the loop is already waiting: nothing moves again
  except for a cancellation from outside.\<close>

definition deadlocked :: "nat \<Rightarrow> 'w pool \<Rightarrow> bool" where
  "deadlocked batch s \<longleftrightarrow> p_phase s = Waiting \<and> p_sending s \<noteq> [] \<and> batch \<le> length (p_errs s)
     \<and> \<not> p_cancelled s"

definition never_returns ::
  "nat \<Rightarrow> int64 \<Rightarrow> (int64 \<Rightarrow> bool) \<Rightarrow> (int64 \<Rightarrow> int64 \<Rightarrow> 'w \<Rightarrow> goerror option \<times> 'w) \<Rightarrow> ('w \<Rightarrow> 'w) \<Rightarrow> 'w pool \<Rightarrow> bool" where
  "never_returns batch cs cp fn flush s \<longleftrightarrow>
     (\<forall>s'. (pool_step batch cs cp fn flush)\<^sup>*\<^sup>* s s' \<longrightarrow> \<not> p_interrupted s' \<longrightarrow> \<not> returned (p_phase s'))"

lemma deadlocked_step:
  assumes "pool_step batch cs cp fn flush s s'" and "deadlocked batch s" and "\<not> p_interrupted s'"
  shows "deadlocked batch s'"
  using assms(1)
  by (cases rule: pool_step.cases) (use assms(2,3) in \<open>auto simp: deadlocked_def\<close>)

lemma interrupted_step: "pool_step batch cs cp fn flush s s' \<Longrightarrow> p_interrupted s \<Longrightarrow> p_interrupted s'"
  by (induction rule: pool_step.induct) (auto simp: advance_def)

lemma deadlocked_reach:
  assumes "(pool_step batch cs cp fn flush)\<^sup>*\<^sup>* s s'" and "deadlocked batch s"
  shows "\<not> p_interrupted s' \<longrightarrow> deadlocked batch s'"
  using assms by (induction rule: rtranclp_induct) (auto dest: deadlocked_step interrupted_step)

lemma cancelled_reach:
  assumes "(pool_step batch cs cp fn flush)\<^sup>*\<^sup>* s s'" and "p_interrupted s \<longrightarrow> p_cancelled s"
  shows "p_interrupted s' \<longrightarrow> p_cancelled s'"
  using assms(1,2)
proof (induction rule: rtranclp_induct)
  case (step t u)
  from step(2) show ?case by (cases rule: pool_step.cases) (use step(3,4) in \<open>auto simp: advance_def\<close>)
qed simp

section \<open>Particular runs\<close>

text \<open>The loop may start every goroutine before any of them runs.\<close>

lemma spawn_all:
  assumes "0 < cs" and "\<And>a. \<not> cp a"
  shows "in_file (p_offset s) (p_remain s) \<Longrightarrow> p_phase s = Spawning \<Longrightarrow> p_errs s = [] \<Longrightarrow>
    chunk_loop cs cp (p_offset s) (p_remain s) = Some l \<Longrightarrow>
    \<exists>a r. (pool_step batch cs cp fn flush)\<^sup>*\<^sup>* s (s\<lparr>p_offset := a, p_remain := r, p_waiting := p_waiting s @ l,
      p_spawned := p_spawned s @ l, p_phase := Waiting\<rparr>)"
proof (induction "nat (p_remain s)" arbitrary: s l rule: less_induct)
  case less
  show ?case
  proof (cases "0 < p_remain s")
    case False
    then have "l = []" using less.prems(4) by (simp add: chunk_loop_stop)
    then show ?thesis
      using pool_step.spawned_all [OF less.prems(2) False, of batch cs cp fn flush]
      by (intro exI [of _ "p_offset s"] exI [of _ "p_remain s"]) (simp add: r_into_rtranclp)
  next
    case True
    let ?n = "next_size cs (p_remain s)" let ?c = "(p_offset s, ?n)"
    let ?s = "advance ?n (s\<lparr>p_waiting := p_waiting s @ [?c], p_spawned := p_spawned s @ [?c]\<rparr>)"
    note st = in_file_step [OF less.prems(1) assms(1) True]
    obtain l' where l: "l = ?c # l'" "chunk_loop cs cp (p_offset s + ?n) (p_remain s - ?n) = Some l'"
      using less.prems(4) assms(2) chunk_loop_step [OF less.prems(1) assms(1) True, of cp]
      by (auto split: Option.bind_splits)
    have "pool_step batch cs cp fn flush s ?s"
      using pool_step.spawn [OF less.prems(2) True less.prems(3) _ refl, where chunkSize = cs and completed = cp and
          batch = batch and fn = fn and flush = flush] assms(2) by simp
    moreover have "\<exists>a r. (pool_step batch cs cp fn flush)\<^sup>*\<^sup>* ?s (?s\<lparr>p_offset := a, p_remain := r,
        p_waiting := p_waiting ?s @ l', p_spawned := p_spawned ?s @ l', p_phase := Waiting\<rparr>)"
      using less.prems st l(2) next_size_pos [OF assms(1) True]
      by (intro less.hyps) (simp_all add: advance_def)
    ultimately show ?thesis by (fastforce simp: advance_def l(1) intro: converse_rtranclp_into_rtranclp)
  qed
qed

text \<open>Goroutines whose chunks fail fill the channel of errors.\<close>

lemma fail_chunks:
  assumes "\<And>a n w. \<exists>e w'. fn a n w = (Some e, w')"
  shows "p_phase s = Waiting \<Longrightarrow> p_running s = [] \<Longrightarrow> p_sending s = [] \<Longrightarrow> p_waiting s = xs @ ys \<Longrightarrow>
    length (p_errs s) + length xs \<le> batch \<Longrightarrow> 0 < batch \<Longrightarrow>
    \<exists>s'. (pool_step batch cs cp fn flush)\<^sup>*\<^sup>* s s' \<and> p_phase s' = Waiting \<and> p_running s' = [] \<and> p_sending s' = []
      \<and> p_waiting s' = ys \<and> length (p_errs s') = length (p_errs s) + length xs \<and> p_cancelled s' = p_cancelled s
      \<and> p_interrupted s' = p_interrupted s"
proof (induction xs arbitrary: s)
  case (Cons c xs)
  obtain off sz where c: "c = (off, sz)" by (cases c)
  obtain e w' where f: "fn off sz (p_world s) = (Some e, w')" using assms by blast
  let ?s1 = "s\<lparr>p_waiting := xs @ ys, p_running := [c]\<rparr>"
  let ?s2 = "?s1\<lparr>p_running := [], p_world := w', p_sending := [e], p_failed := p_failed s @ [c]\<rparr>"
  let ?s3 = "?s2\<lparr>p_sending := [], p_errs := p_errs s @ [e]\<rparr>"
  have "pool_step batch cs cp fn flush s ?s1"
    using pool_step.acquire [of s "[]" c "xs @ ys" batch cs cp fn flush] Cons.prems by simp
  moreover have "pool_step batch cs cp fn flush ?s1 ?s2"
    using pool_step.run_error [of ?s1 "[]" off sz "[]" fn e w' batch cs cp flush] f c Cons.prems by simp
  moreover have "pool_step batch cs cp fn flush ?s2 ?s3"
    using pool_step.send [of ?s2 "[]" e "[]" batch cs cp fn flush] Cons.prems by simp
  ultimately have "(pool_step batch cs cp fn flush)\<^sup>*\<^sup>* s ?s3" by (meson converse_rtranclp_into_rtranclp rtranclp.rtrancl_refl)
  moreover obtain s' where "(pool_step batch cs cp fn flush)\<^sup>*\<^sup>* ?s3 s'" "p_phase s' = Waiting" "p_running s' = []"
    "p_sending s' = []" "p_waiting s' = ys" "length (p_errs s') = length (p_errs s) + length (c # xs)"
    "p_cancelled s' = p_cancelled s" "p_interrupted s' = p_interrupted s"
    using Cons.IH [of ?s3] Cons.prems by auto
  ultimately show ?case by (intro exI [of _ s']) (auto intro: rtranclp_trans)
qed auto

text \<open>A cancelled pool abandons what waits.\<close>

lemma abandon_all:
  "p_cancelled s \<Longrightarrow> (pool_step batch cs cp fn flush)\<^sup>*\<^sup>* s (s\<lparr>p_waiting := []\<rparr>)"
proof (induction "length (p_waiting s)" arbitrary: s)
  case 0
  then have "s\<lparr>p_waiting := []\<rparr> = s" by simp
  then show ?case by simp
next
  case (Suc n)
  then obtain c ys where w: "p_waiting s = [] @ c # ys" by (cases "p_waiting s") auto
  have "(pool_step batch cs cp fn flush)\<^sup>*\<^sup>* (s\<lparr>p_waiting := ys\<rparr>) (s\<lparr>p_waiting := ys\<rparr>\<lparr>p_waiting := []\<rparr>)"
    using Suc w by (intro Suc.hyps(1)) auto
  then show ?case
    using pool_step.abandon [OF w Suc.prems, of batch cs cp fn flush]
    by (simp add: converse_rtranclp_into_rtranclp)
qed

lemma pool_init_simps [simp]:
  "p_offset (pool_init n a w) = a" "p_remain (pool_init n a w) = wrap64 (n - a)" "p_waiting (pool_init n a w) = []"
  "p_running (pool_init n a w) = []" "p_sending (pool_init n a w) = []" "p_errs (pool_init n a w) = []"
  "\<not> p_cancelled (pool_init n a w)" "p_phase (pool_init n a w) = Spawning" "p_world (pool_init n a w) = w"
  "p_spawned (pool_init n a w) = []" "p_done (pool_init n a w) = []" "p_failed (pool_init n a w) = []"
  "\<not> p_interrupted (pool_init n a w)"
  by (simp_all add: pool_init_def)

text \<open>What a file size can be.\<close>

definition file_size :: "int64 \<Rightarrow> bool" where
  "file_size n \<longleftrightarrow> 0 \<le> n \<and> n < 2 ^ 63"

lemma file_size_in_file: "file_size n \<Longrightarrow> wrap64 (n - 0) = n \<and> in_file 0 n"
  by (simp add: file_size_def in_file_def)

lemma plan_exists: "0 < cs \<Longrightarrow> file_size n \<Longrightarrow> \<exists>l. chunk_loop cs cp 0 n = Some l"
  using chunk_loop_plan [of cs 0 n cp] file_size_in_file by auto

lemma chunk_loop_length:
  assumes "0 < cs" and "\<And>a. \<not> cp a"
  shows "in_file off r \<Longrightarrow> chunk_loop cs cp off r = Some l \<Longrightarrow> r \<le> cs * int (length l)"
proof (induction "nat r" arbitrary: off r l rule: less_induct)
  case less
  show ?case
  proof (cases "0 < r")
    case False
    then show ?thesis using less.prems assms(1) by (auto simp: chunk_loop_stop in_file_def)
  next
    case True
    let ?n = "next_size cs r"
    obtain l' where l: "l = (off, ?n) # l'" "chunk_loop cs cp (off + ?n) (r - ?n) = Some l'"
      using less.prems(2) assms(2) chunk_loop_step [OF less.prems(1) assms(1) True, of cp]
      by (auto split: Option.bind_splits)
    have "r - ?n \<le> cs * int (length l')"
      using less.hyps [OF _ in_file_step(3) [OF less.prems(1) assms(1) True] l(2)] next_size_pos [OF assms(1) True] by simp
    then show ?thesis using next_size_pos [OF assms(1) True] by (simp add: l(1) algebra_simps)
  qed
qed

text \<open>Goroutines one after the other, without an error.\<close>

lemma ok_chunks:
  "p_phase s = Waiting \<Longrightarrow> p_running s = [] \<Longrightarrow> p_sending s = [] \<Longrightarrow> p_errs s = [] \<Longrightarrow> 0 < batch \<Longrightarrow>
    run_chunks fn (p_waiting s) (p_world s) = Some w' \<Longrightarrow>
    \<exists>s'. (pool_step batch cs cp fn flush)\<^sup>*\<^sup>* s s' \<and> p_phase s' = Waiting \<and> p_running s' = [] \<and> p_sending s' = []
      \<and> p_errs s' = [] \<and> p_waiting s' = [] \<and> p_world s' = w' \<and> p_interrupted s' = p_interrupted s"
proof (induction "p_waiting s" arbitrary: s)
  case (Cons c xs)
  obtain off sz where c: "c = (off, sz)" by (cases c)
  note w = Cons.hyps(2) [symmetric]
  obtain w1 where f: "fn off sz (p_world s) = (None, w1)" "run_chunks fn xs w1 = Some w'"
    using Cons.prems(6) w c by (auto split: prod.splits option.splits)
  let ?s1 = "s\<lparr>p_waiting := xs, p_running := [c]\<rparr>"
  let ?s2 = "?s1\<lparr>p_running := [], p_world := w1, p_done := p_done s @ [c]\<rparr>"
  have "pool_step batch cs cp fn flush s ?s1"
    using pool_step.acquire [of s "[]" c xs batch cs cp fn flush] Cons.prems w by simp
  moreover have "pool_step batch cs cp fn flush ?s1 ?s2"
    using pool_step.run_ok [of ?s1 "[]" off sz "[]" fn w1 batch cs cp flush] f(1) c by simp
  moreover obtain s' where "(pool_step batch cs cp fn flush)\<^sup>*\<^sup>* ?s2 s'" "p_phase s' = Waiting" "p_running s' = []" "p_sending s' = []"
      "p_errs s' = []" "p_waiting s' = []" "p_world s' = w'" "p_interrupted s' = p_interrupted s"
    using Cons.hyps(1) [of ?s2] Cons.prems f(2) by auto
  ultimately show ?case by (intro exI [of _ s']) (auto intro: converse_rtranclp_into_rtranclp)
qed auto

lemma sequential_run:
  assumes "0 < cs" and "0 < batch" and n: "file_size n" and l: "chunk_loop cs (\<lambda>_. False) 0 n = Some l"
    and "run_chunks fn l w = Some w'"
  shows "\<exists>s. (pool_step batch cs (\<lambda>_. False) fn flush)\<^sup>*\<^sup>* (pool_init n 0 w) s \<and> p_phase s = Returned None
    \<and> \<not> p_interrupted s \<and> p_world s = flush w'"
proof -
  let ?st = "pool_step batch cs (\<lambda>_. False) fn flush"
  note f = file_size_in_file [OF n]
  obtain a r where r1: "?st\<^sup>*\<^sup>* (pool_init n 0 w) ((pool_init n 0 w)\<lparr>p_offset := a, p_remain := r,
      p_waiting := l, p_spawned := l, p_phase := Waiting\<rparr>)" (is "?st\<^sup>*\<^sup>* _ ?s1")
    using spawn_all [OF assms(1), where cp = "\<lambda>_. False" and s = "pool_init n 0 w" and l = l and
        batch = batch and fn = fn and flush = flush] f l by auto
  obtain s2 where s2: "?st\<^sup>*\<^sup>* ?s1 s2" "p_phase s2 = Waiting" "p_running s2 = []" "p_sending s2 = []" "p_errs s2 = []"
      "p_waiting s2 = []" "p_world s2 = w'" "\<not> p_interrupted s2"
    using ok_chunks [of ?s1 batch fn w' cs "\<lambda>_. False" flush] assms(2,5) by auto
  let ?s3 = "s2\<lparr>p_world := flush w', p_errs := [], p_cancelled := True, p_phase := Returned None\<rparr>"
  have "?st s2 ?s3"
    using pool_step.finish [of s2 None batch cs "\<lambda>_. False" fn flush] s2 by simp
  then have "?st\<^sup>*\<^sup>* (pool_init n 0 w) ?s3" using r1 s2(1) by (meson rtranclp.rtrancl_into_rtrancl rtranclp_trans)
  then show ?thesis using s2 by (intro exI [of _ ?s3]) simp
qed

section \<open>Properties\<close>

text \<open>C29: the chunks of a file: with a positive chunk size the planning loop ends, and it plans nonempty
  chunks, at most as long as the chunk size, within the file, in order and without overlap, none of
  them already recorded as completed, so that every byte of the file is in a planned chunk or in a
  chunk that is recorded as completed.\<close>

theorem chunk_loop_covers:
  assumes "0 < chunkSize" and "file_size fileSize"
  shows "\<exists>l. chunk_loop chunkSize completed 0 fileSize = Some l
    \<and> (\<forall>(a, n) \<in> set l. 0 \<le> a \<and> 0 < n \<and> n \<le> chunkSize \<and> a + n \<le> fileSize \<and> \<not> completed a)
    \<and> sorted_wrt (\<lambda>(a, n) (a', n'). a + n \<le> a') l
    \<and> (\<forall>i. 0 \<le> i \<and> i < fileSize \<longrightarrow>
         completed (chunkSize * (i div chunkSize)) \<or> (\<exists>(a, n) \<in> set l. a \<le> i \<and> i < a + n))"
  using chunk_loop_plan [OF assms(1), of 0 fileSize completed] file_size_in_file [OF assms(2)] by fastforce

theorem chunk_loop_covers_witness:
  "chunk_loop 4 (\<lambda>a. a = 4) 0 10 = Some [(0, 4), (8, 2)] \<and>
   sorted_wrt (\<lambda>(a, n) (a', n'). a + n \<le> a') [(0, 4), (8, 2 :: int64)]"
proof -
  have l: "chunk_loop 4 (\<lambda>a. a = 4) 0 10 = Some [(0, 4), (8, 2)]"
    by (simp add: chunk_loop.simps [of 4] next_size_def)
  have "file_size 10" by (simp add: file_size_def)
  from chunk_loop_covers [of 4 10 "\<lambda>a. a = 4", OF _ this] l show ?thesis by simp
qed





text \<open>C32: more failing chunks than \<open>batch\<close> can block \<open>processChunks\<close> for good: when every chunk fails and
  there are more than \<open>batch\<close> of them, some run reaches a state from which it never returns, unless
  its context is cancelled from outside.\<close>

theorem processChunks_deadlock:
  assumes "0 < chunkSize" and "0 < batch" and "file_size fileSize" and "chunkSize * int batch < fileSize"
    and "\<And>a n w. \<exists>e w'. fn a n w = (Some e, w')"
  shows "\<exists>s. (pool_step batch chunkSize (\<lambda>_. False) fn flush)\<^sup>*\<^sup>* (pool_init fileSize 0 w) s
    \<and> never_returns batch chunkSize (\<lambda>_. False) fn flush s"
proof -
  let ?st = "pool_step batch chunkSize (\<lambda>_. False) fn flush"
  note f = file_size_in_file [OF assms(3)]
  obtain l where l: "chunk_loop chunkSize (\<lambda>_. False) 0 fileSize = Some l" using plan_exists [OF assms(1,3)] by blast
  have "chunkSize * int batch < chunkSize * int (length l)"
    using chunk_loop_length [OF assms(1) _ _ l] f assms(4) by force
  then have "batch < length l" using assms(1) by simp
  then obtain xs c ys where split: "l = xs @ c # ys" "length xs = batch" by (metis id_take_nth_drop length_take min.absorb4)
  obtain a r where r1: "?st\<^sup>*\<^sup>* (pool_init fileSize 0 w) ((pool_init fileSize 0 w)\<lparr>p_offset := a, p_remain := r,
      p_waiting := l, p_spawned := l, p_phase := Waiting\<rparr>)" (is "?st\<^sup>*\<^sup>* _ ?s1")
    using spawn_all [OF assms(1), where cp = "\<lambda>_. False" and s = "pool_init fileSize 0 w" and l = l and
        batch = batch and fn = fn and flush = flush] f l by auto
  obtain s2 where s2: "?st\<^sup>*\<^sup>* ?s1 s2" "p_phase s2 = Waiting" "p_running s2 = []" "p_sending s2 = []"
      "p_waiting s2 = c # ys" "length (p_errs s2) = batch" "\<not> p_cancelled s2"
    using fail_chunks [where fn = fn and s = ?s1 and xs = xs and ys = "c # ys" and batch = batch and
        cs = chunkSize and cp = "\<lambda>_. False" and flush = flush, OF assms(5)] split assms(2) by auto
  obtain e w' where e: "fn (fst c) (snd c) (p_world s2) = (Some e, w')" using assms(5) by blast
  let ?s3 = "s2\<lparr>p_waiting := ys, p_running := [c]\<rparr>"
  let ?s4 = "?s3\<lparr>p_running := [], p_world := w', p_sending := [e], p_failed := p_failed s2 @ [c]\<rparr>"
  have "?st s2 ?s3" using pool_step.acquire [of s2 "[]" c ys batch chunkSize "\<lambda>_. False" fn flush] s2 assms(2) by simp
  moreover have "?st ?s3 ?s4"
    using pool_step.run_error [of ?s3 "[]" "fst c" "snd c" "[]" fn e w' batch chunkSize "\<lambda>_. False" flush] e s2 by simp
  ultimately have "?st\<^sup>*\<^sup>* (pool_init fileSize 0 w) ?s4" using r1 s2(1)
    by (meson rtranclp.rtrancl_into_rtrancl rtranclp_trans)
  moreover have "deadlocked batch ?s4" using s2 by (simp add: deadlocked_def)
  then have "never_returns batch chunkSize (\<lambda>_. False) fn flush ?s4"
    using deadlocked_reach by (fastforce simp: deadlocked_def never_returns_def)
  ultimately show ?thesis by blast
qed

theorem processChunks_deadlock_witness:
  "\<exists>s. (pool_step 1 4 (\<lambda>_. False) (\<lambda>_ _ w. (Some ErrEOF, w)) id)\<^sup>*\<^sup>* (pool_init 8 0 ()) s
    \<and> never_returns 1 4 (\<lambda>_. False) (\<lambda>_ _ w. (Some ErrEOF, w)) id s"
  by (rule processChunks_deadlock) (simp_all add: file_size_def)

text \<open>C33: an interrupted transfer can be reported as a success: for a file that is not empty there is a
  run in which the context is cancelled (as SIGINT does) before any chunk was transferred and
  \<open>processChunks\<close> returns \<open>nil\<close>.\<close>

theorem processChunks_interrupted_success:
  assumes "0 < chunkSize" and "file_size fileSize" and "0 < fileSize"
  shows "\<exists>s. (pool_step batch chunkSize (\<lambda>_. False) fn flush)\<^sup>*\<^sup>* (pool_init fileSize 0 w) s
    \<and> p_phase s = Returned None \<and> p_done s = [] \<and> p_spawned s \<noteq> [] \<and> p_interrupted s"
proof -
  let ?st = "pool_step batch chunkSize (\<lambda>_. False) fn flush"
  note f = file_size_in_file [OF assms(2)]
  obtain l where l: "chunk_loop chunkSize (\<lambda>_. False) 0 fileSize = Some l" using plan_exists [OF assms(1,2)] by blast
  have "l \<noteq> []" using chunk_loop_length [OF assms(1) _ _ l] f assms(3) by auto
  obtain a r where r1: "?st\<^sup>*\<^sup>* (pool_init fileSize 0 w) ((pool_init fileSize 0 w)\<lparr>p_offset := a, p_remain := r,
      p_waiting := l, p_spawned := l, p_phase := Waiting\<rparr>)" (is "?st\<^sup>*\<^sup>* _ ?s1")
    using spawn_all [OF assms(1), where cp = "\<lambda>_. False" and s = "pool_init fileSize 0 w" and l = l and
        batch = batch and fn = fn and flush = flush] f l by auto
  let ?s2 = "?s1\<lparr>p_cancelled := True, p_interrupted := True\<rparr>"
  let ?s3 = "?s2\<lparr>p_waiting := []\<rparr>"
  let ?s4 = "?s3\<lparr>p_world := flush w, p_errs := [], p_cancelled := True, p_phase := Returned None\<rparr>"
  have "?st ?s1 ?s2" by (rule pool_step.pool_interrupt) simp_all
  moreover have "?st\<^sup>*\<^sup>* ?s2 ?s3" by (rule abandon_all) simp
  moreover have "?st ?s3 ?s4" using pool_step.finish [of ?s3 None batch chunkSize "\<lambda>_. False" fn flush] by simp
  ultimately have "?st\<^sup>*\<^sup>* (pool_init fileSize 0 w) ?s4" using r1
    by (meson rtranclp.rtrancl_into_rtrancl rtranclp_trans)
  then show ?thesis using \<open>l \<noteq> []\<close> by (intro exI [of _ ?s4]) simp
qed

theorem processChunks_interrupted_success_witness:
  "\<exists>s. (pool_step 3 4 (\<lambda>_. False) (\<lambda>_ _ w. (None, w)) id)\<^sup>*\<^sup>* (pool_init 10 0 ()) s
    \<and> p_phase s = Returned None \<and> p_done s = [] \<and> p_spawned s \<noteq> [] \<and> p_interrupted s"
  by (rule processChunks_interrupted_success) (simp_all add: file_size_def)

end
