(* ===== verification/Assemble.thy ===== *)
theory Assemble
  imports Chunks Files
begin

text \<open>
  From chunks to files. The contract of a function that transfers one chunk (\<open>chunk_transfer\<close>): when
  it reports success, the bytes of the source in that chunk are at their offset in the target, and
  the rest of the target is as before. From it: when \<open>processChunks\<close> reports success, the target is
  the source, followed by whatever the target had beyond the length of the source (\<open>assembled\<close>),
  for every order in which the chunks were transferred. Uploads and downloads both implement the
  contract.
\<close>

text \<open>The chunks done so far are in place, and what lies beyond the source is untouched.\<close>

definition placed :: "bytes \<Rightarrow> bytes \<Rightarrow> chunk list \<Rightarrow> bytes \<Rightarrow> bool" where
  "placed src c0 l c \<longleftrightarrow>
     (\<forall>(a, n) \<in> set l. \<forall>i. a \<le> int i \<and> int i < a + n \<longrightarrow> i < length c \<and> c ! i = src ! i)
   \<and> (\<forall>i. length src \<le> i \<and> i < length c0 \<longrightarrow> i < length c \<and> c ! i = c0 ! i)
   \<and> length c \<le> max (length c0) (length src)"

locale chunk_transfer =
  fixes fn :: "int64 \<Rightarrow> int64 \<Rightarrow> 'w \<Rightarrow> goerror option \<times> 'w"
    and content :: "'w \<Rightarrow> bytes option"
    and src :: bytes
    and ok :: "'w \<Rightarrow> bool"
  assumes transfer: "ok w \<Longrightarrow> 0 \<le> off \<Longrightarrow> 0 < sz \<Longrightarrow> off + sz \<le> int (length src) \<Longrightarrow> fn off sz w = (None, w') \<Longrightarrow>
      ok w' \<and> (\<exists>c. content w = Some c \<and> content w' = Some (write_at c (nat off) (take (nat sz) (drop (nat off) src))))"
begin

lemma placed_step:
  assumes p: "placed src c0 l c" and b: "0 \<le> off" "0 < sz" "off + sz \<le> int (length src)"
  shows "placed src c0 (l @ [(off, sz)]) (write_at c (nat off) (take (nat sz) (drop (nat off) src)))"
proof -
  let ?d = "take (nat sz) (drop (nat off) src)" let ?c = "write_at c (nat off) ?d"
  have d: "length ?d = nat sz" "?d \<noteq> []" using b by auto
  have len: "length ?c = max (length c) (nat off + nat sz)" using d by simp
  have new: "i < length ?c \<and> ?c ! i = src ! i" if "off \<le> int i" "int i < off + sz" for i
  proof -
    have i: "nat off \<le> i" "i < nat off + length ?d" using that b d by linarith+
    then have "i < length ?c" using len d(1) by linarith
    moreover have "?c ! i = ?d ! (i - nat off)"
      unfolding nth_write_at [OF \<open>i < length ?c\<close>] using i by (simp only: if_True simp_thms)
    moreover have "?d ! (i - nat off) = src ! i" using i b by simp
    ultimately show ?thesis by simp
  qed
  have old: "i < length ?c \<and> ?c ! i = (if off \<le> int i \<and> int i < off + sz then src ! i else c ! i)" if "i < length c" for i
  proof (cases "off \<le> int i \<and> int i < off + sz")
    case True
    then show ?thesis using new by simp
  next
    case False
    have "i < length ?c" using that len by linarith
    moreover have "\<not> (nat off \<le> i \<and> i < nat off + length ?d)" using False b d by linarith
    ultimately show ?thesis using False that nth_write_at [of i c "nat off" ?d] by (simp only: if_False if_True simp_thms)
  qed
  have "i < length ?c \<and> ?c ! i = src ! i" if "(a, n) \<in> set (l @ [(off, sz)])" "a \<le> int i" "int i < a + n" for a n i
  proof (cases "(a, n) \<in> set l")
    case True
    then have "i < length c" "c ! i = src ! i" using p that unfolding placed_def by blast+
    then show ?thesis using old by simp
  next
    case False
    then show ?thesis using that new by simp
  qed
  moreover have "i < length ?c \<and> ?c ! i = c0 ! i" if "length src \<le> i" "i < length c0" for i
  proof -
    have "i < length c" "c ! i = c0 ! i" using p that unfolding placed_def by blast+
    moreover have "\<not> int i < off + sz" using that b by linarith
    ultimately show ?thesis using old by simp
  qed
  moreover have "length ?c \<le> max (length c0) (length src)"
  proof -
    have "length c \<le> max (length c0) (length src)" using p by (simp add: placed_def)
    then show ?thesis unfolding len using b by linarith
  qed
  ultimately show ?thesis unfolding placed_def by blast
qed

lemma placed_run:
  assumes "ok w" and "content w = Some c0"
  shows "run_chunks fn l w = Some w' \<Longrightarrow> (\<forall>(a, n) \<in> set l. 0 \<le> a \<and> 0 < n \<and> a + n \<le> int (length src)) \<Longrightarrow>
    ok w' \<and> (\<exists>c. content w' = Some c \<and> placed src c0 l c)"
proof (induction l arbitrary: w' rule: rev_induct)
  case Nil
  then show ?case using assms by (auto simp: placed_def)
next
  case (snoc x l)
  obtain a n where x: "x = (a, n)" by (cases x)
  obtain w1 where w1: "run_chunks fn l w = Some w1" "fn a n w1 = (None, w')"
    using snoc.prems(1) unfolding x by (auto simp: run_chunks_append split: Option.bind_splits prod.splits option.splits)
  obtain c where c: "ok w1" "content w1 = Some c" "placed src c0 l c" using snoc.IH [OF w1(1)] snoc.prems(2) by auto
  have b: "0 \<le> a" "0 < n" "a + n \<le> int (length src)" using snoc.prems(2) x by auto
  show ?case
    using transfer [OF c(1) b w1(2)] c(2) placed_step [OF c(3) b] x by auto
qed

text \<open>All chunks of the source done.\<close>

lemma placed_all:
  assumes "placed src c0 l c" and "\<And>i. i < length src \<Longrightarrow> \<exists>(a, n) \<in> set l. a \<le> int i \<and> int i < a + n"
  shows "c = src @ drop (length src) c0"
proof -
  have s: "i < length c \<and> c ! i = src ! i" if "i < length src" for i
    using assms that unfolding placed_def by blast
  have t: "i < length c \<and> c ! i = c0 ! i" if "length src \<le> i" "i < length c0" for i
    using assms(1) that unfolding placed_def by blast
  have "length c \<le> max (length c0) (length src)" using assms(1) by (simp add: placed_def)
  moreover have "length src \<le> length c" using s [of "length src - 1"] by (cases "length src") auto
  moreover have "length c0 \<le> length c" using s [of "length c0 - 1"] t [of "length c0 - 1"] by (cases "length c0") force+
  ultimately have len: "length c = length (src @ drop (length src) c0)" by simp
  show ?thesis
  proof (rule nth_equalityI [OF len])
    fix i assume "i < length c"
    then show "c ! i = (src @ drop (length src) c0) ! i"
      using s [of i] t [of i] len by (cases "i < length src") (auto simp: nth_append)
  qed
qed

text \<open>Success of \<open>processChunks\<close> without a resume state.\<close>

lemma assembled:
  assumes "(pool_step batch cs (\<lambda>_. False) fn flush)\<^sup>*\<^sup>* (pool_init (int (length src)) 0 w) s"
    and "0 < cs" and "length src < 2 ^ 63" and "p_phase s = Returned None" and "\<not> p_interrupted s"
    and "ok w" and "content w = Some c0"
  shows "\<exists>w'. ok w' \<and> p_world s = flush w' \<and> content w' = Some (src @ drop (length src) c0)"
proof -
  have fs: "file_size (int (length src))" using assms(3) by (simp add: file_size_def)
  have inv: "pool_inv cs (\<lambda>_. False) fn flush 0 (int (length src)) w s"
    by (rule pool_reach_inv [OF assms(1) pool_inv_init assms(2)]) (use file_size_in_file [OF fs] in simp_all)
  then obtain l w' where l: "chunk_loop cs (\<lambda>_. False) 0 (int (length src)) = Some l" "mset (p_done s) = mset l"
      "run_chunks fn (p_done s) w = Some w'" "p_world s = flush w'"
    using assms(4,5) by (auto simp: pool_inv_def end_inv_def)
  have same: "set (p_done s) = set l" using l(2) by (metis set_mset_mset)
  have plan: "\<forall>(a, n) \<in> set l. 0 \<le> a \<and> 0 < n \<and> a + n \<le> int (length src)"
    "\<forall>i. 0 \<le> i \<and> i < int (length src) \<longrightarrow> (\<exists>(a, n) \<in> set l. a \<le> i \<and> i < a + n)"
    using chunk_loop_plan [OF assms(2), of 0 "int (length src)" "\<lambda>_. False"] file_size_in_file [OF fs] l(1) by fastforce+
  obtain c where c: "ok w'" "content w' = Some c" "placed src c0 (p_done s) c"
    using placed_run [OF assms(6,7) l(3)] plan(1) same by auto
  have "c = src @ drop (length src) c0"
    by (rule placed_all [OF c(3)]) (use plan(2) same in auto)
  then show ?thesis using c l(4) by blast
qed

end

end
