(* ===== verification/Upload.thy ===== *)
theory Upload
  imports Session Assemble
begin

text \<open>
  Uploads (\<open>cp_to_host.go\<close>): \<open>uploadFileChunk\<close> reads a chunk and sends it, with retries; \<open>uploadFile\<close>
  creates the remote file, runs \<open>processChunks\<close> and compares the SHA-256 sums if asked to. Since
  \<open>processChunks\<close> is a transition system, \<open>uploadFile\<close> is a relation between the state before, the
  result, whether the context was cancelled meanwhile, and the state after. Delays between attempts
  are left out; a panic of a type assertion is the error \<open>PanicAssertion\<close>.

  The set of completed offsets is asked only for offsets whose chunk was not started yet, which
  nothing adds meanwhile: it is taken once, at the start.
\<close>

section \<open>The code\<close>

fun write_attempts ::
  "options \<Rightarrow> 'w caller \<Rightarrow> string \<Rightarrow> int64 \<Rightarrow> bytes \<Rightarrow> nat \<Rightarrow> goerror option \<Rightarrow> 'w xfer \<Rightarrow> goerror option \<times> 'w xfer" where
  "write_attempts opts call target off buf 0 writeErr x = (writeErr, x)"
| "write_attempts opts call target off buf (Suc n) writeErr x =
     (case on_client (cc_Write (opt_codec opts) (opt_rnd opts) call target off buf (opt_compression opts)) x of
        (Inl wErr, x1) \<Rightarrow> write_attempts opts call target off buf n (Some wErr) x1
      | (Inr (MWriteRes writeRes, _), x1) \<Rightarrow>
          if \<not> wres_Success writeRes then
            write_attempts opts call target off buf n
              (Some (Errorf (''remote write failed at offset '' @ dec_int off @ '': '' @ wres_Error writeRes))) x1
          else (None, x1)
      | (Inr _, x1) \<Rightarrow> (Some PanicAssertion, x1))"

definition uploadFileChunk ::
  "options \<Rightarrow> 'w caller \<Rightarrow> fd \<Rightarrow> string \<Rightarrow> int64 \<Rightarrow> int64 \<Rightarrow> 'w xfer \<Rightarrow> goerror option \<times> 'w xfer" where
  "uploadFileChunk opts call sfd target off sz x =
     (case os_ReadAt sfd (nat sz) off (x_os x) of
        ((_, Some err), s') \<Rightarrow> (Some err, x\<lparr>x_os := s'\<rparr>)
      | ((buf, None), s') \<Rightarrow>
          write_attempts opts call target off buf (attempts (opt_maxRetries opts)) None (x\<lparr>x_os := s'\<rparr>))"

text \<open>The function \<open>uploadFile\<close> hands to \<open>processChunks\<close>.\<close>

definition upload_fn ::
  "options \<Rightarrow> 'w caller \<Rightarrow> fd \<Rightarrow> string \<Rightarrow> int64 \<Rightarrow> int64 \<Rightarrow> 'w xfer \<Rightarrow> goerror option \<times> 'w xfer" where
  "upload_fn opts call sfd target off sz x =
     (case uploadFileChunk opts call sfd target off sz x of
        (Some err, x1) \<Rightarrow> (Some err, x1)
      | (None, x1) \<Rightarrow> (None, snd (on_state (addCompletedOffset (opt_json opts) off) x1)))"

definition flush_state :: "options \<Rightarrow> 'w xfer \<Rightarrow> 'w xfer" where
  "flush_state opts x = snd (on_state (flushResumeState (opt_json opts)) x)"

definition open_source :: "string \<Rightarrow> 'w xfer \<Rightarrow> (goerror + fd) \<times> 'w xfer" where
  "open_source srcPath x = (let (r, s') = os_Open srcPath (x_os x) in (r, x\<lparr>x_os := s'\<rparr>))"

text \<open>A fresh transfer: the source can be opened, the remote file is created.\<close>

definition upload_create ::
  "'w caller \<Rightarrow> string \<Rightarrow> string \<Rightarrow> FileInfo \<Rightarrow> 'w xfer \<Rightarrow> (goerror + fd) \<times> 'w xfer" where
  "upload_create call srcPath target info x =
     (case open_source srcPath x of
        (Inl err, x1) \<Rightarrow> (Inl err, x1)
      | (Inr sfd, x1) \<Rightarrow>
          (case on_client (cc_Create call target (fi_Size info) (Perm (fi_Mode info))) (x1\<lparr>x_os := os_Close sfd (x_os x1)\<rparr>) of
             (Inl err, x2) \<Rightarrow> (Inl err, x2)
           | (Inr (MCreateRes createRes, _), x2) \<Rightarrow>
               if \<not> cres_Success createRes
               then (Inl (Errorf (''remote create failed: '' @ cres_Error createRes)), x2)
               else open_source srcPath x2
           | (Inr _, x2) \<Rightarrow> (Inl PanicAssertion, x2)))"

definition upload_begin ::
  "options \<Rightarrow> 'w caller \<Rightarrow> string \<Rightarrow> string \<Rightarrow> FileInfo \<Rightarrow> int64 \<Rightarrow> 'w xfer \<Rightarrow> (goerror + fd) \<times> 'w xfer" where
  "upload_begin opts call srcPath target info batch x =
     (case loadResumeState (opt_json opts) (opt_tmpDir opts) srcPath target (fi_Size info) (opt_chunkSize opts) batch (x_os x) of
        (Some st, s1) \<Rightarrow> open_source srcPath (x\<lparr>x_os := s1, x_state := Some st\<rparr>)
      | (None, s1) \<Rightarrow> upload_create call srcPath target info (x\<lparr>x_os := s1, x_state := None\<rparr>))"

definition upload_end :: "options \<Rightarrow> 'w caller \<Rightarrow> string \<Rightarrow> string \<Rightarrow> fd \<Rightarrow> 'w xfer \<Rightarrow> goerror option \<times> 'w xfer" where
  "upload_end opts call srcPath target sfd x =
     (case (if opt_sha256 opts then verifyFileHash call target srcPath x else (None, x)) of
        (Some err, x1) \<Rightarrow> (Some err, x1\<lparr>x_os := os_Close sfd (x_os x1)\<rparr>)
      | (None, x1) \<Rightarrow> (None, x1\<lparr>x_os := os_Close sfd (deleteResumeState (x_state x1) (x_os x1))\<rparr>))"

inductive uploadFile ::
  "options \<Rightarrow> 'w caller \<Rightarrow> string \<Rightarrow> string \<Rightarrow> FileInfo \<Rightarrow> int64 \<Rightarrow> 'w xfer \<Rightarrow> goerror option \<Rightarrow> bool \<Rightarrow> 'w xfer \<Rightarrow> bool"
  for opts call srcPath target info batch x where
  refused: "upload_begin opts call srcPath target info batch x = (Inl err, x') \<Longrightarrow>
    uploadFile opts call srcPath target info batch x (Some err) False x'"
| failed: "upload_begin opts call srcPath target info batch x = (Inr sfd, x1) \<Longrightarrow>
    (pool_step (nat batch) (opt_chunkSize opts) (isCompleted (x_state x1)) (upload_fn opts call sfd target) (flush_state opts))\<^sup>*\<^sup>*
      (pool_init (fi_Size info) 0 x1) s \<Longrightarrow>
    p_phase s = Returned (Some err) \<Longrightarrow> x' = (p_world s)\<lparr>x_os := os_Close sfd (x_os (p_world s))\<rparr> \<Longrightarrow>
    uploadFile opts call srcPath target info batch x (Some err) (p_interrupted s) x'"
| finished: "upload_begin opts call srcPath target info batch x = (Inr sfd, x1) \<Longrightarrow>
    (pool_step (nat batch) (opt_chunkSize opts) (isCompleted (x_state x1)) (upload_fn opts call sfd target) (flush_state opts))\<^sup>*\<^sup>*
      (pool_init (fi_Size info) 0 x1) s \<Longrightarrow>
    p_phase s = Returned None \<Longrightarrow> upload_end opts call srcPath target sfd (p_world s) = (r, x') \<Longrightarrow>
    uploadFile opts call srcPath target info batch x r (p_interrupted s) x'"

text \<open>A success has run all of the code.\<close>

lemma uploadFile_success:
  assumes "uploadFile opts call srcPath target info batch x None interrupted x'"
  obtains sfd x1 s where "upload_begin opts call srcPath target info batch x = (Inr sfd, x1)"
    "(pool_step (nat batch) (opt_chunkSize opts) (isCompleted (x_state x1)) (upload_fn opts call sfd target) (flush_state opts))\<^sup>*\<^sup>*
      (pool_init (fi_Size info) 0 x1) s"
    "p_phase s = Returned None" "p_interrupted s = interrupted" "upload_end opts call srcPath target sfd (p_world s) = (None, x')"
  using assms by (cases rule: uploadFile.cases) auto

definition cpOneFileToHost ::
  "options \<Rightarrow> 'w caller \<Rightarrow> string \<Rightarrow> string \<Rightarrow> 'w xfer \<Rightarrow> goerror option \<Rightarrow> bool \<Rightarrow> 'w xfer \<Rightarrow> bool" where
  "cpOneFileToHost opts call src target x r interrupted x' \<longleftrightarrow>
     (case os_Stat src (x_os x) of
        (Inl err, s1) \<Rightarrow> r = Some err \<and> \<not> interrupted \<and> x' = x\<lparr>x_os := s1\<rparr>
      | (Inr sfinfo, s1) \<Rightarrow> uploadFile opts call src target sfinfo (cc_batch (x_cc x)) (x\<lparr>x_os := s1\<rparr>) r interrupted x')"

section \<open>One chunk\<close>

lemma write_at_overwrite: "write_at (write_at c off (take k d)) off d = write_at c off d"
proof (cases "take k d = []")
  case False
  let ?A = "take off (c @ replicate (off - length c) 0)"
  have w: "write_at c off (take k d) = ?A @ take k d @ drop (off + length (take k d)) c"
    using False by (simp only: write_at_def if_False)
  have A: "length ?A = off" by simp
  have "drop (off + length d) (?A @ take k d @ drop (off + length (take k d)) c) = drop (off + length d) c"
    by (simp add: min_def add.commute)
  then show ?thesis using False A by (simp add: w) (simp add: write_at_def)
qed (simp only: write_at_Nil)

lemma ReadAt_full: "os_ReadAt f n off s = ((d, None), s') \<Longrightarrow> length d = n"
  by (auto simp: os_ReadAt_def Let_def tick_def split: option.splits if_splits)

lemma write_attempts_local: "x_os (snd (write_attempts opts call target off d n e x)) = x_os x
    \<and> x_state (snd (write_attempts opts call target off d n e x)) = x_state x"
proof (induction n arbitrary: e x)
  case (Suc n)
  obtain r x1 where c: "on_client (cc_Write (opt_codec opts) (opt_rnd opts) call target off d (opt_compression opts)) x = (r, x1)"
    by (cases "on_client (cc_Write (opt_codec opts) (opt_rnd opts) call target off d (opt_compression opts)) x")
  then show ?case using Suc on_client_keeps [OF c] by (auto split: sum.splits MSG.splits)
qed simp

text \<open>Attempts, the last of which succeeded, leave the chunk in the file, whatever the others wrote.\<close>

lemma write_attempts_done:
  assumes "session_ok conn ca (x_cc x) (x_net x)" and "opt_codec opts = env_codec env" and "codec_ok (env_codec env) (opt_rnd opts)"
    and "sandboxPath (Some ca) target = Inr p" and "d \<noteq> []"
    and "write_attempts opts (direct_call env rnd conn) target off d n e x = (None, x')" and "n = 0 \<Longrightarrow> e \<noteq> None"
  shows "session_ok conn ca (x_cc x') (x_net x') \<and> (\<exists>c. file_data (srv_os (x_net x)) p = Some c
    \<and> file_data (srv_os (x_net x')) p = Some (write_at c (nat off) d))"
  using assms(1,6,7)
proof (induction n arbitrary: e x)
  case 0
  then show ?case by simp
next
  case (Suc n)
  let ?m = "cc_Write (opt_codec opts) (opt_rnd opts) (direct_call env rnd conn) target off d (opt_compression opts)"
  obtain r x1 where c: "on_client ?m x = (r, x1)" by (cases "on_client ?m x")
  obtain cc1 srv1 where m: "?m (x_cc x, x_net x) = (r, cc1, srv1)" "x1 = x\<lparr>x_cc := cc1, x_net := srv1\<rparr>"
    using on_client_simps [OF c] by blast
  have eff: "session_ok conn ca cc1 srv1" "write_result d off p (x_net x) srv1 r"
    using cc_Write_effect [OF Suc.prems(1) assms(3,5,4)] m(1) assms(2) by metis+
  show ?case
  proof (cases "\<exists>res q. r = Inr (MWriteRes res, q) \<and> wres_Success res")
    case True
    then show ?thesis using Suc.prems(2) c m eff by (auto simp: write_result_def)
  next
    case False
    have "\<exists>k. file_data (srv_os srv1) p = map_option (\<lambda>c. write_at c (nat off) (take k d)) (file_data (srv_os (x_net x)) p)"
    proof (cases r)
      case (Inl e)
      then show ?thesis using eff(2) by (intro exI [of _ 0]) (simp add: write_result_def option.map_ident)
    qed (use eff(2) False in \<open>auto simp: write_result_def\<close>)
    moreover have "\<exists>e'. write_attempts opts (direct_call env rnd conn) target off d n (Some e') x1 = (None, x')"
      using eff(2) Suc.prems(2) c False by (cases r) (auto simp: write_result_def)
    ultimately obtain k e' where k:
        "file_data (srv_os srv1) p = map_option (\<lambda>c. write_at c (nat off) (take k d)) (file_data (srv_os (x_net x)) p)"
        "write_attempts opts (direct_call env rnd conn) target off d n (Some e') x1 = (None, x')"
      by blast
    have "session_ok conn ca (x_cc x1) (x_net x1)" using eff(1) m(2) by simp
    from Suc.IH [OF this k(2)] show ?thesis using k(1) m(2) by (auto simp: write_at_overwrite)
  qed
qed

text \<open>What holds while chunks are uploaded: the session, the source open for reading, no resume state,
  and what is fixed for the transfer.\<close>

definition up_ok ::
  "options \<Rightarrow> ('pk, 'sig) server_env \<Rightarrow> connid \<Rightarrow> connAuth \<Rightarrow> string \<Rightarrow> string \<Rightarrow> fd \<Rightarrow> string \<Rightarrow> bytes \<Rightarrow> copierServer xfer \<Rightarrow> bool" where
  "up_ok opts env conn ca target p sfd srcPath src x \<longleftrightarrow>
     opt_codec opts = env_codec env \<and> codec_ok (env_codec env) (opt_rnd opts) \<and> sandboxPath (Some ca) target = Inr p
   \<and> 0 \<le> opt_maxRetries opts \<and> session_ok conn ca (x_cc x) (x_net x) \<and> x_state x = None \<and> coherent (x_os x)
   \<and> (\<exists>i. fds (x_os x) sfd = Some (srcPath, i, False)) \<and> file_data (x_os x) srcPath = Some src"

lemma upload_transfer:
  assumes ok: "up_ok opts env conn ca target p sfd srcPath src x" and off: "0 \<le> off" "0 < sz" "off + sz \<le> int (length src)"
    and up: "upload_fn opts (direct_call env rnd conn) sfd target off sz x = (None, x')"
  shows "up_ok opts env conn ca target p sfd srcPath src x' \<and> (\<exists>c. file_data (srv_os (x_net x)) p = Some c
    \<and> file_data (srv_os (x_net x')) p = Some (write_at c (nat off) (take (nat sz) (drop (nat off) src))))"
proof -
  obtain i where i: "fds (x_os x) sfd = Some (srcPath, i, False)" using ok by (auto simp: up_ok_def)
  have co: "coherent (x_os x)" and src: "file_data (x_os x) srcPath = Some src" using ok by (simp_all add: up_ok_def)
  obtain buf e s1 where rd: "os_ReadAt sfd (nat sz) off (x_os x) = ((buf, e), s1)" by (metis prod.exhaust)
  have e: "e = None" using up rd by (auto simp: upload_fn_def uploadFileChunk_def split: option.splits)
  have buf: "buf \<noteq> []" using ReadAt_full [OF rd [unfolded e]] off by auto
  then have d: "buf = take (nat sz) (drop (nat off) src)"
    using ReadAt_data [OF co i rd] src e by auto
  let ?x1 = "x\<lparr>x_os := s1\<rparr>"
  obtain x2 where w: "write_attempts opts (direct_call env rnd conn) target off buf (attempts (opt_maxRetries opts)) None ?x1 = (None, x2)"
    and x': "x' = snd (on_state (addCompletedOffset (opt_json opts) off) x2)"
    using up rd e by (auto simp: upload_fn_def uploadFileChunk_def split: prod.splits option.splits)
  have l: "x_os x2 = s1" "x_state x2 = None"
    using write_attempts_local [of opts "direct_call env rnd conn" target off buf "attempts (opt_maxRetries opts)" None ?x1] w ok by (auto simp: up_ok_def)
  have x2: "x' = x2" using x' l by (simp add: on_state_def addCompletedOffset_def)
  have s1: "coherent s1" "fds s1 sfd = Some (srcPath, i, False)" "file_data s1 srcPath = Some src"
    using coherent_calls(5) [OF co, of sfd "nat sz" off] fds_unchanged(8) [of sfd "nat sz" off "x_os x"] i src
      same_files_data [OF same_files_ReadAt [of "x_os x" sfd "nat sz" off], of srcPath] rd by simp_all
  have "session_ok conn ca (x_cc x2) (x_net x2) \<and> (\<exists>c. file_data (srv_os (x_net ?x1)) p = Some c
      \<and> file_data (srv_os (x_net x2)) p = Some (write_at c (nat off) buf))"
    using ok by (intro write_attempts_done [OF _ _ _ _ buf w]) (auto simp: up_ok_def attempts_def)
  then show ?thesis using ok s1 l x2 d by (auto simp: up_ok_def)
qed

interpretation up: chunk_transfer "upload_fn opts (direct_call env rnd conn) sfd target" "\<lambda>x. file_data (srv_os (x_net x)) p" src
    "up_ok opts env conn ca target p sfd srcPath src" for opts env rnd conn ca target p sfd srcPath src
  by unfold_locales (rule upload_transfer)

section \<open>The whole file\<close>

text \<open>What an upload starts from.\<close>

definition upload_ready ::
  "options \<Rightarrow> ('pk, 'sig) server_env \<Rightarrow> connid \<Rightarrow> connAuth \<Rightarrow> string \<Rightarrow> string \<Rightarrow> string \<Rightarrow> bytes \<Rightarrow> copierServer xfer \<Rightarrow> bool" where
  "upload_ready opts env conn ca target p srcPath src x \<longleftrightarrow>
     opt_codec opts = env_codec env \<and> codec_ok (env_codec env) (opt_rnd opts) \<and> sandboxPath (Some ca) target = Inr p
   \<and> 0 \<le> opt_maxRetries opts \<and> 0 < opt_chunkSize opts \<and> session_ok conn ca (x_cc x) (x_net x)
   \<and> os_wf (x_os x) \<and> coherent (x_os x) \<and> file_data (x_os x) srcPath = Some src \<and> length src < 2 ^ 63
   \<and> file_data (x_os x) (stateFilePath (opt_tmpDir opts) srcPath target) = None"

lemma open_source_ok:
  assumes "open_source srcPath x = (Inr f, x')" and "os_wf (x_os x)" and "coherent (x_os x)"
  shows "same_files (x_os x) (x_os x') \<and> coherent (x_os x') \<and> os_wf (x_os x') \<and> (\<exists>i. fds (x_os x') f = Some (srcPath, i, False))
    \<and> x_net x' = x_net x \<and> x_cc x' = x_cc x \<and> x_state x' = x_state x"
proof -
  obtain s1 where op: "os_Open srcPath (x_os x) = (Inr f, s1)" "x' = x\<lparr>x_os := s1\<rparr>"
    using assms(1) by (auto simp: open_source_def split: prod.splits)
  have "coherent s1" "os_wf s1"
    using op(1) coherent_OpenFile [OF assms(3,2)] os_wf_OpenFile [OF assms(2)] unfolding os_Open_def by (metis snd_conv)+
  then show ?thesis using Open_data [OF op(1)] op(2) by auto
qed

lemma upload_begin_ok:
  assumes r: "upload_ready opts env conn ca target p srcPath src x" and sz: "fi_Size info = int (length src)"
    and b: "upload_begin opts (direct_call env rnd conn) srcPath target info batch x = (Inr sfd, x1)"
  shows "up_ok opts env conn ca target p sfd srcPath src x1 \<and> (\<exists>c. file_data (srv_os (x_net x1)) p = Some c
    \<and> (file_data (srv_os (x_net x)) p = Some c \<or> length c = length src))"
proof -
  let ?load = "loadResumeState (opt_json opts) (opt_tmpDir opts) srcPath target (fi_Size info) (opt_chunkSize opts) batch (x_os x)"
  obtain s1 where l: "?load = (None, s1)"
    using load_fresh [of "x_os x" "opt_tmpDir opts" srcPath target] r by (metis prod.collapse upload_ready_def)
  have s1: "same_files (x_os x) s1" "os_wf s1" "coherent s1"
    using load_files [of "x_os x"] l r by (metis snd_conv upload_ready_def)+
  let ?x1 = "x\<lparr>x_os := s1, x_state := None\<rparr>"
  obtain f x2 where f: "open_source srcPath ?x1 = (Inr f, x2)"
    using b l by (auto simp: upload_begin_def upload_create_def split: prod.splits sum.splits)
  have x2: "same_files s1 (x_os x2)" "coherent (x_os x2)" "os_wf (x_os x2)" "x_net x2 = x_net x" "x_cc x2 = x_cc x" "x_state x2 = None"
    using open_source_ok [OF f] s1 by simp_all
  let ?x3 = "x2\<lparr>x_os := os_Close f (x_os x2)\<rparr>"
  let ?m = "cc_Create (direct_call env rnd conn) target (fi_Size info) (Perm (fi_Mode info))"
  obtain h x4 where c: "on_client ?m ?x3 = (h, x4)" by (cases "on_client ?m ?x3")
  obtain cc4 srv4 where m: "?m (x_cc x, x_net x) = (h, cc4, srv4)" "x4 = ?x3\<lparr>x_cc := cc4, x_net := srv4\<rparr>"
    using on_client_simps [OF c] x2 by auto
  have so: "session_ok conn ca (x_cc x) (x_net x)" and pa: "sandboxPath (Some ca) target = Inr p" using r by (simp_all add: upload_ready_def)
  obtain res q where h: "h = Inr (MCreateRes res, q)" "session_ok conn ca cc4 srv4"
      "cres_Success res \<longrightarrow> (\<exists>c. file_data (srv_os srv4) p = Some c \<and> (file_data (srv_os (x_net x)) p = Some c \<or> length c = nat (fi_Size info)))"
    using cc_Create_effect [OF so pa m(1)] by blast
  have o: "cres_Success res" "open_source srcPath x4 = (Inr sfd, x1)"
    using b l f c h(1) by (auto simp: upload_begin_def upload_create_def split: if_splits)
  have x4: "os_wf (x_os x4)" "coherent (x_os x4)" "same_files (x_os x) (x_os x4)" "x_state x4 = None" "x_net x4 = srv4" "x_cc x4 = cc4"
    using m(2) x2 os_wf_Close coherent_Close same_files_trans [OF same_files_trans [OF s1(1) x2(1)] same_files_Close] by auto
  have x1: "same_files (x_os x4) (x_os x1)" "coherent (x_os x1)" "\<exists>i. fds (x_os x1) sfd = Some (srcPath, i, False)"
      "x_net x1 = srv4" "x_cc x1 = cc4" "x_state x1 = None"
    using open_source_ok [OF o(2) x4(1,2)] x4 by simp_all
  have "file_data (x_os x1) srcPath = Some src"
    using same_files_data [OF same_files_trans [OF x4(3) x1(1)]] r by (simp add: upload_ready_def)
  then show ?thesis using r h o(1) x1 sz by (auto simp: up_ok_def upload_ready_def)
qed

lemma up_ok_flush: "up_ok opts env conn ca target p sfd srcPath src x \<Longrightarrow> flush_state opts x = x"
  by (simp add: up_ok_def flush_state_def on_state_def flushResumeState_def)

lemma up_ok_flushed: "up_ok opts env conn ca target p sfd srcPath src x \<Longrightarrow> up_ok opts env conn ca target p sfd srcPath src (flush_state opts x)"
  by (metis up_ok_flush)

lemma upload_end_net:
  assumes "session_ok conn ca (x_cc x) (x_net x)" and "sandboxPath (Some ca) target = Inr p"
    and "upload_end opts (direct_call env rnd conn) srcPath target sfd x = (r, x')"
  shows "file_data (srv_os (x_net x')) p = file_data (srv_os (x_net x)) p"
  using assms(3) verifyFileHash_effect [OF assms(1,2), of env rnd srcPath] same_files_data
  by (fastforce simp: upload_end_def split: if_splits prod.splits option.splits)

lemma uploadFile_data:
  assumes up: "uploadFile opts (direct_call env rnd conn) srcPath target info batch x None False x'"
    and r: "upload_ready opts env conn ca target p srcPath src x" and sz: "fi_Size info = int (length src)"
  shows "\<exists>c. (file_data (srv_os (x_net x)) p = Some c \<or> length c = length src)
    \<and> file_data (srv_os (x_net x')) p = Some (src @ drop (length src) c)"
proof -
  obtain sfd x1 s where u: "upload_begin opts (direct_call env rnd conn) srcPath target info batch x = (Inr sfd, x1)"
    "(pool_step (nat batch) (opt_chunkSize opts) (isCompleted (x_state x1)) (upload_fn opts (direct_call env rnd conn) sfd target)
        (flush_state opts))\<^sup>*\<^sup>* (pool_init (fi_Size info) 0 x1) s"
    "p_phase s = Returned None" "p_interrupted s = False" "upload_end opts (direct_call env rnd conn) srcPath target sfd (p_world s) = (None, x')"
    by (rule uploadFile_success [OF up])
  let ?ok = "up_ok opts env conn ca target p sfd srcPath src"
  obtain c where b: "?ok x1" "file_data (srv_os (x_net x1)) p = Some c" "file_data (srv_os (x_net x)) p = Some c \<or> length c = length src"
    using upload_begin_ok [OF r sz u(1)] by blast
  have cp: "isCompleted (x_state x1) = (\<lambda>_. False)" using b(1) by (simp add: up_ok_def isCompleted_def fun_eq_iff)
  have cs: "0 < opt_chunkSize opts" "length src < 2 ^ 63" using r by (simp_all add: upload_ready_def)
  obtain w' where w: "?ok w'" "p_world s = flush_state opts w'" "file_data (srv_os (x_net w')) p = Some (src @ drop (length src) c)"
    using up.assembled [OF u(2) [unfolded cp sz] cs u(3) _ b(1,2)] u(4) by auto
  then have w': "p_world s = w'" using up_ok_flush by metis
  have "session_ok conn ca (x_cc w') (x_net w')" "sandboxPath (Some ca) target = Inr p" using w(1) by (simp_all add: up_ok_def)
  then show ?thesis using upload_end_net [OF _ _ u(5) [unfolded w']] w(3) b(3) by auto
qed

section \<open>What every schedule keeps\<close>

lemma write_attempts_session:
  assumes "opt_codec opts = env_codec env" and "session_ok conn ca (x_cc x) (x_net x)"
    and "write_attempts opts (direct_call env rnd conn) target off d n e x = (r, x')"
  shows "session_ok conn ca (x_cc x') (x_net x')"
  using assms(2,3)
proof (induction n arbitrary: e x)
  case (Suc n)
  let ?m = "cc_Write (opt_codec opts) (opt_rnd opts) (direct_call env rnd conn) target off d (opt_compression opts)"
  obtain h x1 where c: "on_client ?m x = (h, x1)" by (cases "on_client ?m x")
  then have "session_ok conn ca (x_cc x1) (x_net x1)"
    using on_client_simps [OF c] cc_Write_session [OF Suc.prems(1)] assms(1) by fastforce
  then show ?case using Suc c by (auto split: sum.splits MSG.splits if_splits)
qed simp

lemma uploadFileChunk_local:
  "x_state (snd (uploadFileChunk opts call sfd target off sz x)) = x_state x"
  "x_os (snd (uploadFileChunk opts call sfd target off sz x)) = snd (os_ReadAt sfd (nat sz) off (x_os x))"
proof -
  obtain d e s1 where "os_ReadAt sfd (nat sz) off (x_os x) = ((d, e), s1)" by (metis prod.exhaust)
  then show "x_state (snd (uploadFileChunk opts call sfd target off sz x)) = x_state x"
    "x_os (snd (uploadFileChunk opts call sfd target off sz x)) = snd (os_ReadAt sfd (nat sz) off (x_os x))"
    by (cases e; simp add: uploadFileChunk_def write_attempts_local)+
qed

lemma upload_fn_fresh:
  assumes "x_state x = None"
  shows "upload_fn opts call sfd target off sz x = uploadFileChunk opts call sfd target off sz x"
proof -
  obtain e x1 where u: "uploadFileChunk opts call sfd target off sz x = (e, x1)" by (cases "uploadFileChunk opts call sfd target off sz x")
  then have "x_state x1 = None" using uploadFileChunk_local(1) [of opts call sfd target off sz x] assms by simp
  then show ?thesis using u by (simp add: upload_fn_def on_state_def addCompletedOffset_def split: option.split)
qed

lemma uploadFileChunk_session:
  assumes "opt_codec opts = env_codec env" and "session_ok conn ca (x_cc x) (x_net x)"
    and "uploadFileChunk opts (direct_call env rnd conn) sfd target off sz x = (r, x')"
  shows "session_ok conn ca (x_cc x') (x_net x')"
proof -
  obtain d e s1 where rd: "os_ReadAt sfd (nat sz) off (x_os x) = ((d, e), s1)" by (metis prod.exhaust)
  show ?thesis
  proof (cases e)
    case None
    then show ?thesis using assms(3) rd write_attempts_session [OF assms(1), of conn ca "x\<lparr>x_os := s1\<rparr>"] assms(2)
      by (auto simp: uploadFileChunk_def)
  qed (use assms(2,3) rd in \<open>auto simp: uploadFileChunk_def\<close>)
qed

lemma up_ok_fn:
  assumes ok: "up_ok opts env conn ca target p sfd srcPath src x"
  shows "up_ok opts env conn ca target p sfd srcPath src (snd (upload_fn opts (direct_call env rnd conn) sfd target off sz x))"
proof -
  have st: "x_state x = None" and co: "coherent (x_os x)" using ok by (simp_all add: up_ok_def)
  obtain r x' where u: "uploadFileChunk opts (direct_call env rnd conn) sfd target off sz x = (r, x')"
    by (cases "uploadFileChunk opts (direct_call env rnd conn) sfd target off sz x")
  have "session_ok conn ca (x_cc x') (x_net x')"
    using uploadFileChunk_session [OF _ _ u] ok by (simp add: up_ok_def)
  then show ?thesis
    using ok u uploadFileChunk_local [of opts "direct_call env rnd conn" sfd target off sz x]
      coherent_calls(5) [OF co, of sfd "nat sz" off] same_files_data [OF same_files_ReadAt [of "x_os x" sfd "nat sz" off]]
    by (simp add: up_ok_def upload_fn_fresh [OF st])
qed

text \<open>No local file touched, no resume state: what a fresh upload keeps.\<close>

definition untouched :: "os_state \<Rightarrow> 'w xfer \<Rightarrow> bool" where
  "untouched s0 x \<longleftrightarrow> same_files s0 (x_os x) \<and> x_state x = None"

lemma untouched_open: "open_source srcPath x = (q, x') \<Longrightarrow> untouched s0 x \<Longrightarrow> untouched s0 x'"
  using same_files_Open [of "x_os x" srcPath] same_files_trans
  by (auto simp: untouched_def open_source_def split: prod.splits)

lemma untouched_close: "untouched s0 x \<Longrightarrow> untouched s0 (x\<lparr>x_os := os_Close f (x_os x)\<rparr>)"
  using same_files_trans same_files_Close by (fastforce simp: untouched_def)

lemma untouched_client: "on_client m x = (r, x') \<Longrightarrow> untouched s0 x \<Longrightarrow> untouched s0 x'"
  using on_client_keeps by (fastforce simp: untouched_def)

lemma untouched_create:
  assumes "upload_create call srcPath target info x = (q, x')" and "untouched s0 x"
  shows "untouched s0 x'"
proof -
  obtain e x1 where o: "open_source srcPath x = (e, x1)" by (cases "open_source srcPath x")
  note x1 = untouched_open [OF o assms(2)]
  show ?thesis
  proof (cases e)
    case (Inr f)
    let ?y = "x1\<lparr>x_os := os_Close f (x_os x1)\<rparr>" let ?m = "cc_Create call target (fi_Size info) (Perm (fi_Mode info))"
    obtain h x2 where c: "on_client ?m ?y = (h, x2)" by (cases "on_client ?m ?y")
    have "untouched s0 x2" by (rule untouched_client [OF c untouched_close [OF x1]])
    then show ?thesis
      using assms(1) o Inr c untouched_open [of srcPath x2]
      by (auto simp: upload_create_def split: sum.splits MSG.splits if_splits)
  qed (use assms x1 o in \<open>simp add: upload_create_def\<close>)
qed

lemma untouched_begin:
  assumes "file_data (x_os x) (stateFilePath (opt_tmpDir opts) srcPath target) = None"
    and "upload_begin opts call srcPath target info batch x = (q, x1)"
  shows "untouched (x_os x) x1"
proof -
  let ?l = "loadResumeState (opt_json opts) (opt_tmpDir opts) srcPath target (fi_Size info) (opt_chunkSize opts) batch (x_os x)"
  have "?l = (None, snd ?l)" using load_fresh [OF assms(1)] by (metis prod.collapse)
  moreover have "untouched (x_os x) (x\<lparr>x_os := snd ?l, x_state := None\<rparr>)" using load_files(1) by (simp add: untouched_def)
  ultimately show ?thesis
    using assms(2) untouched_create [of call srcPath target info] by (auto simp: upload_begin_def split: prod.splits)
qed

lemma untouched_pool:
  assumes "(pool_step b cs cp (upload_fn opts call sfd target) (flush_state opts))\<^sup>*\<^sup>* (pool_init n 0 x) s" and "untouched s0 x"
  shows "untouched s0 (p_world s)"
proof (rule pool_world_inv [where I = "untouched s0", OF assms(1)])
  show "untouched s0 (snd (upload_fn opts call sfd target a n w))" if "untouched s0 w" for a n w
    using that uploadFileChunk_local [of opts call sfd target a n w] same_files_ReadAt same_files_trans
    by (fastforce simp: upload_fn_fresh untouched_def)
  show "untouched s0 (flush_state opts w)" if "untouched s0 w" for w
    using that by (simp add: flush_state_def on_state_def flushResumeState_def untouched_def)
qed (use assms(2) in simp)

lemma untouched_end:
  assumes "upload_end opts call srcPath target sfd x = (q, x')" and "untouched s0 x"
  shows "untouched s0 x'"
proof -
  have v: "untouched s0 x1" if "verifyFileHash call target srcPath x = (h, x1)" for h x1
    using verifyFileHash_local [OF that] assms(2) same_files_trans by (fastforce simp: untouched_def)
  have d: "untouched s0 (y\<lparr>x_os := os_Close sfd (deleteResumeState (x_state y) (x_os y))\<rparr>)" if "untouched s0 y" for y
    using untouched_close [OF that, of sfd] that by (simp add: untouched_def deleteResumeState_def)
  show ?thesis
    using assms v d untouched_close by (auto simp: upload_end_def split: prod.splits option.splits if_splits)
qed

section \<open>A concrete upload\<close>

text \<open>An upload whose chunks are sent one after the other.\<close>

lemma uploadFile_sequential:
  assumes "upload_begin opts call srcPath target info batch x = (Inr sfd, x1)" and "x_state x1 = None"
    and "0 < opt_chunkSize opts" and "0 < batch" and "file_size (fi_Size info)"
    and "chunk_loop (opt_chunkSize opts) (\<lambda>_. False) 0 (fi_Size info) = Some l"
    and "run_chunks (upload_fn opts call sfd target) l x1 = Some w"
    and "upload_end opts call srcPath target sfd (flush_state opts w) = (None, x')"
  shows "uploadFile opts call srcPath target info batch x None False x'"
proof -
  have c: "isCompleted (x_state x1) = (\<lambda>_. False)" using assms(2) by (simp add: isCompleted_def fun_eq_iff)
  obtain s where "(pool_step (nat batch) (opt_chunkSize opts) (isCompleted (x_state x1)) (upload_fn opts call sfd target)
        (flush_state opts))\<^sup>*\<^sup>* (pool_init (fi_Size info) 0 x1) s" "p_phase s = Returned None" "\<not> p_interrupted s"
      "p_world s = flush_state opts w"
    using sequential_run [OF assms(3) _ assms(5,6,7), of "nat batch" "flush_state opts"] assms(4) unfolding c by auto
  then show ?thesis using uploadFile.finished [OF assms(1)] assms(8) by metis
qed

text \<open>Sums stay symbolic in evaluations.\<close>

declare Sum256_def [code del]

definition sample_ca :: connAuth where
  "sample_ca = \<lparr>ca_state = authOK, ca_challenge = None, ca_pubKey = [], ca_user = ''al'', ca_home = ''/'',
     ca_encryptionKey = Some [9]\<rparr>"

definition sample_session :: copierServer where
  "sample_session = (newServer empty_os)\<lparr>srv_ctx := [7 \<mapsto> sample_ca]\<rparr>"

definition sample_cc :: copierClient where
  "sample_cc = \<lparr>cc_target = ''box:5031'', cc_id = 0, cc_batch = 2, cc_timeout = 5, cc_useChecksum = False, cc_useEncryption = False,
     cc_authToken = ''t'', cc_authUser = ''al'', cc_identityFile = [],
     cc_encryptionKey = Some (deriveEncryptionKey sample_ssh (bytes_of ''k1''))\<rparr>"

definition sample_local :: os_state where
  "sample_local = empty_os\<lparr>names := [(''/'', 0), (''/f'', 1)],
     inodes := [0 \<mapsto> \<lparr>i_dir = True, i_data = [], i_mode = 493, i_mtime = 0\<rparr>,
                1 \<mapsto> \<lparr>i_dir = False, i_data = [1, 2, 3], i_mode = 420, i_mtime = 0\<rparr>], next_ino := 2\<rparr>"

definition sample_x :: "copierServer xfer" where
  "sample_x = \<lparr>x_cc = sample_cc, x_net = sample_session, x_os = sample_local\<lparr>ticks := 1\<rparr>, x_state = None\<rparr>"

definition sample_opts :: options where
  "sample_opts = \<lparr>opt_json = sample_json, opt_tmpDir = ''/tmp'', opt_codec = sample_codec, opt_rnd = sample_rnd,
     opt_chunkSize = 2, opt_maxRetries = 1, opt_sha256 = True, opt_compression = CompressionNone\<rparr>"

abbreviation sample_call :: "copierServer caller" where
  "sample_call \<equiv> direct_call sample_env sample_rnd 7"

lemma lookup_ticks [simp]: "lookup (s\<lparr>ticks := n\<rparr>) p = lookup s p"
  by (rule same_files_lookup) (simp add: same_files_def)

lemma sample_codec_rnd: "codec_ok sample_codec sample_rnd"
  by (simp add: codec_ok_def sample_codec_ok sample_rnd_def)

lemma sample_session_ok: "session_ok 7 sample_ca sample_cc sample_session"
proof -
  have "srv_inv (newServer empty_os)" by (rule newServer_inv [OF os_wf_empty_os]) simp
  moreover have "coherent empty_os" by (rule coherent_no_handles) simp
  ultimately show ?thesis
    by (simp add: session_ok_def sample_session_def sample_ca_def sample_cc_def srv_inv_def get_cache_def newServer_def)
qed

lemma sample_local_state: "lookup sample_local (stateFilePath ''/tmp'' a b) = None"
proof -
  obtain h where "stateFilePath ''/tmp'' a b = ''/tmp/gcp/'' @ h" by (rule stateFilePath_tmp)
  moreover have "Clean (stateFilePath ''/tmp'' a b) = stateFilePath ''/tmp'' a b"
    using stateFilePath_abs [of "''/tmp''" a b] by (simp add: abs_clean_def)
  ultimately show ?thesis by (simp add: lookup_def resolve_def sample_local_def)
qed

lemma sample_ready0:
  "upload_ready sample_opts sample_env 7 sample_ca ''t'' ''/t'' ''/f'' [1, 2, 3] (sample_x\<lparr>x_os := sample_local\<rparr>)"
proof -
  have "sandboxPath (Some sample_ca) ''t'' = Inr ''/t''" by code_simp
  moreover have "file_data sample_local ''/f'' = Some [1, 2, 3]" by code_simp
  moreover have "os_wf sample_local" "coherent sample_local"
    by (auto simp: os_wf_def sample_local_def empty_os_def intro!: coherent_no_handles)
  ultimately show ?thesis
    using sample_session_ok sample_codec_rnd sample_local_state
    by (simp add: upload_ready_def sample_opts_def sample_x_def sample_env_def file_data_def)
qed

lemma sample_ready_ticks:
  "upload_ready sample_opts sample_env 7 sample_ca ''t'' ''/t'' ''/f'' [1, 2, 3] (sample_x\<lparr>x_os := sample_local\<lparr>ticks := n\<rparr>\<rparr>)"
proof -
  have "same_files sample_local (sample_local\<lparr>ticks := n\<rparr>)" by (simp add: same_files_def)
  moreover have "os_wf (sample_local\<lparr>ticks := n\<rparr>)" "coherent (sample_local\<lparr>ticks := n\<rparr>)"
    using sample_ready0 by (auto simp: upload_ready_def sample_local_def intro!: os_wf_tick coherent_no_handles)
  ultimately show ?thesis
    using sample_ready0 same_files_data by (auto simp: upload_ready_def sample_x_def)
qed

lemma sample_ready:
  "upload_ready sample_opts sample_env 7 sample_ca ''t'' ''/t'' ''/f'' [1, 2, 3] sample_x"
  using sample_ready_ticks [of 1] by (simp add: sample_x_def)

definition sample_info :: FileInfo where
  "sample_info = info_of ''/f'' \<lparr>i_dir = False, i_data = [1, 2, 3], i_mode = 420, i_mtime = 0\<rparr>"

definition sample_x1 :: "copierServer xfer" where
  "sample_x1 = snd (upload_create sample_call ''/f'' ''t'' sample_info
     (sample_x\<lparr>x_os := sample_local\<lparr>ticks := 3\<rparr>, x_state := None\<rparr>))"

lemma sample_created:
  "fst (upload_create sample_call ''/f'' ''t'' sample_info (sample_x\<lparr>x_os := sample_local\<lparr>ticks := 3\<rparr>, x_state := None\<rparr>)) = Inr 1"
  by code_simp

lemma sample_x1_state: "x_state sample_x1 = None"
  by code_simp

lemma sample_chunks_sent:
  "\<not> Option.is_none (run_chunks (upload_fn sample_opts sample_call 1 ''t'') [(0, 2), (2, 1)] sample_x1)"
  by code_simp

definition sample_sent :: "copierServer xfer" where
  "sample_sent = the (run_chunks (upload_fn sample_opts sample_call 1 ''t'') [(0, 2), (2, 1)] sample_x1)"

lemma sample_hash_request:
  "(case fst (on_client (cc_Hash sample_call ''t'') sample_sent) of Inr (MHashRes r, _) \<Rightarrow> hres_Success r | _ \<Rightarrow> False)"
  by code_simp

lemma sample_hash_local:
  "(case os_Open ''/f'' (x_os sample_sent) of (Inl e, _) \<Rightarrow> False | (Inr f, s) \<Rightarrow> fst (os_ReadAll f s) = Inr [1, 2, 3])"
  by code_simp

lemma sample_sent_data: "file_data (srv_os (x_net sample_sent)) ''/t'' = Some [1, 2, 3]"
  by code_simp

lemma sample_run_chunks: "run_chunks (upload_fn sample_opts sample_call 1 ''t'') [(0, 2), (2, 1)] sample_x1 = Some sample_sent"
  using sample_chunks_sent unfolding sample_sent_def by (simp add: Option.is_none_def)

lemma sample_begin:
  "upload_begin sample_opts sample_call ''/f'' ''t'' sample_info 2 (sample_x\<lparr>x_os := sample_local\<lparr>ticks := 2\<rparr>\<rparr>) = (Inr 1, sample_x1)"
proof -
  let ?s = "sample_local\<lparr>ticks := 2\<rparr>"
  have "lookup ?s (stateFilePath ''/tmp'' ''/f'' ''t'') = None" using sample_local_state by simp
  moreover have "no_faults ?s" "?s\<lparr>ticks := Suc (ticks ?s)\<rparr> = sample_local\<lparr>ticks := 3\<rparr>"
    by (simp_all add: no_faults_def sample_local_def empty_os_def)
  ultimately have "loadResumeState sample_json ''/tmp'' ''/f'' ''t'' 3 2 2 ?s = (None, sample_local\<lparr>ticks := 3\<rparr>)"
    using load_missing [of ?s] by simp
  moreover have "fi_Size sample_info = 3" by (simp add: sample_info_def info_of_def)
  ultimately have "upload_begin sample_opts sample_call ''/f'' ''t'' sample_info 2 (sample_x\<lparr>x_os := ?s\<rparr>)
      = upload_create sample_call ''/f'' ''t'' sample_info (sample_x\<lparr>x_os := sample_local\<lparr>ticks := 3\<rparr>, x_state := None\<rparr>)"
    by (simp add: upload_begin_def sample_opts_def)
  then show ?thesis using sample_created unfolding sample_x1_def by (metis prod.collapse)
qed

lemma sample_sent_ok: "up_ok sample_opts sample_env 7 sample_ca ''t'' ''/t'' 1 ''/f'' [1, 2, 3] sample_sent"
proof -
  obtain c where "up_ok sample_opts sample_env 7 sample_ca ''t'' ''/t'' 1 ''/f'' [1, 2, 3] sample_x1"
      "file_data (srv_os (x_net sample_x1)) ''/t'' = Some c"
    using upload_begin_ok [OF sample_ready_ticks _ sample_begin] by (auto simp: sample_info_def info_of_def)
  from up.placed_run [OF this sample_run_chunks] show ?thesis by simp
qed

lemma sample_verified: "\<exists>x'. verifyFileHash sample_call ''t'' ''/f'' sample_sent = (None, x')"
  using sample_sent_ok sample_hash_request sample_sent_data sample_hash_local
  by (intro verifyFileHash_equal) (auto simp: up_ok_def)

lemma sample_uploadFile:
  "\<exists>x'. uploadFile sample_opts sample_call ''/f'' ''t'' sample_info 2 (sample_x\<lparr>x_os := sample_local\<lparr>ticks := 2\<rparr>\<rparr>) None False x'"
proof -
  have fl: "flush_state sample_opts sample_sent = sample_sent" by (rule up_ok_flush [OF sample_sent_ok])
  obtain x' where e: "upload_end sample_opts sample_call ''/f'' ''t'' 1 (flush_state sample_opts sample_sent) = (None, x')"
    using sample_verified unfolding fl by (auto simp: upload_end_def sample_opts_def)
  have "chunk_loop 2 (\<lambda>_. False) 0 3 = Some [(0, 2), (2, 1)]" by (simp add: chunk_loop.simps [of 2] next_size_def)
  then have "uploadFile sample_opts sample_call ''/f'' ''t'' sample_info 2 (sample_x\<lparr>x_os := sample_local\<lparr>ticks := 2\<rparr>\<rparr>) None False x'"
    by (intro uploadFile_sequential [OF sample_begin sample_x1_state _ _ _ _ sample_run_chunks e])
       (simp_all add: sample_opts_def sample_info_def info_of_def file_size_def)
  then show ?thesis by blast
qed

lemma sample_uploaded: "\<exists>x'. cpOneFileToHost sample_opts sample_call ''/f'' ''t'' sample_x None False x'"
proof -
  have "lookup sample_local ''/f'' = Some (1, \<lparr>i_dir = False, i_data = [1, 2, 3], i_mode = 420, i_mtime = 0\<rparr>)" by code_simp
  moreover have "faults sample_local = (\<lambda>_. None)" by (simp add: sample_local_def empty_os_def)
  ultimately have "os_Stat ''/f'' (x_os sample_x) = (Inr sample_info, sample_local\<lparr>ticks := 2\<rparr>)"
    by (simp add: os_Stat_def tick_def sample_x_def sample_info_def numeral_2_eq_2)
  then show ?thesis using sample_uploadFile by (auto simp: cpOneFileToHost_def) (auto simp: sample_x_def sample_cc_def)
qed

section \<open>Properties\<close>

lemma cpOneFileToHost_upload:
  assumes "cpOneFileToHost opts (direct_call env rnd conn) src target x None interrupted x'"
    and "upload_ready opts env conn ca target p src data x"
  obtains info s1 where "uploadFile opts (direct_call env rnd conn) src target info (cc_batch (x_cc x)) (x\<lparr>x_os := s1\<rparr>) None interrupted x'"
    "fi_Size info = int (length data)" "upload_ready opts env conn ca target p src data (x\<lparr>x_os := s1\<rparr>)"
proof -
  obtain info s1 where st: "os_Stat src (x_os x) = (Inr info, s1)"
    and up: "uploadFile opts (direct_call env rnd conn) src target info (cc_batch (x_cc x)) (x\<lparr>x_os := s1\<rparr>) None interrupted x'"
    using assms(1) by (auto simp: cpOneFileToHost_def split: prod.splits sum.splits)
  have d: "file_data (x_os x) src = Some data" using assms(2) by (simp add: upload_ready_def)
  have s1: "same_files (x_os x) s1" "fi_Size info = int (length data)"
    using st d by (auto simp: os_Stat_def same_files_def tick_def file_data_def info_of_def split: option.splits if_splits)
  have "os_wf s1" "coherent s1"
    using st os_wf_Stat [of "x_os x" src] coherent_calls(1) [of "x_os x" src] assms(2) by (auto simp: upload_ready_def)
  then have "upload_ready opts env conn ca target p src data (x\<lparr>x_os := s1\<rparr>)"
    using assms(2) same_files_data [OF s1(1)] by (simp add: upload_ready_def)
  then show thesis using that up s1(2) by blast
qed



text \<open>With \<open>--sha256\<close>, an upload that reports success, even one that was interrupted, has left a remote
  file with the SHA-256 sum of the source.\<close>

theorem upload_sha256:
  assumes "upload_ready opts env conn ca target p src data x" and "opt_sha256 opts"
    and "cpOneFileToHost opts (direct_call env rnd conn) src target x None interrupted x'"
  shows "\<exists>c. file_data (srv_os (x_net x')) p = Some c \<and> Sum256 c = Sum256 data"
proof -
  obtain info s1 where u: "uploadFile opts (direct_call env rnd conn) src target info (cc_batch (x_cc x)) (x\<lparr>x_os := s1\<rparr>) None interrupted x'"
    "fi_Size info = int (length data)" "upload_ready opts env conn ca target p src data (x\<lparr>x_os := s1\<rparr>)"
    by (rule cpOneFileToHost_upload [OF assms(3,1)])
  obtain sfd x1 s where f: "upload_begin opts (direct_call env rnd conn) src target info (cc_batch (x_cc x)) (x\<lparr>x_os := s1\<rparr>) = (Inr sfd, x1)"
    "(pool_step (nat (cc_batch (x_cc x))) (opt_chunkSize opts) (isCompleted (x_state x1)) (upload_fn opts (direct_call env rnd conn) sfd target)
        (flush_state opts))\<^sup>*\<^sup>* (pool_init (fi_Size info) 0 x1) s"
    "upload_end opts (direct_call env rnd conn) src target sfd (p_world s) = (None, x')"
    by (rule uploadFile_success [OF u(1)])
  let ?ok = "up_ok opts env conn ca target p sfd src data"
  have "?ok x1" using upload_begin_ok [OF u(3,2) f(1)] by blast
  then have ok: "?ok (p_world s)"
    by (intro pool_world_inv [where I = ?ok, OF f(2)]) (simp_all add: up_ok_fn up_ok_flushed)
  obtain x2 where v: "verifyFileHash (direct_call env rnd conn) target src (p_world s) = (None, x2)" "x_net x' = x_net x2"
    using f(3) assms(2) by (auto simp: upload_end_def split: prod.splits option.splits)
  show ?thesis
    using verifyFileHash_effect [OF _ _ v(1), of ca p] ok v(2) same_files_data by (fastforce simp: up_ok_def)
qed

theorem upload_sha256_witness:
  "\<exists>x' c. cpOneFileToHost sample_opts sample_call ''/f'' ''t'' sample_x None False x'
     \<and> file_data (srv_os (x_net x')) ''/t'' = Some c \<and> Sum256 c = Sum256 [1, 2, 3]"
proof -
  obtain x' where u: "cpOneFileToHost sample_opts sample_call ''/f'' ''t'' sample_x None False x'" using sample_uploaded by blast
  then show ?thesis using upload_sha256 [OF sample_ready _ u] by (auto simp: sample_opts_def)
qed

text \<open>C31: breakpoint resume never starts: an upload that finds no state file leaves none behind, whatever
  its result and whether or not it was interrupted (it changes no local file at all), so the next
  upload starts from the beginning as well.\<close>

theorem upload_never_saves:
  assumes "file_data (x_os x) (stateFilePath (opt_tmpDir opts) srcPath target) = None"
    and "uploadFile opts call srcPath target info batch x r interrupted x'"
  shows "same_files (x_os x) (x_os x') \<and> x_state x' = None"
proof -
  note b = untouched_begin [OF assms(1)]
  from assms(2) have "untouched (x_os x) x'"
  proof (cases rule: uploadFile.cases)
    case (refused err)
    then show ?thesis using b by blast
  next
    case (failed sfd x1 s err)
    then show ?thesis using untouched_close [OF untouched_pool [OF _ b]] by blast
  next
    case (finished sfd x1 s)
    show ?thesis by (rule untouched_end [OF finished(5) untouched_pool [OF finished(3) b [OF finished(2)]]])
  qed
  then show ?thesis by (simp add: untouched_def)
qed

theorem upload_never_saves_witness:
  "\<exists>x'. uploadFile sample_opts sample_call ''/f'' ''t'' sample_info 2 (sample_x\<lparr>x_os := sample_local\<lparr>ticks := 2\<rparr>\<rparr>) None False x'
     \<and> same_files (sample_local\<lparr>ticks := 2\<rparr>) (x_os x') \<and> x_state x' = None"
proof -
  obtain x' where u: "uploadFile sample_opts sample_call ''/f'' ''t'' sample_info 2
      (sample_x\<lparr>x_os := sample_local\<lparr>ticks := 2\<rparr>\<rparr>) None False x'" using sample_uploadFile by blast
  have "file_data (sample_local\<lparr>ticks := 2\<rparr>) (stateFilePath (opt_tmpDir sample_opts) ''/f'' ''t'') = None"
    using sample_ready_ticks [of 2] by (simp add: upload_ready_def)
  then show ?thesis using upload_never_saves [OF _ u] u by auto
qed

end
