(* ===== verification/Download.thy ===== *)
theory Download
  imports Upload
begin

text \<open>
  Downloads (\<open>cp_from_host.go\<close>): \<open>downloadFile\<close> asks for the size of the remote file, opens the target,
  fetches the chunks through \<open>processChunks\<close>, sets the mode and compares the SHA-256 sums if asked to.
  As for uploads, delays are left out and the whole is a relation because \<open>processChunks\<close> is.
\<close>

section \<open>The code\<close>

fun stat_attempts ::
  "'w caller \<Rightarrow> string \<Rightarrow> nat \<Rightarrow> goerror option \<Rightarrow> StatRes option \<Rightarrow> 'w xfer \<Rightarrow> (goerror option \<times> StatRes option) \<times> 'w xfer" where
  "stat_attempts call src 0 statErr statRes x = ((statErr, statRes), x)"
| "stat_attempts call src (Suc n) statErr statRes x =
     (case on_client (cc_Stat call src) x of
        (Inl err, x1) \<Rightarrow> stat_attempts call src n (Some err) statRes x1
      | (Inr (MStatRes r, _), x1) \<Rightarrow>
          if \<not> sres_Success r then stat_attempts call src n (Some (Errorf (''stat failed: '' @ sres_Error r))) (Some r) x1
          else if sres_IsDir r then stat_attempts call src n (Some (Errorf ''path is a directory'')) (Some r) x1
          else ((None, Some r), x1)
      | (Inr _, x1) \<Rightarrow> ((Some PanicAssertion, statRes), x1))"

fun read_attempts ::
  "options \<Rightarrow> 'w caller \<Rightarrow> bool \<Rightarrow> string \<Rightarrow> int64 \<Rightarrow> int64 \<Rightarrow> nat \<Rightarrow> goerror option \<Rightarrow> (ReadRes \<times> bytes) option \<Rightarrow> 'w xfer \<Rightarrow>
    (goerror option \<times> (ReadRes \<times> bytes) option) \<times> 'w xfer" where
  "read_attempts opts call useChecksum src off sz 0 readErr res x = ((readErr, res), x)"
| "read_attempts opts call useChecksum src off sz (Suc n) readErr res x =
     (case on_client (cc_Read call src off sz (opt_compression opts)) x of
        (Inl err, x1) \<Rightarrow> read_attempts opts call useChecksum src off sz n (Some err) res x1
      | (Inr (MReadRes r, payload), x1) \<Rightarrow>
          if \<not> rres_Success r then
            read_attempts opts call useChecksum src off sz n
              (Some (Errorf (''read failed at offset '' @ dec_int off @ '': '' @ rres_Error r))) (Some (r, payload)) x1
          else if useChecksum \<and> rres_Checksum r \<noteq> 0 \<and> ChecksumIEEE payload \<noteq> rres_Checksum r then
            read_attempts opts call useChecksum src off sz n
              (Some (Errorf (''checksum mismatch for offset '' @ dec_int off))) (Some (r, payload)) x1
          else ((None, Some (r, payload)), x1)
      | (Inr _, x1) \<Rightarrow> ((Some PanicAssertion, res), x1))"

text \<open>The function \<open>downloadFile\<close> hands to \<open>processChunks\<close>. With no attempt at all the type assertion on
  the missing response panics.\<close>

definition download_fn ::
  "options \<Rightarrow> 'w caller \<Rightarrow> bool \<Rightarrow> fd \<Rightarrow> string \<Rightarrow> int64 \<Rightarrow> int64 \<Rightarrow> 'w xfer \<Rightarrow> goerror option \<times> 'w xfer" where
  "download_fn opts call useChecksum tfd src off sz x =
     (case read_attempts opts call useChecksum src off sz (attempts (opt_maxRetries opts)) None None x of
        ((Some err, _), x1) \<Rightarrow> (Some err, x1)
      | ((None, None), x1) \<Rightarrow> (Some PanicAssertion, x1)
      | ((None, Some (readRes, payload)), x1) \<Rightarrow>
          (case read_decoding (opt_codec opts) (cc_encryptionKey (x_cc x1)) off readRes payload of
             Inl err \<Rightarrow> (Some err, x1)
           | Inr data \<Rightarrow>
               (case os_WriteAt tfd data off (x_os x1) of
                  ((_, Some err), s') \<Rightarrow> (Some err, x1\<lparr>x_os := s'\<rparr>)
                | ((_, None), s') \<Rightarrow> (None, snd (on_state (addCompletedOffset (opt_json opts) off) (x1\<lparr>x_os := s'\<rparr>))))))"

definition open_target :: "string \<Rightarrow> OpenFlags \<Rightarrow> uint32 \<Rightarrow> 'w xfer \<Rightarrow> (goerror + fd) \<times> 'w xfer" where
  "open_target target fl perm x = (let (r, s') = os_OpenFile target fl perm (x_os x) in (r, x\<lparr>x_os := s'\<rparr>))"

text \<open>After the answer to \<open>Stat\<close>: the resume state and the target.\<close>

definition download_open ::
  "options \<Rightarrow> string \<Rightarrow> string \<Rightarrow> int64 \<Rightarrow> StatRes \<Rightarrow> 'w xfer \<Rightarrow> (goerror + (fd \<times> StatRes)) \<times> 'w xfer" where
  "download_open opts src target batch statRes x =
     (case loadResumeState (opt_json opts) (opt_tmpDir opts) src target (sres_Size statRes) (opt_chunkSize opts) batch (x_os x) of
        (st, s1) \<Rightarrow>
          (case (case st of
                   None \<Rightarrow> open_target target O_CREATE_TRUNC (Perm (sres_Mode statRes)) (x\<lparr>x_os := s1, x_state := st\<rparr>)
                 | Some _ \<Rightarrow> open_target target O_RDWR 420 (x\<lparr>x_os := s1, x_state := st\<rparr>)) of
             (Inl err, x1) \<Rightarrow> (Inl err, x1)
           | (Inr tfd, x1) \<Rightarrow> (Inr (tfd, statRes), x1)))"

definition download_begin ::
  "options \<Rightarrow> 'w caller \<Rightarrow> string \<Rightarrow> string \<Rightarrow> int64 \<Rightarrow> 'w xfer \<Rightarrow> (goerror + (fd \<times> StatRes)) \<times> 'w xfer" where
  "download_begin opts call src target batch x =
     (case stat_attempts call src (attempts (opt_maxRetries opts)) None None x of
        ((Some err, _), x1) \<Rightarrow> (Inl err, x1)
      | ((None, None), x1) \<Rightarrow> (Inl PanicNil, x1)
      | ((None, Some statRes), x1) \<Rightarrow> download_open opts src target batch statRes x1)"

definition download_end ::
  "options \<Rightarrow> 'w caller \<Rightarrow> string \<Rightarrow> string \<Rightarrow> StatRes \<Rightarrow> fd \<Rightarrow> 'w xfer \<Rightarrow> goerror option \<times> 'w xfer" where
  "download_end opts call src target statRes tfd x =
     (case os_Chmod target (Perm (sres_Mode statRes)) (x_os x) of
        (Some err, s1) \<Rightarrow> (Some err, x\<lparr>x_os := os_Close tfd s1\<rparr>)
      | (None, s1) \<Rightarrow>
          (case (if opt_sha256 opts then verifyFileHash call src target (x\<lparr>x_os := s1\<rparr>) else (None, x\<lparr>x_os := s1\<rparr>)) of
             (Some err, x1) \<Rightarrow> (Some err, x1\<lparr>x_os := os_Close tfd (x_os x1)\<rparr>)
           | (None, x1) \<Rightarrow> (None, x1\<lparr>x_os := os_Close tfd (deleteResumeState (x_state x1) (x_os x1))\<rparr>)))"

inductive downloadFile ::
  "options \<Rightarrow> 'w caller \<Rightarrow> string \<Rightarrow> string \<Rightarrow> int64 \<Rightarrow> bool \<Rightarrow> 'w xfer \<Rightarrow> goerror option \<Rightarrow> bool \<Rightarrow> 'w xfer \<Rightarrow> bool"
  for opts call src target batch useChecksum x where
  refused: "download_begin opts call src target batch x = (Inl err, x') \<Longrightarrow>
    downloadFile opts call src target batch useChecksum x (Some err) False x'"
| failed: "download_begin opts call src target batch x = (Inr (tfd, statRes), x1) \<Longrightarrow>
    (pool_step (nat batch) (opt_chunkSize opts) (isCompleted (x_state x1)) (download_fn opts call useChecksum tfd src) (flush_state opts))\<^sup>*\<^sup>*
      (pool_init (sres_Size statRes) 0 x1) s \<Longrightarrow>
    p_phase s = Returned (Some err) \<Longrightarrow> x' = (p_world s)\<lparr>x_os := os_Close tfd (x_os (p_world s))\<rparr> \<Longrightarrow>
    downloadFile opts call src target batch useChecksum x (Some err) (p_interrupted s) x'"
| finished: "download_begin opts call src target batch x = (Inr (tfd, statRes), x1) \<Longrightarrow>
    (pool_step (nat batch) (opt_chunkSize opts) (isCompleted (x_state x1)) (download_fn opts call useChecksum tfd src) (flush_state opts))\<^sup>*\<^sup>*
      (pool_init (sres_Size statRes) 0 x1) s \<Longrightarrow>
    p_phase s = Returned None \<Longrightarrow> download_end opts call src target statRes tfd (p_world s) = (r, x') \<Longrightarrow>
    downloadFile opts call src target batch useChecksum x r (p_interrupted s) x'"

definition cpOneFileFromHost ::
  "options \<Rightarrow> 'w caller \<Rightarrow> string \<Rightarrow> string \<Rightarrow> 'w xfer \<Rightarrow> goerror option \<Rightarrow> bool \<Rightarrow> 'w xfer \<Rightarrow> bool" where
  "cpOneFileFromHost opts call src target x r interrupted x' \<longleftrightarrow>
     downloadFile opts call src target (cc_batch (x_cc x)) (cc_useChecksum (x_cc x)) x r interrupted x'"

section \<open>One chunk\<close>

text \<open>An answered attempt: a read that succeeded on an undamaged session.\<close>

lemma read_attempts_done:
  assumes "session_ok conn ca (x_cc x) (x_net x)" and "codec_ok (env_codec env) rnd" and "sandboxPath (Some ca) src = Inr p"
    and "0 < sz" and "sz \<le> maxAlloc" and "no_faults (srv_os (x_net x))" and "file_data (srv_os (x_net x)) p = Some c"
    and "read_attempts opts (direct_call env rnd conn) useChecksum src off sz n e res x = ((None, Some (r, q)), x')"
    and "n = 0 \<Longrightarrow> e \<noteq> None"
  shows "session_ok conn ca (x_cc x') (x_net x') \<and> no_faults (srv_os (x_net x')) \<and> file_data (srv_os (x_net x')) p = Some c
    \<and> x_os x' = x_os x \<and> x_state x' = x_state x
    \<and> read_decoding (env_codec env) (cc_encryptionKey (x_cc x')) off r q = Inr (take (nat sz) (drop (nat off) c))"
  using assms(1,6-9)
proof (induction n arbitrary: e res x)
  case 0
  then show ?case by simp
next
  case (Suc n)
  let ?m = "cc_Read (direct_call env rnd conn) src off sz (opt_compression opts)"
  obtain h x1 where c: "on_client ?m x = (h, x1)" by (cases "on_client ?m x")
  obtain cc1 srv1 where m: "?m (x_cc x, x_net x) = (h, cc1, srv1)" "x1 = x\<lparr>x_cc := cc1, x_net := srv1\<rparr>"
    using on_client_simps [OF c] by blast
  obtain r1 q1 where eff: "session_ok conn ca cc1 srv1" "same_client (x_cc x) cc1" "file_data (srv_os srv1) p = Some c"
      "faults (srv_os srv1) = faults (srv_os (x_net x))" "h = Inr (MReadRes r1, q1)"
      "rres_Success r1 \<longrightarrow> read_decoding (env_codec env) (cc_encryptionKey (x_cc x)) off r1 q1 = Inr (take (nat sz) (drop (nat off) c))"
    using cc_Read_effect [OF Suc.prems(1) assms(2-5) m(1)] Suc.prems(2,3) by auto
  have x1: "session_ok conn ca (x_cc x1) (x_net x1)" "no_faults (srv_os (x_net x1))" "file_data (srv_os (x_net x1)) p = Some c"
      "x_os x1 = x_os x" "x_state x1 = x_state x" "cc_encryptionKey (x_cc x1) = cc_encryptionKey (x_cc x)"
    using eff m(2) Suc.prems(2) same_client_fields [OF eff(2)] by (simp_all add: no_faults_def)
  show ?case
  proof (cases "rres_Success r1 \<and> \<not> (useChecksum \<and> rres_Checksum r1 \<noteq> 0 \<and> ChecksumIEEE q1 \<noteq> rres_Checksum r1)")
    case True
    then show ?thesis using Suc.prems(4) c eff(5,6) x1 by auto
  next
    case False
    then obtain e' res' where "read_attempts opts (direct_call env rnd conn) useChecksum src off sz n (Some e') res' x1 = ((None, Some (r, q)), x')"
      using Suc.prems(4) c eff(5) by (cases "rres_Success r1") auto
    from Suc.IH [OF x1(1-3) this] show ?thesis using x1(4,5) by simp
  qed
qed

text \<open>What holds while chunks are downloaded: the session with a server on which system calls do not
  fail, the remote file, the target open for writing, no resume state.\<close>

definition down_ok ::
  "options \<Rightarrow> ('pk, 'sig) server_env \<Rightarrow> (nat \<Rightarrow> goerror + bytes) \<Rightarrow> connid \<Rightarrow> connAuth \<Rightarrow> string \<Rightarrow> string \<Rightarrow> fd \<Rightarrow> string \<Rightarrow> bytes \<Rightarrow>
    copierServer xfer \<Rightarrow> bool" where
  "down_ok opts env rnd conn ca src p tfd target data x \<longleftrightarrow>
     opt_codec opts = env_codec env \<and> codec_ok (env_codec env) rnd \<and> sandboxPath (Some ca) src = Inr p
   \<and> 0 \<le> opt_maxRetries opts \<and> int (length data) \<le> maxAlloc \<and> session_ok conn ca (x_cc x) (x_net x)
   \<and> no_faults (srv_os (x_net x)) \<and> file_data (srv_os (x_net x)) p = Some data \<and> x_state x = None
   \<and> coherent (x_os x) \<and> (\<exists>i. fds (x_os x) tfd = Some (target, i, True))"

lemma download_transfer:
  assumes ok: "down_ok opts env rnd conn ca src p tfd target data x"
    and off: "0 \<le> off" "0 < sz" "off + sz \<le> int (length data)"
    and dn: "download_fn opts (direct_call env rnd conn) useChecksum tfd src off sz x = (None, x')"
  shows "down_ok opts env rnd conn ca src p tfd target data x' \<and> (\<exists>c. file_data (x_os x) target = Some c
    \<and> file_data (x_os x') target = Some (write_at c (nat off) (take (nat sz) (drop (nat off) data))))"
proof -
  let ?d = "take (nat sz) (drop (nat off) data)"
  have d: "?d \<noteq> []" using off by auto
  obtain i where i: "fds (x_os x) tfd = Some (target, i, True)" using ok by (auto simp: down_ok_def)
  obtain r q x1 where ra: "read_attempts opts (direct_call env rnd conn) useChecksum src off sz (attempts (opt_maxRetries opts)) None None x
      = ((None, Some (r, q)), x1)"
    using dn by (auto simp: download_fn_def split: prod.splits option.splits)
  have x1: "session_ok conn ca (x_cc x1) (x_net x1)" "no_faults (srv_os (x_net x1))" "file_data (srv_os (x_net x1)) p = Some data"
      "x_os x1 = x_os x" "x_state x1 = x_state x" "read_decoding (env_codec env) (cc_encryptionKey (x_cc x1)) off r q = Inr ?d"
    using read_attempts_done [OF _ _ _ _ _ _ _ ra, of ca p data] ok off by (auto simp: down_ok_def attempts_def)
  obtain n e s1 where w: "os_WriteAt tfd ?d off (x_os x) = ((n, e), s1)" by (metis prod.exhaust)
  have e: "e = None" and x': "x' = x1\<lparr>x_os := s1\<rparr>"
    using dn ra x1 ok w by (auto simp: download_fn_def down_ok_def on_state_def addCompletedOffset_def split: option.splits)
  have co: "coherent (x_os x)" using ok by (simp add: down_ok_def)
  have s1: "coherent s1" "fds s1 = fds (x_os x)"
    using coherent_calls(7) [OF co, of tfd ?d off] fds_unchanged(9) [of tfd ?d off "x_os x"] w by simp_all
  show ?thesis
    using WriteAt_data(1) [OF co i w d e] ok x1 x' s1 i by (auto simp: down_ok_def)
qed

interpretation down: chunk_transfer "download_fn opts (direct_call env rnd conn) useChecksum tfd src" "\<lambda>x. file_data (x_os x) target" data
    "down_ok opts env rnd conn ca src p tfd target data" for opts env rnd conn useChecksum ca src p tfd target data
  by unfold_locales (rule download_transfer)

section \<open>The whole file\<close>

definition download_ready ::
  "options \<Rightarrow> ('pk, 'sig) server_env \<Rightarrow> (nat \<Rightarrow> goerror + bytes) \<Rightarrow> connid \<Rightarrow> connAuth \<Rightarrow> string \<Rightarrow> string \<Rightarrow> string \<Rightarrow> bytes \<Rightarrow>
    copierServer xfer \<Rightarrow> bool" where
  "download_ready opts env rnd conn ca src p target data x \<longleftrightarrow>
     opt_codec opts = env_codec env \<and> codec_ok (env_codec env) rnd \<and> sandboxPath (Some ca) src = Inr p
   \<and> 0 \<le> opt_maxRetries opts \<and> 0 < opt_chunkSize opts \<and> int (length data) \<le> maxAlloc
   \<and> session_ok conn ca (x_cc x) (x_net x) \<and> no_faults (srv_os (x_net x)) \<and> file_data (srv_os (x_net x)) p = Some data
   \<and> os_wf (x_os x) \<and> coherent (x_os x) \<and> file_data (x_os x) (stateFilePath (opt_tmpDir opts) src target) = None"

lemma stat_attempts_done:
  assumes "session_ok conn ca (x_cc x) (x_net x)" and "sandboxPath (Some ca) src = Inr p"
    and "no_faults (srv_os (x_net x))" and "file_data (srv_os (x_net x)) p = Some c"
    and "stat_attempts (direct_call env rnd conn) src n e res x = ((None, Some r), x')" and "n = 0 \<Longrightarrow> e \<noteq> None"
  shows "session_ok conn ca (x_cc x') (x_net x') \<and> no_faults (srv_os (x_net x')) \<and> file_data (srv_os (x_net x')) p = Some c
    \<and> x_os x' = x_os x \<and> x_state x' = x_state x \<and> sres_Size r = int (length c)"
  using assms(1,3-6)
proof (induction n arbitrary: e res x)
  case 0
  then show ?case by simp
next
  case (Suc n)
  let ?m = "cc_Stat (direct_call env rnd conn) src"
  obtain h x1 where c: "on_client ?m x = (h, x1)" by (cases "on_client ?m x")
  obtain cc1 srv1 where m: "?m (x_cc x, x_net x) = (h, cc1, srv1)" "x1 = x\<lparr>x_cc := cc1, x_net := srv1\<rparr>"
    using on_client_simps [OF c] by blast
  obtain r1 q1 where eff: "session_ok conn ca cc1 srv1" "same_files (srv_os (x_net x)) (srv_os srv1)"
      "faults (srv_os srv1) = faults (srv_os (x_net x))" "h = Inr (MStatRes r1, q1)"
      "sres_Success r1 \<and> \<not> sres_IsDir r1 \<longrightarrow> sres_Size r1 = int (length c)"
    using cc_Stat_effect [OF Suc.prems(1) assms(2) m(1)] Suc.prems(3) by auto
  have x1: "session_ok conn ca (x_cc x1) (x_net x1)" "no_faults (srv_os (x_net x1))" "file_data (srv_os (x_net x1)) p = Some c"
      "x_os x1 = x_os x" "x_state x1 = x_state x"
    using eff m(2) Suc.prems(2,3) same_files_data [OF eff(2)] by (simp_all add: no_faults_def)
  show ?case
  proof (cases "sres_Success r1 \<and> \<not> sres_IsDir r1")
    case True
    then show ?thesis using Suc.prems(4) c eff(4,5) x1 by auto
  next
    case False
    then obtain e' res' where "stat_attempts (direct_call env rnd conn) src n (Some e') res' x1 = ((None, Some r), x')"
      using Suc.prems(4) c eff(4) by (cases "sres_Success r1") auto
    from Suc.IH [OF x1(1-3) this] show ?thesis using x1(4,5) by simp
  qed
qed

lemma download_begin_ok:
  assumes r: "download_ready opts env rnd conn ca src p target data x"
    and b: "download_begin opts (direct_call env rnd conn) src target batch x = (Inr (tfd, st), x1)"
  shows "down_ok opts env rnd conn ca src p tfd target data x1 \<and> file_data (x_os x1) target = Some [] \<and> sres_Size st = int (length data)"
proof -
  obtain x2 where sa: "stat_attempts (direct_call env rnd conn) src (attempts (opt_maxRetries opts)) None None x = ((None, Some st), x2)"
    and d: "download_open opts src target batch st x2 = (Inr (tfd, st), x1)"
    using b by (auto simp: download_begin_def download_open_def split: prod.splits option.splits sum.splits)
  have x2: "session_ok conn ca (x_cc x2) (x_net x2)" "no_faults (srv_os (x_net x2))" "file_data (srv_os (x_net x2)) p = Some data"
      "x_os x2 = x_os x" "x_state x2 = x_state x" "sres_Size st = int (length data)"
    using stat_attempts_done [OF _ _ _ _ sa, of ca p data] r by (auto simp: download_ready_def attempts_def)
  let ?l = "loadResumeState (opt_json opts) (opt_tmpDir opts) src target (sres_Size st) (opt_chunkSize opts) batch (x_os x)"
  obtain s1 where l: "?l = (None, s1)"
    using load_fresh [of "x_os x" "opt_tmpDir opts" src target] r by (metis prod.collapse download_ready_def)
  have s1: "os_wf s1" "coherent s1" using load_files(2,3) [of "x_os x"] l r by (metis snd_conv download_ready_def)+
  obtain s2 where op: "os_OpenFile target O_CREATE_TRUNC (Perm (sres_Mode st)) s1 = (Inr tfd, s2)" "x1 = x2\<lparr>x_os := s2, x_state := None\<rparr>"
    using d l x2(4) by (auto simp: download_open_def open_target_def split: prod.splits sum.splits)
  obtain i n where i: "fds s2 tfd = Some (target, i, True)" "lookup s2 target = Some (i, n)" "\<not> i_dir n" "i_data n = []"
    by (rule OpenFile_lookup [OF op(1)]) (auto simp: O_CREATE_TRUNC_def)
  have "coherent s2" using coherent_OpenFile [OF s1(2,1)] op(1) by (metis snd_conv)
  then show ?thesis using r x2 op(2) i by (auto simp: down_ok_def download_ready_def file_data_def)
qed

lemma down_ok_flush: "down_ok opts env rnd conn ca src p tfd target data x \<Longrightarrow> flush_state opts x = x"
  by (simp add: down_ok_def flush_state_def on_state_def flushResumeState_def)

lemma Chmod_data: "file_data (snd (os_Chmod p m s)) q = file_data s q"
proof (cases "fst (tick s) = None \<and> lookup s p \<noteq> None")
  case True
  then obtain i n where i: "lookup s p = Some (i, n)" by auto
  let ?t = "snd (os_Chmod p m s)"
  have "lookup ?t q = (case lookup s q of None \<Rightarrow> None | Some (j, k) \<Rightarrow> Some (j, if j = i then n\<lparr>i_mode := Perm m\<rparr> else k))"
    using True i lookup_inode [OF i] by (intro lookup_update) (simp_all add: os_Chmod_def tick_def)
  then show ?thesis using lookup_inode [OF i] lookup_inode [of s q] by (auto simp: file_data_def split: option.splits)
next
  case False
  then have "same_files s (snd (os_Chmod p m s))" by (auto simp: os_Chmod_def tick_def same_files_def split: option.splits)
  then show ?thesis by (rule same_files_data)
qed

lemma download_end_data:
  assumes "x_state x = None" and "download_end opts call src target st tfd x = (None, x')"
  shows "file_data (x_os x') q = file_data (x_os x) q"
proof -
  obtain s1 where c: "os_Chmod target (Perm (sres_Mode st)) (x_os x) = (None, s1)"
    using assms(2) by (auto simp: download_end_def split: prod.splits option.splits)
  have s1: "file_data s1 q = file_data (x_os x) q" using Chmod_data [of target "Perm (sres_Mode st)" "x_os x" q] c by simp
  obtain x1 where x1: "(if opt_sha256 opts then verifyFileHash call src target (x\<lparr>x_os := s1\<rparr>) else (None, x\<lparr>x_os := s1\<rparr>)) = (None, x1)"
      "x' = x1\<lparr>x_os := os_Close tfd (deleteResumeState (x_state x1) (x_os x1))\<rparr>"
    using assms(2) c by (auto simp: download_end_def split: prod.splits option.splits)
  have "same_files s1 (x_os x1)" "x_state x1 = None"
    using x1(1) verifyFileHash_local [of call src target "x\<lparr>x_os := s1\<rparr>"] assms(1) by (auto split: if_splits)
  then show ?thesis using x1(2) s1 same_files_data same_files_data [OF same_files_Close] by (simp add: deleteResumeState_def)
qed

section \<open>What every schedule keeps\<close>

definition linked :: "connid \<Rightarrow> connAuth \<Rightarrow> string \<Rightarrow> bytes \<Rightarrow> copierServer xfer \<Rightarrow> bool" where
  "linked conn ca p data x \<longleftrightarrow> session_ok conn ca (x_cc x) (x_net x) \<and> file_data (srv_os (x_net x)) p = Some data \<and> x_state x = None"

lemma linked_local: "linked conn ca p data (x\<lparr>x_os := s\<rparr>) = linked conn ca p data x"
  by (simp add: linked_def)

lemma linked_stat:
  assumes "sandboxPath (Some ca) src = Inr q" and "linked conn ca p data x"
    and "stat_attempts (direct_call env rnd conn) src n e res x = (r, x')"
  shows "linked conn ca p data x' \<and> x_os x' = x_os x"
  using assms(2,3)
proof (induction n arbitrary: e res x)
  case (Suc n)
  obtain h x1 where c: "on_client (cc_Stat (direct_call env rnd conn) src) x = (h, x1)"
    by (cases "on_client (cc_Stat (direct_call env rnd conn) src) x")
  have "linked conn ca p data x1 \<and> x_os x1 = x_os x"
    using on_client_simps [OF c] cc_Stat_effect [OF _ assms(1)] Suc.prems(1) same_files_data
    by (fastforce simp: linked_def)
  then show ?case using Suc c by (auto split: sum.splits MSG.splits if_splits)
qed simp

lemma linked_read:
  assumes "linked conn ca p data x"
    and "read_attempts opts (direct_call env rnd conn) useChecksum src off sz n e res x = (r, x')"
  shows "linked conn ca p data x'"
  using assms
proof (induction n arbitrary: e res x)
  case (Suc n)
  let ?m = "cc_Read (direct_call env rnd conn) src off sz (opt_compression opts)"
  obtain h x1 where c: "on_client ?m x = (h, x1)" by (cases "on_client ?m x")
  have "linked conn ca p data x1"
    using on_client_simps [OF c] cc_Read_session [of conn ca "x_cc x" "x_net x"] Suc.prems(1) same_files_data
    by (fastforce simp: linked_def)
  then show ?case using Suc c by (auto split: sum.splits MSG.splits if_splits)
qed simp

lemma linked_fn:
  assumes "linked conn ca p data x"
  shows "linked conn ca p data (snd (download_fn opts (direct_call env rnd conn) useChecksum tfd src off sz x))"
proof -
  obtain e v x1 where ra: "read_attempts opts (direct_call env rnd conn) useChecksum src off sz (attempts (opt_maxRetries opts)) None None x
      = ((e, v), x1)" by (metis prod.exhaust)
  have x1: "linked conn ca p data x1" by (rule linked_read [OF assms ra])
  have w: "linked conn ca p data (x1\<lparr>x_os := s\<rparr>)" "linked conn ca p data (snd (on_state (addCompletedOffset js off) (x1\<lparr>x_os := s\<rparr>)))" for s js
    using x1 by (simp_all add: linked_def on_state_def addCompletedOffset_def)
  show ?thesis
    using ra x1 w by (auto simp: download_fn_def split: option.splits sum.splits prod.splits)
qed

lemma linked_flush: "linked conn ca p data x \<Longrightarrow> linked conn ca p data (flush_state opts x)"
  by (simp add: linked_def flush_state_def on_state_def flushResumeState_def)

lemma linked_begin:
  assumes "sandboxPath (Some ca) src = Inr q" and "linked conn ca p data x"
    and "file_data (x_os x) (stateFilePath (opt_tmpDir opts) src target) = None"
    and "download_begin opts (direct_call env rnd conn) src target batch x = (Inr (tfd, st), x1)"
  shows "linked conn ca p data x1"
proof -
  obtain x2 where sa: "stat_attempts (direct_call env rnd conn) src (attempts (opt_maxRetries opts)) None None x = ((None, Some st), x2)"
    and d: "download_open opts src target batch st x2 = (Inr (tfd, st), x1)"
    using assms(4) by (auto simp: download_begin_def download_open_def split: prod.splits option.splits sum.splits)
  have x2: "linked conn ca p data x2" "x_os x2 = x_os x" using linked_stat [OF assms(1,2) sa] by blast+
  let ?l = "loadResumeState (opt_json opts) (opt_tmpDir opts) src target (sres_Size st) (opt_chunkSize opts) batch (x_os x)"
  obtain s1 where l: "?l = (None, s1)" using load_fresh [OF assms(3)] by (metis prod.collapse)
  obtain s2 where "x1 = x2\<lparr>x_state := None, x_os := s2\<rparr>"
    using d l x2(2) by (auto simp: download_open_def open_target_def split: prod.splits sum.splits)
  then show ?thesis using x2 by (simp add: linked_def)
qed

text \<open>Asking for the size changes nothing a download depends on.\<close>

lemma download_ready_stat:
  assumes "download_ready opts env rnd conn ca src p target data x"
    and "on_client (cc_Stat (direct_call env rnd conn) src) x = (m, x')"
  shows "download_ready opts env rnd conn ca src p target data x' \<and> same_client (x_cc x) (x_cc x')
    \<and> (\<exists>res q. m = Inr (MStatRes res, q) \<and> \<not> (sres_Success res \<and> sres_IsDir res))"
proof -
  obtain cc w where st: "cc_Stat (direct_call env rnd conn) src (x_cc x, x_net x) = (m, cc, w)" "x' = x\<lparr>x_cc := cc, x_net := w\<rparr>"
    using on_client_simps [OF assms(2)] by blast
  have se: "session_ok conn ca (x_cc x) (x_net x)" "sandboxPath (Some ca) src = Inr p" "file_data (srv_os (x_net x)) p = Some data"
    using assms(1) by (simp_all add: download_ready_def)
  show ?thesis
    using cc_Stat_effect [OF se(1,2) st(1)] assms(1) se(3) same_files_data st(2)
    by (auto simp: download_ready_def no_faults_def)
qed

section \<open>A concrete download\<close>

definition remote_x0 :: "copierServer xfer" where
  "remote_x0 = \<lparr>x_cc = sample_cc, x_net = (newServer sample_local)\<lparr>srv_ctx := [7 \<mapsto> sample_ca]\<rparr>, x_os = empty_os, x_state = None\<rparr>"

text \<open>The state after a first request for the size of the file.\<close>

definition remote_x :: "copierServer xfer" where
  "remote_x = snd (on_client (cc_Stat sample_call ''f'') remote_x0)"

definition remote_stat :: StatRes where
  "remote_stat = \<lparr>sres_ID = 2, sres_Success = True, sres_Size = 3, sres_Mode = 420, sres_IsDir = False, sres_Error = []\<rparr>"

definition remote_x1 :: "copierServer xfer" where
  "remote_x1 = snd (stat_attempts sample_call ''f'' 2 None None remote_x)"

definition remote_x2 :: "copierServer xfer" where
  "remote_x2 = snd (open_target ''/g'' O_CREATE_TRUNC 420 (remote_x1\<lparr>x_os := empty_os\<lparr>ticks := 1\<rparr>, x_state := None\<rparr>))"

definition remote_got :: "copierServer xfer" where
  "remote_got = the (run_chunks (download_fn sample_opts sample_call False 0 ''f'') [(0, 2), (2, 1)] remote_x2)"

definition remote_end :: "copierServer xfer" where
  "remote_end = remote_got\<lparr>x_os := snd (os_Chmod ''/g'' 420 (x_os remote_got))\<rparr>"

lemma remote_steps:
  "fst (stat_attempts sample_call ''f'' 2 None None remote_x) = (None, Some remote_stat)"
  "fst (open_target ''/g'' O_CREATE_TRUNC 420 (remote_x1\<lparr>x_os := empty_os\<lparr>ticks := 1\<rparr>, x_state := None\<rparr>)) = Inr 0"
  "\<not> Option.is_none (run_chunks (download_fn sample_opts sample_call False 0 ''f'') [(0, 2), (2, 1)] remote_x2)"
  "fst (os_Chmod ''/g'' 420 (x_os remote_got)) = None"
  "case fst (on_client (cc_Hash sample_call ''f'') remote_end) of Inr (MHashRes r, _) \<Rightarrow> hres_Success r | _ \<Rightarrow> False"
  "case os_Open ''/g'' (x_os remote_end) of (Inl e, _) \<Rightarrow> False | (Inr f, s) \<Rightarrow> fst (os_ReadAll f s) = Inr [1, 2, 3]"
  "file_data (srv_os (x_net remote_end)) ''/f'' = Some [1, 2, 3]"
  by code_simp+

lemma sample_local_ok: "os_wf sample_local" "coherent sample_local" "no_faults sample_local"
  by (auto simp: os_wf_def sample_local_def empty_os_def no_faults_def intro!: coherent_no_handles)

lemma remote_session0: "session_ok 7 sample_ca (x_cc remote_x0) (x_net remote_x0)"
proof -
  have "srv_inv (newServer sample_local)" by (rule newServer_inv [OF sample_local_ok(1)]) (simp add: sample_local_def)
  then show ?thesis
    using sample_local_ok(2)
    by (simp add: session_ok_def remote_x0_def sample_ca_def sample_cc_def srv_inv_def get_cache_def newServer_def)
qed

lemma empty_os_state: "lookup empty_os (stateFilePath ''/tmp'' a b) = None"
proof -
  obtain h where "stateFilePath ''/tmp'' a b = ''/tmp/gcp/'' @ h" by (rule stateFilePath_tmp)
  moreover have "Clean (stateFilePath ''/tmp'' a b) = stateFilePath ''/tmp'' a b"
    using stateFilePath_abs [of "''/tmp''" a b] by (simp add: abs_clean_def)
  ultimately show ?thesis by (simp add: lookup_def resolve_def empty_os_def)
qed

lemma remote_ready0:
  "download_ready sample_opts sample_env sample_rnd 7 sample_ca ''f'' ''/f'' ''/g'' [1, 2, 3] remote_x0"
proof -
  have "sandboxPath (Some sample_ca) ''f'' = Inr ''/f''" by code_simp
  moreover have "file_data (srv_os (x_net remote_x0)) ''/f'' = Some [1, 2, 3]" by code_simp
  moreover have "no_faults (srv_os (x_net remote_x0))" using sample_local_ok(3) by (simp add: remote_x0_def newServer_def)
  moreover have "coherent empty_os" by (rule coherent_no_handles) simp
  ultimately show ?thesis
    using remote_session0 sample_codec_rnd os_wf_empty_os empty_os_state
    by (simp add: download_ready_def sample_opts_def sample_env_def maxAlloc_def remote_x0_def file_data_def)
qed

lemma remote_ready:
  "download_ready sample_opts sample_env sample_rnd 7 sample_ca ''f'' ''/f'' ''/g'' [1, 2, 3] remote_x"
  "x_os remote_x = empty_os" "x_state remote_x = None" "cc_batch (x_cc remote_x) = 2" "cc_useChecksum (x_cc remote_x) = False"
proof -
  obtain m where m: "on_client (cc_Stat sample_call ''f'') remote_x0 = (m, remote_x)"
    unfolding remote_x_def by (cases "on_client (cc_Stat sample_call ''f'') remote_x0") simp
  have "same_client (x_cc remote_x0) (x_cc remote_x)" using download_ready_stat [OF remote_ready0 m] by simp
  then show "download_ready sample_opts sample_env sample_rnd 7 sample_ca ''f'' ''/f'' ''/g'' [1, 2, 3] remote_x"
    "x_os remote_x = empty_os" "x_state remote_x = None" "cc_batch (x_cc remote_x) = 2" "cc_useChecksum (x_cc remote_x) = False"
    using download_ready_stat [OF remote_ready0 m] on_client_keeps [OF m] same_client_fields
    by (auto simp: remote_x0_def sample_cc_def)
qed

lemma remote_begin: "download_begin sample_opts sample_call ''f'' ''/g'' 2 remote_x = (Inr (0, remote_stat), remote_x2)"
proof -
  have st: "stat_attempts sample_call ''f'' 2 None None remote_x = ((None, Some remote_stat), remote_x1)"
    using remote_steps(1) unfolding remote_x1_def by (metis prod.collapse)
  have op: "open_target ''/g'' O_CREATE_TRUNC 420 (remote_x1\<lparr>x_os := empty_os\<lparr>ticks := 1\<rparr>, x_state := None\<rparr>) = (Inr 0, remote_x2)"
    using remote_steps(2) unfolding remote_x2_def by (metis prod.collapse)
  have "loadResumeState sample_json ''/tmp'' ''f'' ''/g'' 3 2 2 empty_os = (None, empty_os\<lparr>ticks := 1\<rparr>)"
    using load_missing [OF _ empty_os_state] by (simp add: no_faults_def) (simp add: empty_os_def)
  moreover have "x_os remote_x1 = empty_os"
    using linked_stat [OF _ _ st, of sample_ca "''/f''" "''/f''" "[1, 2, 3]"] remote_ready
    by (simp add: linked_def download_ready_def)
  ultimately show ?thesis
    using st op by (simp add: download_begin_def download_open_def sample_opts_def remote_stat_def attempts_def Perm_def)
qed

lemma remote_downloaded: "\<exists>x'. cpOneFileFromHost sample_opts sample_call ''f'' ''/g'' remote_x None False x'"
proof -
  note b = download_begin_ok [OF remote_ready(1) remote_begin]
  have g: "run_chunks (download_fn sample_opts sample_call False 0 ''f'') [(0, 2), (2, 1)] remote_x2 = Some remote_got"
    using remote_steps(3) unfolding remote_got_def by (simp add: Option.is_none_def)
  have ok: "down_ok sample_opts sample_env sample_rnd 7 sample_ca ''f'' ''/f'' 0 ''/g'' [1, 2, 3] remote_got"
    using down.placed_run [OF conjunct1 [OF b] _ g] b by auto
  have fl: "flush_state sample_opts remote_got = remote_got" by (rule down_ok_flush [OF ok])
  have "\<exists>y. verifyFileHash sample_call ''f'' ''/g'' remote_end = (None, y)"
    using ok remote_steps(5-7) by (intro verifyFileHash_equal) (auto simp: down_ok_def remote_end_def)
  then obtain y where y: "verifyFileHash sample_call ''f'' ''/g'' remote_end = (None, y)" by blast
  have ch: "os_Chmod ''/g'' 420 (x_os remote_got) = (None, x_os remote_end)"
    using remote_steps(4) unfolding remote_end_def by (simp add: prod_eq_iff)
  have "remote_got\<lparr>x_os := x_os remote_end\<rparr> = remote_end" by (simp add: remote_end_def)
  then obtain x' where e: "download_end sample_opts sample_call ''f'' ''/g'' remote_stat 0 remote_got = (None, x')"
    using ch y by (simp add: download_end_def sample_opts_def remote_stat_def Perm_def)
  have c: "isCompleted (x_state remote_x2) = (\<lambda>_. False)" using b by (simp add: down_ok_def isCompleted_def fun_eq_iff)
  have "chunk_loop 2 (\<lambda>_. False) 0 3 = Some [(0, 2), (2, 1)]" by (simp add: chunk_loop.simps [of 2] next_size_def)
  then obtain s where s: "(pool_step 2 2 (isCompleted (x_state remote_x2)) (download_fn sample_opts sample_call False 0 ''f'')
        (flush_state sample_opts))\<^sup>*\<^sup>* (pool_init 3 0 remote_x2) s" "p_phase s = Returned None" "\<not> p_interrupted s" "p_world s = remote_got"
    using sequential_run [OF _ _ _ _ g, of 2 2 3 "flush_state sample_opts"] fl unfolding c by (auto simp: file_size_def)
  have "downloadFile sample_opts sample_call ''f'' ''/g'' 2 False remote_x None (p_interrupted s) x'"
    by (rule downloadFile.finished [OF remote_begin _ s(2)])
       (use s e in \<open>simp_all add: remote_stat_def sample_opts_def\<close>)
  then show ?thesis using s(3) remote_ready(4,5) by (auto simp: cpOneFileFromHost_def)
qed

section \<open>Properties\<close>

lemma downloadFile_success:
  assumes "downloadFile opts call src target batch useChecksum x None interrupted x'"
  obtains tfd st x1 s where "download_begin opts call src target batch x = (Inr (tfd, st), x1)"
    "(pool_step (nat batch) (opt_chunkSize opts) (isCompleted (x_state x1)) (download_fn opts call useChecksum tfd src) (flush_state opts))\<^sup>*\<^sup>*
      (pool_init (sres_Size st) 0 x1) s"
    "p_phase s = Returned None" "p_interrupted s = interrupted" "download_end opts call src target st tfd (p_world s) = (None, x')"
  using assms by (cases rule: downloadFile.cases) auto

lemma downloadFile_data:
  assumes "download_ready opts env rnd conn ca src p target data x"
    and "downloadFile opts (direct_call env rnd conn) src target batch useChecksum x None False x'"
  shows "file_data (x_os x') target = Some data"
proof -
  obtain tfd st x1 s where u: "download_begin opts (direct_call env rnd conn) src target batch x = (Inr (tfd, st), x1)"
    "(pool_step (nat batch) (opt_chunkSize opts) (isCompleted (x_state x1))
        (download_fn opts (direct_call env rnd conn) useChecksum tfd src) (flush_state opts))\<^sup>*\<^sup>* (pool_init (sres_Size st) 0 x1) s"
    "p_phase s = Returned None" "p_interrupted s = False"
    "download_end opts (direct_call env rnd conn) src target st tfd (p_world s) = (None, x')"
    by (rule downloadFile_success [OF assms(2)])
  let ?ok = "down_ok opts env rnd conn ca src p tfd target data"
  have b: "?ok x1" "file_data (x_os x1) target = Some []" "sres_Size st = int (length data)"
    using download_begin_ok [OF assms(1) u(1)] by blast+
  have cp: "isCompleted (x_state x1) = (\<lambda>_. False)" using b(1) by (simp add: down_ok_def isCompleted_def fun_eq_iff)
  have cs: "0 < opt_chunkSize opts" "length data < 2 ^ 63" using assms(1) by (auto simp: download_ready_def maxAlloc_def)
  obtain w' where w: "?ok w'" "p_world s = flush_state opts w'" "file_data (x_os w') target = Some (data @ drop (length data) [])"
    using down.assembled [OF u(2) [unfolded cp b(3)] cs u(3) _ b(1,2)] u(4) by auto
  have w': "p_world s = w'" using w(2) down_ok_flush [OF w(1)] by simp
  have "x_state w' = None" using w(1) by (simp add: down_ok_def)
  then show ?thesis using download_end_data [OF _ u(5) [unfolded w'], of target] w(3) by simp
qed



text \<open>With \<open>--sha256\<close>, a download that reports success, even one that was interrupted or for which
  reads failed half way on the server, has left a target with the SHA-256 sum of the remote file.\<close>

theorem download_sha256:
  assumes "session_ok conn ca (x_cc x) (x_net x)" and "sandboxPath (Some ca) src = Inr p"
    and "file_data (srv_os (x_net x)) p = Some data" and "x_state x = None"
    and "file_data (x_os x) (stateFilePath (opt_tmpDir opts) src target) = None" and "opt_sha256 opts"
    and "cpOneFileFromHost opts (direct_call env rnd conn) src target x None interrupted x'"
  shows "\<exists>d. file_data (x_os x') target = Some d \<and> Sum256 d = Sum256 data"
proof -
  obtain tfd st x1 s where u: "download_begin opts (direct_call env rnd conn) src target (cc_batch (x_cc x)) x = (Inr (tfd, st), x1)"
    "(pool_step (nat (cc_batch (x_cc x))) (opt_chunkSize opts) (isCompleted (x_state x1))
        (download_fn opts (direct_call env rnd conn) (cc_useChecksum (x_cc x)) tfd src) (flush_state opts))\<^sup>*\<^sup>* (pool_init (sres_Size st) 0 x1) s"
    "p_phase s = Returned None" "p_interrupted s = interrupted"
    "download_end opts (direct_call env rnd conn) src target st tfd (p_world s) = (None, x')"
    by (rule downloadFile_success [OF assms(7) [unfolded cpOneFileFromHost_def]])
  have "linked conn ca p data x1" by (rule linked_begin [OF assms(2) _ assms(5) u(1)]) (use assms in \<open>simp add: linked_def\<close>)
  then have w: "linked conn ca p data (p_world s)"
    by (intro pool_world_inv [where I = "linked conn ca p data", OF u(2)]) (simp_all add: linked_fn linked_flush)
  let ?w = "p_world s"
  obtain s1 where c: "os_Chmod target (Perm (sres_Mode st)) (x_os ?w) = (None, s1)"
    using u(5) by (auto simp: download_end_def split: prod.splits option.splits)
  obtain x2 where v: "verifyFileHash (direct_call env rnd conn) src target (?w\<lparr>x_os := s1\<rparr>) = (None, x2)"
    using u(5) c assms(6) by (auto simp: download_end_def split: prod.splits option.splits)
  have "\<exists>d. file_data s1 target = Some d \<and> Sum256 d = Sum256 data"
    using verifyFileHash_effect [OF _ assms(2) v] w by (auto simp: linked_def)
  moreover have "file_data s1 target = file_data (x_os ?w) target"
    using Chmod_data [of target "Perm (sres_Mode st)" "x_os ?w" target] c by simp
  moreover have "file_data (x_os x') target = file_data (x_os ?w) target"
    by (rule download_end_data [OF _ u(5)]) (use w in \<open>simp add: linked_def\<close>)
  ultimately show ?thesis by simp
qed

theorem download_sha256_witness:
  "\<exists>x' d. cpOneFileFromHost sample_opts sample_call ''f'' ''/g'' remote_x None False x'
     \<and> file_data (x_os x') ''/g'' = Some d \<and> Sum256 d = Sum256 [1, 2, 3]"
proof -
  obtain x' where u: "cpOneFileFromHost sample_opts sample_call ''f'' ''/g'' remote_x None False x'" using remote_downloaded by blast
  then show ?thesis
    using download_sha256 [OF _ _ _ _ _ _ u, of sample_ca "''/f''" "[1, 2, 3]"] remote_ready
    by (auto simp: download_ready_def sample_opts_def)
qed

end
