(* ===== verification/Address.thy ===== *)
theory Address
  imports Signer Message
begin

text \<open>
  Remote addresses (\<open>cp.go\<close>): what counts as one, and how \<open>parseRemoteAddr\<close> takes \<open>user@host:path\<close> apart, with
  the defaults from the SSH configuration and the process. From package \<open>net\<close>, \<open>JoinHostPort\<close> and
  \<open>ParseIP\<close> (whether it accepts) are written out.

  Shown: an address in the documented form is taken apart into what it was made of; a path with an
  at-sign in it is not.
\<close>

section \<open>Package \<open>net\<close>\<close>

definition JoinHostPort :: "string \<Rightarrow> string \<Rightarrow> string" where
  "JoinHostPort host port =
     (if CHR '':'' \<in> set host then ''['' @ host @ '']:'' @ port else host @ '':'' @ port)"

definition is_digit :: "char \<Rightarrow> bool" where
  "is_digit c = (c \<in> set ''0123456789'')"

definition is_hex :: "char \<Rightarrow> bool" where
  "is_hex c = (c \<in> set ''0123456789abcdefABCDEF'')"

fun dec_value :: "nat \<Rightarrow> string \<Rightarrow> nat" where
  "dec_value acc [] = acc"
| "dec_value acc (c # cs) = dec_value (acc * 10 + (of_char c - 48)) cs"

text \<open>A field of a dotted address: digits, no leading zero, at most 255.\<close>

definition octet_ok :: "string \<Rightarrow> bool" where
  "octet_ok f \<longleftrightarrow> f \<noteq> [] \<and> list_all is_digit f \<and> (hd f = CHR ''0'' \<longrightarrow> length f = 1) \<and> dec_value 0 f \<le> 255"

definition ipv4_ok :: "string \<Rightarrow> bool" where
  "ipv4_ok s \<longleftrightarrow> (let fs = SplitChar (CHR ''.'') s in length fs = 4 \<and> list_all octet_ok fs)"

text \<open>The loop over the groups of an IPv6 address: \<open>i\<close> bytes are done, \<open>dots\<close> tells whether the \<open>::\<close> was
  seen. At the end all bytes must be there, or fewer if there was one.\<close>

function ipv6_groups :: "nat \<Rightarrow> bool \<Rightarrow> string \<Rightarrow> bool" where
  "ipv6_groups i dots s =
     (if i \<ge> 16 then s = [] \<and> \<not> dots
      else
        (let group = takeWhile is_hex s; rest = drop (length group) s
         in if group = [] \<or> length group > 4 then False
            else if rest \<noteq> [] \<and> hd rest = CHR ''.'' then
              (dots \<or> i = 12) \<and> i + 4 \<le> 16 \<and> ipv4_ok s \<and> (if i + 4 < 16 then dots else \<not> dots)
            else if rest = [] then (if i + 2 < 16 then dots else \<not> dots)
            else if hd rest \<noteq> CHR '':'' \<or> length rest = 1 then False
            else if rest ! 1 = CHR '':'' then
              \<not> dots \<and> (if length rest = 2 then i + 2 < 16 else ipv6_groups (i + 2) True (drop 2 rest))
            else ipv6_groups (i + 2) dots (tl rest)))"
  by pat_completeness auto
termination by (relation "measure (\<lambda>(i, _, _). 16 - i)") auto

definition ipv6_ok :: "string \<Rightarrow> bool" where
  "ipv6_ok s =
     (if HasPrefix s ''::'' then length s = 2 \<or> ipv6_groups 0 True (drop 2 s) else ipv6_groups 0 False s)"

text \<open>\<open>net.ParseIP(s) != nil\<close>: the first dot, colon or percent sign decides; a zone is not accepted.\<close>

definition ParseIP_ok :: "string \<Rightarrow> bool" where
  "ParseIP_ok s =
     (case dropWhile (\<lambda>c. c \<notin> set ''.:%'') s of
        [] \<Rightarrow> False
      | c # _ \<Rightarrow> if c = CHR ''.'' then ipv4_ok s
                 else if c = CHR '':'' then CHR ''%'' \<notin> set s \<and> ipv6_ok s
                 else False)"

section \<open>The code\<close>

definition isRemoteAddr :: "string \<Rightarrow> bool" where
  "isRemoteAddr s = (CHR '':'' \<in> set s)"

definition parseCompressionFlag :: "string \<Rightarrow> uint8" where
  "parseCompressionFlag s = (if s = ''gzip'' then CompressionGzip else CompressionNone)"

record remoteAddr =
  ra_hostPort :: string
  ra_user :: string
  ra_path :: string
  ra_identityFile :: string
  ra_hostAlias :: string

text \<open>The end of \<open>parseRemoteAddr\<close>: the fallback for the user and the address to dial.\<close>

definition finish_addr ::
  "('pk, 'sig) client_env \<Rightarrow> string \<Rightarrow> string \<Rightarrow> string \<Rightarrow> string \<Rightarrow> string \<Rightarrow> string \<Rightarrow> goerror + remoteAddr" where
  "finish_addr ce port hostName userName path identityFile hostAlias =
     (case (if userName = [] then ce_CurrentUser ce else Inr userName) of
        Inl uErr \<Rightarrow> Inl (Errorf (''cannot determine current user: '' @ err_text uErr))
      | Inr name \<Rightarrow>
          if \<not> ParseIP_ok hostName \<and> CHR '':'' \<in> set hostName
          then Inl (Errorf (''IPv6 not supported: '' @ quoted hostName))
          else Inr \<lparr>ra_hostPort = JoinHostPort hostName port, ra_user = name, ra_path = path,
                 ra_identityFile = identityFile, ra_hostAlias = hostAlias\<rparr>)"

definition parseRemoteAddr ::
  "('pk, 'sig) client_env \<Rightarrow> string \<Rightarrow> string \<Rightarrow> os_state \<Rightarrow> (goerror + remoteAddr) \<times> os_state" where
  "parseRemoteAddr ce s defaultPort os =
     (let (userName, rest) = (case LastIndexChar (CHR ''@'') s of
                                None \<Rightarrow> ([], s)
                              | Some atIdx \<Rightarrow> (take atIdx s, drop (atIdx + 1) s))
      in case IndexChar (CHR '':'') rest of
           None \<Rightarrow> (Inl (Errorf (''invalid remote address '' @ quoted s @ '': missing colon'')), os)
         | Some colonIdx \<Rightarrow>
             (let host = take colonIdx rest; path = drop (colonIdx + 1) rest
              in if host = [] then (Inl (Errorf (''invalid remote address '' @ quoted s @ '': empty host'')), os)
                 else
                   (case sshConfigLookup ce host os of
                      (None, os1) \<Rightarrow> (finish_addr ce defaultPort host userName path [] host, os1)
                    | (Some entry, os1) \<Rightarrow>
                        (finish_addr ce defaultPort
                           (if sce_HostName entry \<noteq> [] then sce_HostName entry else host)
                           (if userName = [] \<and> sce_User entry \<noteq> [] then sce_User entry else userName)
                           path (sce_IdentityFile entry) host, os1))))"

section \<open>Addresses\<close>

lemma LastIndexChar_append:
  assumes "c \<notin> set t"
  shows "LastIndexChar c (s @ c # t) = Some (length s)" and "LastIndexChar c t = None"
proof -
  have "IndexChar c (rev (s @ c # t)) = Some (length t)"
    using IndexChar_append [of c "rev t" "rev s"] assms by simp
  then show "LastIndexChar c (s @ c # t) = Some (length s)" by (simp add: LastIndexChar_def)
  show "LastIndexChar c t = None" using assms IndexChar_None_iff [of c "rev t"] by (simp add: LastIndexChar_def)
qed

text \<open>The documented forms.\<close>

definition format_addr :: "string \<Rightarrow> string \<Rightarrow> string \<Rightarrow> string" where
  "format_addr user host path = (if user = [] then [] else user @ ''@'') @ host @ '':'' @ path"

lemma format_addr_remote: "isRemoteAddr (format_addr user host path)"
  by (simp add: isRemoteAddr_def format_addr_def)

lemma parse_format:
  assumes "CHR ''@'' \<notin> set host" and "CHR '':'' \<notin> set host" and "host \<noteq> []" and "CHR ''@'' \<notin> set path"
  shows "parseRemoteAddr ce (format_addr user host path) port os =
    (case sshConfigLookup ce host os of
       (None, os1) \<Rightarrow> (finish_addr ce port host user path [] host, os1)
     | (Some entry, os1) \<Rightarrow>
         (finish_addr ce port (if sce_HostName entry \<noteq> [] then sce_HostName entry else host)
            (if user = [] \<and> sce_User entry \<noteq> [] then sce_User entry else user) path (sce_IdentityFile entry) host, os1))"
proof -
  let ?rest = "host @ CHR '':'' # path"
  have at: "CHR ''@'' \<notin> set ?rest" using assms by simp
  have split: "(case LastIndexChar (CHR ''@'') (format_addr user host path) of None \<Rightarrow> ([], format_addr user host path)
      | Some i \<Rightarrow> (take i (format_addr user host path), drop (i + 1) (format_addr user host path))) = (user, ?rest)"
    using LastIndexChar_append(1) [OF at, of user] LastIndexChar_append(2) [OF at] by (auto simp: format_addr_def)
  have colon: "IndexChar (CHR '':'') ?rest = Some (length host)" using assms(2) by simp
  have parts: "take (length host) ?rest = host" "drop (length host + 1) ?rest = path" by simp_all
  show ?thesis unfolding parseRemoteAddr_def split Let_def prod.case colon option.case parts using assms(3) by simp
qed

lemma finish_addr_user:
  assumes "finish_addr ce port hostName user path idf alias = Inr a"
  shows "ra_path a = path \<and> ra_hostAlias a = alias \<and> ra_hostPort a = JoinHostPort hostName port \<and> ra_identityFile a = idf
    \<and> (user \<noteq> [] \<longrightarrow> ra_user a = user) \<and> (user = [] \<longrightarrow> ce_CurrentUser ce = Inr (ra_user a))"
  using assms by (auto simp: finish_addr_def split: sum.splits if_splits)

text \<open>Addresses are taken apart into what they were made of: for \<open>user@host:path\<close>, or \<open>host:path\<close> with no user,
  where neither host nor path contains an at-sign, \<open>parseRemoteAddr\<close> returns that path and that host as the
  alias; the user is the one in the address, else the one of the SSH configuration, else the user of
  the process; the host to dial is the configured \<open>HostName\<close> if there is one; the identity file is
  the configured one.\<close>

theorem parseRemoteAddr_parts:
  assumes "CHR ''@'' \<notin> set host" and "CHR '':'' \<notin> set host" and "host \<noteq> []" and "CHR ''@'' \<notin> set path"
    and "sshConfigLookup ce host os = (entry, os1)"
    and "parseRemoteAddr ce (format_addr user host path) port os = (Inr a, os')"
  shows "os' = os1 \<and> ra_path a = path \<and> ra_hostAlias a = host
    \<and> ra_user a = (if user \<noteq> [] then user
         else case (map_option sce_User entry, ce_CurrentUser ce) of
                (Some (c # cs), _) \<Rightarrow> c # cs | (_, Inr current) \<Rightarrow> current | (_, Inl _) \<Rightarrow> [])
    \<and> ra_hostPort a = JoinHostPort (case map_option sce_HostName entry of Some (c # cs) \<Rightarrow> c # cs | _ \<Rightarrow> host) port
    \<and> ra_identityFile a = (case entry of None \<Rightarrow> [] | Some e \<Rightarrow> sce_IdentityFile e)"
  using assms(5,6) unfolding parse_format [OF assms(1-4)]
  by (auto dest!: finish_addr_user split: option.splits list.splits sum.splits if_splits)

theorem parseRemoteAddr_parts_witness:
  "\<exists>os'. parseRemoteAddr sample_client ''al@box:/tmp/f'' ''5031'' sample_home
     = (Inr \<lparr>ra_hostPort = ''box:5031'', ra_user = ''al'', ra_path = ''/tmp/f'', ra_identityFile = [], ra_hostAlias = ''box''\<rparr>, os')"
proof -
  obtain entry os1 where e: "sshConfigLookup sample_client ''box'' sample_home = (entry, os1)"
    by (cases "sshConfigLookup sample_client ''box'' sample_home")
  have "fst (sshConfigLookup sample_client ''box'' sample_home) = None" by code_simp
  then have n: "entry = None" using e by simp
  have f: "''al@box:/tmp/f'' = format_addr ''al'' ''box'' ''/tmp/f''" by (simp add: format_addr_def)
  obtain r os' where r: "parseRemoteAddr sample_client ''al@box:/tmp/f'' ''5031'' sample_home = (r, os')"
    by (cases "parseRemoteAddr sample_client ''al@box:/tmp/f'' ''5031'' sample_home")
  have "\<exists>a. r = Inr a"
    using r e n unfolding f by (subst (asm) parse_format) (auto simp: finish_addr_def)
  then obtain a where a: "r = Inr a" by blast
  show ?thesis
    using parseRemoteAddr_parts [of "''box''" "''/tmp/f''", OF _ _ _ _ e r [unfolded f a]] r a n
    by (cases a) (simp add: JoinHostPort_def)
qed

text \<open>An at-sign in the path is taken for the end of a user name: the address \<open>host:dir@name\<close> of a file is
  refused for a missing colon, although it has one.\<close>

theorem parseRemoteAddr_at_sign:
  assumes "CHR ''@'' \<notin> set name" and "CHR '':'' \<notin> set name"
  shows "parseRemoteAddr ce (host @ '':'' @ dir @ ''@'' @ name) port os
      = (Inl (Errorf (''invalid remote address '' @ quoted (host @ '':'' @ dir @ ''@'' @ name) @ '': missing colon'')), os)"
proof -
  let ?s = "host @ '':'' @ dir @ ''@'' @ name"
  have i: "LastIndexChar (CHR ''@'') ?s = Some (length (host @ '':'' @ dir))"
    using LastIndexChar_append(1) [OF assms(1), of "host @ '':'' @ dir"] by simp
  have split: "(case LastIndexChar (CHR ''@'') ?s of None \<Rightarrow> ([], ?s) | Some i \<Rightarrow> (take i ?s, drop (i + 1) ?s)) = (host @ '':'' @ dir, name)"
    unfolding i by simp
  show ?thesis
    using assms(2) IndexChar_None_iff [of "CHR '':''" name] unfolding parseRemoteAddr_def split by simp
qed

theorem parseRemoteAddr_at_sign_witness:
  "fst (parseRemoteAddr sample_client ''box:/home/a@b'' ''5031'' sample_home)
     = Inl (Errorf (''invalid remote address '' @ quoted ''box:/home/a@b'' @ '': missing colon''))"
  using parseRemoteAddr_at_sign [of "''b''" sample_client "''box''" "''/home/a''" "''5031''" sample_home] by simp

end
