(* ===== verification/GoWalk.thy ===== *)
theory GoWalk
  imports GoOS
begin

text \<open>
  The walk over a local directory tree (\<open>filepath.Walk\<close>) and relative paths (\<open>filepath.Rel\<close>). The walk is a
  relation on a state of the caller's choice: \<open>os_of\<close> and \<open>put_os\<close> say where in it the operating system
  is, and the function called for every entry is a relation between its arguments, the state before,
  its error and the state after. Shown: what the function preserves, the walk preserves.
\<close>

text \<open>\<open>os.Lstat\<close>: there are no symbolic links in the model of the file system.\<close>

definition os_Lstat :: "string \<Rightarrow> os_state \<Rightarrow> (goerror + FileInfo) \<times> os_state" where
  "os_Lstat p s =
     (case os_Stat p s of
        (Inl (PathError _ q e), s') \<Rightarrow> (Inl (PathError ''lstat'' q e), s')
      | r \<Rightarrow> r)"

definition readDirNames :: "string \<Rightarrow> os_state \<Rightarrow> (goerror + string list) \<times> os_state" where
  "readDirNames p s = (let (r, s') = os_ReadDir p s in (map_sum id (map fi_Name) r, s'))"

definition IsRegular :: "uint32 \<Rightarrow> bool" where
  "IsRegular m = (m AND 0x8F280000 = 0)"

lemma same_files_ReadDir: "same_files s (snd (os_ReadDir p s))"
  by (auto simp: os_ReadDir_def same_files_def tick_def split: option.splits)

lemma Lstat_files: "os_Lstat p s = (r, s') \<Longrightarrow> same_files s s'"
  by (auto simp: os_Lstat_def os_Stat_def same_files_def tick_def split: option.splits)

lemma readDirNames_files: "readDirNames p s = (r, s') \<Longrightarrow> same_files s s'"
  using same_files_ReadDir [of s p] by (auto simp: readDirNames_def split: prod.splits)

type_synonym 's walk_fn = "string \<Rightarrow> FileInfo option \<Rightarrow> goerror option \<Rightarrow> 's \<Rightarrow> goerror option \<Rightarrow> 's \<Rightarrow> bool"

text \<open>\<open>walk\<close> on a path and on the entries of a directory. The names of a directory are read before the function
  is called for it; the function gets the error of reading them.\<close>

inductive walk ::
  "('s \<Rightarrow> os_state) \<Rightarrow> (os_state \<Rightarrow> 's \<Rightarrow> 's) \<Rightarrow> 's walk_fn \<Rightarrow> string \<Rightarrow> FileInfo \<Rightarrow> 's \<Rightarrow> goerror option \<Rightarrow> 's \<Rightarrow> bool"
  and walk_names ::
  "('s \<Rightarrow> os_state) \<Rightarrow> (os_state \<Rightarrow> 's \<Rightarrow> 's) \<Rightarrow> 's walk_fn \<Rightarrow> string \<Rightarrow> string list \<Rightarrow> 's \<Rightarrow> goerror option \<Rightarrow> 's \<Rightarrow> bool"
  for os_of put_os walkFn where
  walk_file: "\<not> fi_IsDir info \<Longrightarrow> walkFn path (Some info) None x r x' \<Longrightarrow> walk os_of put_os walkFn path info x r x'"
| walk_unreadable: "fi_IsDir info \<Longrightarrow> readDirNames path (os_of x) = (Inl err, s1) \<Longrightarrow>
    walkFn path (Some info) (Some err) (put_os s1 x) r x' \<Longrightarrow> walk os_of put_os walkFn path info x r x'"
| walk_refused: "fi_IsDir info \<Longrightarrow> readDirNames path (os_of x) = (Inr ns, s1) \<Longrightarrow>
    walkFn path (Some info) None (put_os s1 x) (Some err) x' \<Longrightarrow> walk os_of put_os walkFn path info x (Some err) x'"
| walk_dir: "fi_IsDir info \<Longrightarrow> readDirNames path (os_of x) = (Inr ns, s1) \<Longrightarrow>
    walkFn path (Some info) None (put_os s1 x) None x1 \<Longrightarrow> walk_names os_of put_os walkFn path ns x1 r x' \<Longrightarrow>
    walk os_of put_os walkFn path info x r x'"
| names_end: "walk_names os_of put_os walkFn path [] x None x"
| names_lost: "os_Lstat (Join [path, n]) (os_of x) = (Inl e, s1) \<Longrightarrow>
    walkFn (Join [path, n]) None (Some e) (put_os s1 x) (Some err) x' \<Longrightarrow>
    walk_names os_of put_os walkFn path (n # ns) x (Some err) x'"
| names_skip: "os_Lstat (Join [path, n]) (os_of x) = (Inl e, s1) \<Longrightarrow>
    walkFn (Join [path, n]) None (Some e) (put_os s1 x) None x1 \<Longrightarrow> walk_names os_of put_os walkFn path ns x1 r x' \<Longrightarrow>
    walk_names os_of put_os walkFn path (n # ns) x r x'"
| names_failed: "os_Lstat (Join [path, n]) (os_of x) = (Inr info, s1) \<Longrightarrow>
    walk os_of put_os walkFn (Join [path, n]) info (put_os s1 x) (Some err) x' \<Longrightarrow>
    walk_names os_of put_os walkFn path (n # ns) x (Some err) x'"
| names_next: "os_Lstat (Join [path, n]) (os_of x) = (Inr info, s1) \<Longrightarrow>
    walk os_of put_os walkFn (Join [path, n]) info (put_os s1 x) None x1 \<Longrightarrow> walk_names os_of put_os walkFn path ns x1 r x' \<Longrightarrow>
    walk_names os_of put_os walkFn path (n # ns) x r x'"

definition Walk ::
  "('s \<Rightarrow> os_state) \<Rightarrow> (os_state \<Rightarrow> 's \<Rightarrow> 's) \<Rightarrow> string \<Rightarrow> 's walk_fn \<Rightarrow> 's \<Rightarrow> goerror option \<Rightarrow> 's \<Rightarrow> bool" where
  "Walk os_of put_os root walkFn x r x' =
     (case os_Lstat root (os_of x) of
        (Inl err, s1) \<Rightarrow> walkFn root None (Some err) (put_os s1 x) r x'
      | (Inr info, s1) \<Rightarrow> walk os_of put_os walkFn root info (put_os s1 x) r x')"

lemma walk_preserves:
  assumes fn: "\<And>path info e x r x'. walkFn path info e x r x' \<Longrightarrow> P x \<Longrightarrow> P x'"
    and os: "\<And>x s. same_files (os_of x) s \<Longrightarrow> P x \<Longrightarrow> P (put_os s x)"
  shows "walk os_of put_os walkFn path info x r x' \<Longrightarrow> P x \<Longrightarrow> P x'"
    and "walk_names os_of put_os walkFn path ns x r x' \<Longrightarrow> P x \<Longrightarrow> P x'"
  by (induction rule: walk_walk_names.inducts)
     (use fn os [OF readDirNames_files] os [OF Lstat_files] in \<open>blast+\<close>)

lemma Walk_preserves:
  assumes "Walk os_of put_os root walkFn x r x'" and "P x"
    and fn: "\<And>path info e x r x'. walkFn path info e x r x' \<Longrightarrow> P x \<Longrightarrow> P x'"
    and os: "\<And>x s. same_files (os_of x) s \<Longrightarrow> P x \<Longrightarrow> P (put_os s x)"
  shows "P x'"
  using assms(1,2) fn os [OF Lstat_files] walk_preserves(1) [of walkFn P os_of put_os, OF fn os]
  by (auto simp: Walk_def split: prod.splits sum.splits)

text \<open>\<open>filepath.Rel\<close>, on the elements of the cleaned paths.\<close>

fun strip_common :: "string list \<Rightarrow> string list \<Rightarrow> string list \<times> string list" where
  "strip_common (a # as) (b # bs) = (if a = b then strip_common as bs else (a # as, b # bs))"
| "strip_common as bs = (as, bs)"

definition Rel :: "string \<Rightarrow> string \<Rightarrow> goerror + string" where
  "Rel basepath targpath =
     (let base = Clean basepath; targ = Clean targpath;
          err = Errorf (''Rel: can'' @ CHR 0x27 # ''t make '' @ targpath @ '' relative to '' @ basepath)
      in if targ = base then Inr ''.''
         else if (base \<noteq> ''.'' \<and> IsAbs base) \<noteq> IsAbs targ then Inl err
         else
           (let (rb, rt) = strip_common (elements base) (if targ = ''.'' then [''.''] else elements targ)
            in if rb \<noteq> [] \<and> hd rb = ''..'' then Inl err
               else Inr (join_slash (replicate (length rb) ''..'' @ rt))))"

end
