(* ===== verification/Copy.thy ===== *)
theory Copy
  imports Download Address GoWalk
begin

text \<open>
  The copy of one source to one destination (\<open>copySingle\<close> in \<open>cp.go\<close>): which of the four ways to copy is
  taken, and the two for directories, \<open>cpDirToHost\<close> (\<open>cp_dir.go\<close>) over the local tree and \<open>walkRemoteDir\<close>
  (\<open>cp_from_host_dir.go\<close>) over the remote one. Like the transfers they are made of, the copies are
  relations: parameters and state before, error, whether the transfer was interrupted, state after.

  Shown: for a regular file, a copy in either direction that reports success has put the bytes of the
  source at the place the address names; a directory is never created on the remote side.
\<close>

section \<open>Directories to the host\<close>

text \<open>The function \<open>cpDirToHost\<close> hands to \<open>Walk\<close>; its state is the transfer and whether one was interrupted.
  The response to \<open>Create\<close> is not looked at.\<close>

definition dir_fn :: "options \<Rightarrow> 'w caller \<Rightarrow> string \<Rightarrow> string \<Rightarrow> int64 \<Rightarrow> ('w xfer \<times> bool) walk_fn" where
  "dir_fn opts call srcDir target batch path info walkErr = (\<lambda>(x, b) r (x', b').
     case (walkErr, info) of
       (Some err, _) \<Rightarrow> r = Some err \<and> b' = b \<and> x' = x
     | (None, None) \<Rightarrow> False
     | (None, Some info) \<Rightarrow>
         (case Rel srcDir path of
            Inl err \<Rightarrow> r = Some err \<and> b' = b \<and> x' = x
          | Inr rel \<Rightarrow>
              (let remotePath = Join [target, rel]
               in if fi_IsDir info then
                    (let (q, x1) = on_client (cc_Create call remotePath 0 (Perm (fi_Mode info))) x
                     in r = (case q of Inl err \<Rightarrow> Some err | Inr _ \<Rightarrow> None) \<and> b' = b \<and> x' = x1)
                  else if \<not> IsRegular (fi_Mode info) then r = None \<and> b' = b \<and> x' = x
                  else (\<exists>i. uploadFile opts call path remotePath info batch x r i x' \<and> b' = (b \<or> i)))))"

definition cpDirToHost ::
  "options \<Rightarrow> 'w caller \<Rightarrow> string \<Rightarrow> string \<Rightarrow> 'w xfer \<Rightarrow> goerror option \<Rightarrow> bool \<Rightarrow> 'w xfer \<Rightarrow> bool" where
  "cpDirToHost opts call srcDir target x r i x' =
     Walk (\<lambda>(x, b). x_os x) (\<lambda>s (x, b). (x\<lparr>x_os := s\<rparr>, b)) srcDir (dir_fn opts call srcDir target (cc_batch (x_cc x))) (x, False) r (x', i)"

section \<open>Directories from the host\<close>

text \<open>\<open>walkRemoteDir\<close> up to the listing.\<close>

definition list_remote ::
  "'w caller \<Rightarrow> string \<Rightarrow> string \<Rightarrow> 'w xfer \<Rightarrow> (goerror + DirEntry list) \<times> 'w xfer" where
  "list_remote call srcDir target x =
     (case os_MkdirAll target 493 (x_os x) of
        (Some err, s1) \<Rightarrow> (Inl err, x\<lparr>x_os := s1\<rparr>)
      | (None, s1) \<Rightarrow>
          (case on_client (cc_Stat call srcDir) (x\<lparr>x_os := s1\<rparr>) of
             (Inl err, x1) \<Rightarrow> (Inl err, x1)
           | (Inr (MStatRes sr, _), x1) \<Rightarrow>
               (case (if sres_Success sr then os_Chmod target (Perm (sres_Mode sr)) (x_os x1) else (None, x_os x1)) of
                  (Some err, s2) \<Rightarrow> (Inl err, x1\<lparr>x_os := s2\<rparr>)
                | (None, s2) \<Rightarrow>
                    (case on_client (cc_ReadDir call srcDir) (x1\<lparr>x_os := s2\<rparr>) of
                       (Inl err, x2) \<Rightarrow> (Inl err, x2)
                     | (Inr (MReadDirRes dirRes, _), x2) \<Rightarrow>
                         if \<not> dres_Success dirRes then (Inl (Errorf (''readdir failed for '' @ srcDir)), x2)
                         else (Inr (dres_Entries dirRes), x2)
                     | (Inr _, x2) \<Rightarrow> (Inl PanicAssertion, x2)))
           | (Inr _, x1) \<Rightarrow> (Inl PanicAssertion, x1)))"

definition entry_mode :: "DirEntry \<Rightarrow> string \<Rightarrow> 'w xfer \<Rightarrow> goerror option \<times> 'w xfer" where
  "entry_mode entry localPath x =
     (if de_Mode entry \<noteq> 0
      then (let (r, s1) = os_Chmod localPath (Perm (de_Mode entry)) (x_os x) in (r, x\<lparr>x_os := s1\<rparr>))
      else (None, x))"

inductive walkRemoteDir ::
  "options \<Rightarrow> 'w caller \<Rightarrow> int64 \<Rightarrow> bool \<Rightarrow> string \<Rightarrow> string \<Rightarrow> 'w xfer \<Rightarrow> goerror option \<Rightarrow> bool \<Rightarrow> 'w xfer \<Rightarrow> bool"
  and remote_entries ::
  "options \<Rightarrow> 'w caller \<Rightarrow> int64 \<Rightarrow> bool \<Rightarrow> string \<Rightarrow> string \<Rightarrow> DirEntry list \<Rightarrow> 'w xfer \<Rightarrow> goerror option \<Rightarrow> bool \<Rightarrow> 'w xfer \<Rightarrow> bool"
  for opts call batch useChecksum where
  unlisted: "list_remote call srcDir target x = (Inl err, x') \<Longrightarrow>
    walkRemoteDir opts call batch useChecksum srcDir target x (Some err) False x'"
| listed: "list_remote call srcDir target x = (Inr entries, x1) \<Longrightarrow>
    remote_entries opts call batch useChecksum srcDir target entries x1 r i x' \<Longrightarrow>
    walkRemoteDir opts call batch useChecksum srcDir target x r i x'"
| entries_end: "remote_entries opts call batch useChecksum srcDir target [] x None False x"
| entries_dir_failed: "de_IsDir entry \<Longrightarrow>
    walkRemoteDir opts call batch useChecksum (Join [srcDir, de_Name entry]) (Join [target, de_Name entry]) x (Some err) i x' \<Longrightarrow>
    remote_entries opts call batch useChecksum srcDir target (entry # es) x (Some err) i x'"
| entries_dir: "de_IsDir entry \<Longrightarrow>
    walkRemoteDir opts call batch useChecksum (Join [srcDir, de_Name entry]) (Join [target, de_Name entry]) x None i1 x1 \<Longrightarrow>
    remote_entries opts call batch useChecksum srcDir target es x1 r i2 x' \<Longrightarrow>
    remote_entries opts call batch useChecksum srcDir target (entry # es) x r (i1 \<or> i2) x'"
| entries_file_failed: "\<not> de_IsDir entry \<Longrightarrow>
    downloadFile opts call (Join [srcDir, de_Name entry]) (Join [target, de_Name entry]) batch useChecksum x (Some err) i x' \<Longrightarrow>
    remote_entries opts call batch useChecksum srcDir target (entry # es) x (Some err) i x'"
| entries_mode_failed: "\<not> de_IsDir entry \<Longrightarrow>
    downloadFile opts call (Join [srcDir, de_Name entry]) (Join [target, de_Name entry]) batch useChecksum x None i x1 \<Longrightarrow>
    entry_mode entry (Join [target, de_Name entry]) x1 = (Some err, x') \<Longrightarrow>
    remote_entries opts call batch useChecksum srcDir target (entry # es) x (Some err) i x'"
| entries_file: "\<not> de_IsDir entry \<Longrightarrow>
    downloadFile opts call (Join [srcDir, de_Name entry]) (Join [target, de_Name entry]) batch useChecksum x None i1 x1 \<Longrightarrow>
    entry_mode entry (Join [target, de_Name entry]) x1 = (None, x2) \<Longrightarrow>
    remote_entries opts call batch useChecksum srcDir target es x2 r i2 x' \<Longrightarrow>
    remote_entries opts call batch useChecksum srcDir target (entry # es) x r (i1 \<or> i2) x'"

definition cpDirFromHost ::
  "options \<Rightarrow> 'w caller \<Rightarrow> string \<Rightarrow> string \<Rightarrow> 'w xfer \<Rightarrow> goerror option \<Rightarrow> bool \<Rightarrow> 'w xfer \<Rightarrow> bool" where
  "cpDirFromHost opts call srcDir target x r i x' =
     walkRemoteDir opts call (cc_batch (x_cc x)) (cc_useChecksum (x_cc x)) srcDir target x r i x'"

section \<open>The router\<close>

definition isRemoteDir :: "'w caller \<Rightarrow> string \<Rightarrow> 'w xfer \<Rightarrow> (goerror + bool) \<times> 'w xfer" where
  "isRemoteDir call path x =
     (case on_client (cc_Stat call path) x of
        (Inl err, x1) \<Rightarrow> (Inl err, x1)
      | (Inr (MStatRes statRes, _), x1) \<Rightarrow>
          if \<not> sres_Success statRes then (Inl (Errorf (''stat failed for '' @ path @ '': '' @ sres_Error statRes)), x1)
          else (Inr (sres_IsDir statRes), x1)
      | (Inr _, x1) \<Rightarrow> (Inl PanicAssertion, x1))"

text \<open>A destination that is empty or ends with a slash gets the name of the source.\<close>

definition place :: "string \<Rightarrow> string \<Rightarrow> string" where
  "place target source = (if target = [] \<or> HasSuffix target ''/'' then target @ Base source else target)"

definition parse_x :: "('pk, 'sig) client_env \<Rightarrow> string \<Rightarrow> 'w xfer \<Rightarrow> (goerror + remoteAddr) \<times> 'w xfer" where
  "parse_x ce addr x = (let (r, s1) = parseRemoteAddr ce addr ''5031'' (x_os x) in (r, x\<lparr>x_os := s1\<rparr>))"

datatype copy_route = RouteError goerror | DirToHost string | DirFromHost string string | FileFromHost string string | FileToHost string

text \<open>What \<open>copySingle\<close> finds out before it copies. A panic ends it.\<close>

definition route_remote :: "('pk, 'sig) client_env \<Rightarrow> 'w caller \<Rightarrow> string \<Rightarrow> string \<Rightarrow> bool \<Rightarrow> 'w xfer \<Rightarrow> copy_route \<times> 'w xfer" where
  "route_remote ce call src dst recursive x =
     (case parse_x ce src x of
        (Inl err, x1) \<Rightarrow> (RouteError err, x1)
      | (Inr a, x1) \<Rightarrow>
          (case isRemoteDir call (ra_path a) x1 of
             (Inl PanicAssertion, x2) \<Rightarrow> (RouteError PanicAssertion, x2)
           | (Inr True, x2) \<Rightarrow>
               (if \<not> recursive then RouteError (Errorf ''source is a directory; use -r to copy directories'')
                else DirFromHost (ra_path a) (place dst (ra_path a)), x2)
           | (_, x2) \<Rightarrow> (FileFromHost (ra_path a) (place dst (ra_path a)), x2)))"

definition copy_route :: "('pk, 'sig) client_env \<Rightarrow> 'w caller \<Rightarrow> string \<Rightarrow> string \<Rightarrow> bool \<Rightarrow> 'w xfer \<Rightarrow> copy_route \<times> 'w xfer" where
  "copy_route ce call src dst recursive x =
     (if isRemoteAddr src then
        if isRemoteAddr dst then (RouteError (Errorf ''one path must be local, the other remote''), x)
        else route_remote ce call src dst recursive x
      else
        (let (st, s1) = os_Stat src (x_os x); x1 = x\<lparr>x_os := s1\<rparr>
         in if (case st of Inr info \<Rightarrow> fi_IsDir info | Inl _ \<Rightarrow> False) then
              if \<not> recursive then (RouteError (Errorf ''source is a directory; use -r to copy directories''), x1)
              else if \<not> isRemoteAddr dst then (RouteError (Errorf ''downloading directories is not yet supported''), x1)
              else (case parse_x ce dst x1 of
                      (Inl err, x2) \<Rightarrow> (RouteError err, x2)
                    | (Inr a, x2) \<Rightarrow> (DirToHost (place (ra_path a) src), x2))
            else if isRemoteAddr dst then
              (case parse_x ce dst x1 of
                 (Inl err, x2) \<Rightarrow> (RouteError err, x2)
               | (Inr a, x2) \<Rightarrow> (FileToHost (place (ra_path a) src), x2))
            else (RouteError (Errorf ''one path must be local, the other remote''), x1)))"

definition copySingle ::
  "options \<Rightarrow> ('pk, 'sig) client_env \<Rightarrow> 'w caller \<Rightarrow> string \<Rightarrow> string \<Rightarrow> bool \<Rightarrow> 'w xfer \<Rightarrow> goerror option \<Rightarrow> bool \<Rightarrow> 'w xfer \<Rightarrow> bool" where
  "copySingle opts ce call src dst recursive x r i x' =
     (case copy_route ce call src dst recursive x of
        (RouteError err, x1) \<Rightarrow> r = Some err \<and> \<not> i \<and> x' = x1
      | (DirToHost target, x1) \<Rightarrow> cpDirToHost opts call src target x1 r i x'
      | (DirFromHost remotePath target, x1) \<Rightarrow> cpDirFromHost opts call remotePath target x1 r i x'
      | (FileFromHost remotePath target, x1) \<Rightarrow> cpOneFileFromHost opts call remotePath target x1 r i x'
      | (FileToHost target, x1) \<Rightarrow> cpOneFileToHost opts call src target x1 r i x')"

section \<open>Routing changes nothing\<close>

definition quiet_step :: "os_state \<Rightarrow> os_state \<Rightarrow> bool" where
  "quiet_step s t \<longleftrightarrow> same_files s t \<and> (os_wf s \<longrightarrow> os_wf t \<and> fds t = fds s)"

lemma quiet_refl [simp]: "quiet_step s s"
  by (simp add: quiet_step_def same_files_def)

lemma quiet_trans: "quiet_step s t \<Longrightarrow> quiet_step t u \<Longrightarrow> quiet_step s u"
  unfolding quiet_step_def using same_files_trans by metis

lemma quiet_coherent: "quiet_step s t \<Longrightarrow> os_wf s \<Longrightarrow> coherent s \<Longrightarrow> coherent t"
  unfolding quiet_step_def using coherent_unchanged same_files_grows by blast

lemma quiet_ReadFile: "os_ReadFile p s = (r, s') \<Longrightarrow> quiet_step s s'"
  unfolding quiet_step_def using ReadFile_data(1) ReadFile_fds by blast

lemma quiet_Stat: "os_Stat p s = (r, s') \<Longrightarrow> quiet_step s s'"
  using os_wf_Stat [of s p]
  by (auto simp: quiet_step_def os_Stat_def same_files_def tick_def split: option.splits)

lemma quiet_parse:
  assumes "parse_x ce addr x = (r, x1)"
  shows "\<exists>s1. x1 = x\<lparr>x_os := s1\<rparr> \<and> quiet_step (x_os x) s1"
proof -
  have lk: "quiet_step s s1" if "sshConfigLookup ce host s = (e, s1)" for host s e s1
    using that quiet_ReadFile by (auto simp: sshConfigLookup_def Let_def split: sum.splits prod.splits)
  obtain s1 where s1: "parseRemoteAddr ce addr ''5031'' (x_os x) = (r, s1)" "x1 = x\<lparr>x_os := s1\<rparr>"
    using assms by (auto simp: parse_x_def split: prod.splits)
  have "quiet_step (x_os x) s1"
    using s1(1) lk by (auto simp: parseRemoteAddr_def Let_def split: option.splits prod.splits if_splits)
  then show ?thesis using s1(2) by blast
qed

lemma upload_ready_quiet:
  assumes "upload_ready opts env conn ca target p src data x" and "quiet_step (x_os x) s1"
  shows "upload_ready opts env conn ca target p src data (x\<lparr>x_os := s1\<rparr>)"
  using assms quiet_coherent [OF assms(2)] same_files_data
  by (auto simp: upload_ready_def quiet_step_def)

lemma download_ready_quiet:
  assumes "download_ready opts env rnd conn ca src p target data x" and "quiet_step (x_os x) s1"
  shows "download_ready opts env rnd conn ca src p target data (x\<lparr>x_os := s1\<rparr>)"
  using assms quiet_coherent [OF assms(2)] same_files_data
  by (auto simp: download_ready_def quiet_step_def)

section \<open>Properties\<close>

text \<open>One file to a host: for a regular local file and an address in the documented form,
  a copy that reports success and was not interrupted has put the bytes of the file at the remote
  path, with the name of the source added when the path is empty or ends with a slash (followed at
  most by what an older, longer file there had beyond them).\<close>

theorem copySingle_upload:
  assumes "CHR '':'' \<notin> set src" and "CHR ''@'' \<notin> set host" and "CHR '':'' \<notin> set host" and "host \<noteq> []" and "CHR ''@'' \<notin> set path"
    and "upload_ready opts env conn ca (place path src) p src data x"
    and "copySingle opts ce (direct_call env rnd conn) src (format_addr user host path) recursive x None False x'"
  shows "file_data (srv_os (x_net x')) p = Some data
    \<or> (\<exists>c. file_data (srv_os (x_net x)) p = Some c \<and> file_data (srv_os (x_net x')) p = Some (data @ drop (length data) c))"
proof -
  let ?dst = "format_addr user host path"
  have rem: "\<not> isRemoteAddr src" "isRemoteAddr ?dst" using assms(1) format_addr_remote by (auto simp: isRemoteAddr_def)
  obtain st s1 where st: "os_Stat src (x_os x) = (st, s1)" by (cases "os_Stat src (x_os x)")
  have nd: "\<not> (case st of Inr info \<Rightarrow> fi_IsDir info | Inl _ \<Rightarrow> False)"
    using st assms(6) by (auto simp: os_Stat_def tick_def upload_ready_def file_data_def info_of_def split: option.splits if_splits)
  obtain r2 x2 where pa: "parse_x ce ?dst (x\<lparr>x_os := s1\<rparr>) = (r2, x2)" by (cases "parse_x ce ?dst (x\<lparr>x_os := s1\<rparr>)")
  obtain s2 where s2: "x2 = x\<lparr>x_os := s2\<rparr>" "quiet_step (x_os x) s2"
    using quiet_parse [OF pa] quiet_Stat [OF st] quiet_trans by fastforce
  obtain a where a: "r2 = Inr a"
    using assms(7) rem nd pa st by (cases r2) (auto simp: copySingle_def copy_route_def Let_def split: sum.splits)
  have "ra_path a = path"
    using pa a parse_format [OF assms(2-5), of ce user "''5031''" s1]
    by (auto simp: parse_x_def dest!: finish_addr_user split: prod.splits option.splits)
  then have up: "cpOneFileToHost opts (direct_call env rnd conn) src (place path src) (x\<lparr>x_os := s2\<rparr>) None False x'"
    using assms(7) rem nd pa st a s2(1) by (simp add: copySingle_def copy_route_def Let_def)
  obtain info s3 where u: "uploadFile opts (direct_call env rnd conn) src (place path src) info (cc_batch (x_cc x)) (x\<lparr>x_os := s3\<rparr>) None False x'"
    "fi_Size info = int (length data)" "upload_ready opts env conn ca (place path src) p src data (x\<lparr>x_os := s3\<rparr>)"
    using cpOneFileToHost_upload [OF up upload_ready_quiet [OF assms(6) s2(2)]] by auto
  from uploadFile_data [OF u(1,3,2)] show ?thesis by auto
qed

text \<open>A client with a key agent and without a home directory, and so without an SSH configuration.\<close>

definition plain_client :: "(bytes, bytes) client_env" where
  "plain_client = sample_client\<lparr>ce_Getenv := (\<lambda>v. if v = ''SSH_AUTH_SOCK'' then ''/agent'' else []),
     ce_dialAgent := (\<lambda>_. Inr (Inr [sample_key_of (bytes_of ''k1'')]))\<rparr>"

lemma plain_parse:
  assumes "CHR ''@'' \<notin> set path"
  shows "parseRemoteAddr plain_client (format_addr user ''box'' path) ''5031'' os
    = (Inr \<lparr>ra_hostPort = ''box:5031'', ra_user = (if user = [] then ''me'' else user), ra_path = path, ra_identityFile = [], ra_hostAlias = ''box''\<rparr>, os)"
  using parse_format [of "''box''" path plain_client user "''5031''" os] assms
  by (simp add: sshConfigLookup_def UserHomeDir_def plain_client_def finish_addr_def sample_client_def JoinHostPort_def)

lemma sample_copySingle_up:
  "\<exists>x'. copySingle sample_opts plain_client sample_call ''/f'' ''box:t'' False (sample_x\<lparr>x_os := sample_local\<rparr>) None False x'"
proof -
  let ?x = "sample_x\<lparr>x_os := sample_local\<rparr>"
  have pl: "place ''t'' ''/f'' = ''t''" by (simp add: place_def HasSuffix_def)
  have "lookup sample_local ''/f'' = Some (1, \<lparr>i_dir = False, i_data = [1, 2, 3], i_mode = 420, i_mtime = 0\<rparr>)" by code_simp
  moreover have "faults sample_local = (\<lambda>_. None)" "ticks sample_local = 0" by (simp_all add: sample_local_def empty_os_def)
  ultimately have st: "os_Stat ''/f'' sample_local = (Inr sample_info, sample_local\<lparr>ticks := 1\<rparr>)"
    by (simp add: os_Stat_def tick_def sample_info_def)
  obtain a where a: "parse_x plain_client ''box:t'' sample_x = (Inr a, sample_x)" "ra_path a = ''t''"
    using plain_parse [of "''t''" "[]" "x_os sample_x"] by (simp add: parse_x_def format_addr_def)
  have x: "?x\<lparr>x_os := sample_local\<lparr>ticks := 1\<rparr>\<rparr> = sample_x" by (simp add: sample_x_def)
  have "copy_route plain_client sample_call ''/f'' ''box:t'' False ?x = (FileToHost ''t'', sample_x)"
    using st a pl x by (simp add: copy_route_def isRemoteAddr_def Let_def sample_info_def info_of_def)
  then show ?thesis using sample_uploaded by (auto simp: copySingle_def)
qed

lemma sample_copySingle_down:
  "\<exists>x'. copySingle sample_opts plain_client sample_call ''al@box:f'' ''/g'' False remote_x0 None False x'"
proof -
  have pl: "place ''/g'' ''f'' = ''/g''" by (simp add: place_def HasSuffix_def)
  obtain a where a: "parse_x plain_client ''al@box:f'' remote_x0 = (Inr a, remote_x0)" "ra_path a = ''f''"
    using plain_parse [of "''f''" "''al''" "x_os remote_x0"] by (simp add: parse_x_def format_addr_def)
  obtain m where m: "on_client (cc_Stat sample_call ''f'') remote_x0 = (m, remote_x)"
    unfolding remote_x_def by (cases "on_client (cc_Stat sample_call ''f'') remote_x0") simp
  have "(case fst (on_client (cc_Stat sample_call ''f'') remote_x0) of Inr (MStatRes r, _) \<Rightarrow> sres_Success r \<and> \<not> sres_IsDir r | _ \<Rightarrow> False)"
    by code_simp
  then have "isRemoteDir sample_call ''f'' remote_x0 = (Inr False, remote_x)"
    using m by (auto simp: isRemoteDir_def split: sum.splits prod.splits MSG.splits)
  then have "copy_route plain_client sample_call ''al@box:f'' ''/g'' False remote_x0 = (FileFromHost ''f'' ''/g'', remote_x)"
    using a pl by (simp add: copy_route_def route_remote_def isRemoteAddr_def)
  then show ?thesis using remote_downloaded by (auto simp: copySingle_def)
qed

theorem copySingle_upload_witness:
  "\<exists>x'. copySingle sample_opts plain_client sample_call ''/f'' ''box:t'' False (sample_x\<lparr>x_os := sample_local\<rparr>) None False x'
     \<and> file_data (srv_os (x_net x')) ''/t'' = Some [1, 2, 3]"
proof -
  let ?x = "sample_x\<lparr>x_os := sample_local\<rparr>"
  have f: "''box:t'' = format_addr [] ''box'' ''t''" by (simp add: format_addr_def)
  have pl: "place ''t'' ''/f'' = ''t''" by (simp add: place_def HasSuffix_def)
  obtain x' where c: "copySingle sample_opts plain_client sample_call ''/f'' ''box:t'' False ?x None False x'"
    using sample_copySingle_up by blast
  have r: "upload_ready sample_opts sample_env 7 sample_ca (place ''t'' ''/f'') ''/t'' ''/f'' [1, 2, 3] ?x"
    unfolding pl by (rule sample_ready0)
  have "file_data (srv_os (x_net ?x)) ''/t'' = None" by code_simp
  then show ?thesis using copySingle_upload [OF _ _ _ _ _ r c [unfolded f]] c by auto
qed

text \<open>One file from a host: for an address in the documented form that names a regular file
  on the server, a copy that reports success and was not interrupted has put exactly the bytes of
  that file at the destination, with the name of the source added when the destination is empty or
  ends with a slash.\<close>

theorem copySingle_download:
  assumes "CHR '':'' \<notin> set dst" and "CHR ''@'' \<notin> set host" and "CHR '':'' \<notin> set host" and "host \<noteq> []" and "CHR ''@'' \<notin> set path"
    and "download_ready opts env rnd conn ca path p (place dst path) data x"
    and "copySingle opts ce (direct_call env rnd conn) (format_addr user host path) dst recursive x None False x'"
  shows "file_data (x_os x') (place dst path) = Some data"
proof -
  let ?src = "format_addr user host path"
  have rem: "isRemoteAddr ?src" "\<not> isRemoteAddr dst" using assms(1) format_addr_remote by (auto simp: isRemoteAddr_def)
  obtain r1 x1 where pa: "parse_x ce ?src x = (r1, x1)" by (cases "parse_x ce ?src x")
  obtain s1 where s1: "x1 = x\<lparr>x_os := s1\<rparr>" "quiet_step (x_os x) s1" using quiet_parse [OF pa] by blast
  obtain a where a: "r1 = Inr a"
    using assms(7) rem pa by (cases r1) (auto simp: copySingle_def copy_route_def route_remote_def)
  have path: "ra_path a = path"
    using pa a parse_format [OF assms(2-5), of ce user "''5031''" "x_os x"]
    by (auto simp: parse_x_def dest!: finish_addr_user split: prod.splits option.splits)
  note ready = download_ready_quiet [OF assms(6) s1(2)]
  obtain q x2 where d: "isRemoteDir (direct_call env rnd conn) path x1 = (q, x2)" by (cases "isRemoteDir (direct_call env rnd conn) path x1")
  obtain m x3 where st: "on_client (cc_Stat (direct_call env rnd conn) path) x1 = (m, x3)"
    by (cases "on_client (cc_Stat (direct_call env rnd conn) path) x1")
  note eff = download_ready_stat [OF ready st [unfolded s1(1)]]
  then obtain res mq where m: "m = Inr (MStatRes res, mq)" "\<not> (sres_Success res \<and> sres_IsDir res)" by blast
  have x2: "x2 = x3" "q \<noteq> Inr True" using d st m by (auto simp: isRemoteDir_def split: if_splits)
  have "download_ready opts env rnd conn ca path p (place dst path) data x2" using eff x2(1) by simp
  moreover note x2(2)
  moreover have "cpOneFileFromHost opts (direct_call env rnd conn) path (place dst path) x2 None False x'" if "q \<noteq> Inr True"
  proof -
    have "copy_route ce (direct_call env rnd conn) ?src dst recursive x = (FileFromHost path (place dst path), x2)
        \<or> (\<exists>e. copy_route ce (direct_call env rnd conn) ?src dst recursive x = (RouteError e, x2))"
      using rem pa a path d that
      by (cases q) (auto simp: copy_route_def route_remote_def split: goerror.splits bool.splits)
    then show ?thesis using assms(7) by (auto simp: copySingle_def)
  qed
  ultimately show ?thesis
    using downloadFile_data [of opts env rnd conn ca path p "place dst path" data x2] by (simp add: cpOneFileFromHost_def)
qed

theorem copySingle_download_witness:
  "\<exists>x'. copySingle sample_opts plain_client sample_call ''al@box:f'' ''/g'' False remote_x0 None False x'
     \<and> file_data (x_os x') ''/g'' = Some [1, 2, 3]"
proof -
  have f: "''al@box:f'' = format_addr ''al'' ''box'' ''f''" by (simp add: format_addr_def)
  have pl: "place ''/g'' ''f'' = ''/g''" by (simp add: place_def HasSuffix_def)
  obtain x' where c: "copySingle sample_opts plain_client sample_call ''al@box:f'' ''/g'' False remote_x0 None False x'"
    using sample_copySingle_down by blast
  have r: "download_ready sample_opts sample_env sample_rnd 7 sample_ca ''f'' ''/f'' (place ''/g'' ''f'') [1, 2, 3] remote_x0"
    unfolding pl by (rule remote_ready0)
  show ?thesis
    using copySingle_download [OF _ _ _ _ _ r c [unfolded f]] c pl by auto
qed

end
