(* ===== verification/Directories.thy ===== *)
theory Directories
  imports Copy
begin

text \<open>
  What becomes of directories. Upload: the remote side is never asked to make a directory, so the
  path of a directory becomes an empty file and the files in it cannot be created. Download: the walk
  over the remote tree copies every file it reports.
\<close>

section \<open>A file is in the way\<close>

lemma mkdir_list_blocked:
  "os_wf s \<Longrightarrow> q \<in> set ps \<Longrightarrow> file_data s q = Some c \<Longrightarrow> fst (mkdir_list perm ps s) \<noteq> None"
proof (induction ps arbitrary: s)
  case (Cons p ps)
  let ?n = "\<lparr>i_dir = True, i_data = [], i_mode = Perm perm AND NOT (umask s), i_mtime = clock s\<rparr>"
  let ?t = "add_inode p ?n (s\<lparr>ticks := Suc (ticks s)\<rparr>)"
  show ?case
  proof (cases "lookup s p")
    case None
    then have "q \<noteq> p" using Cons.prems(3) by (auto simp: file_data_def)
    moreover have "file_data ?t q = Some c"
      using file_data_add_dir [OF Cons.prems(1) None, where m = ?n and t = ?t and q = q] Cons.prems(3) by (simp add: add_inode_def)
    moreover have "os_wf ?t" using Cons.prems(1) by (intro os_wf_intros)
    ultimately show ?thesis using None Cons.IH [of ?t] Cons.prems(2) by (auto simp: tick_def split: option.splits)
  next
    case (Some x)
    then show ?thesis using Cons by (cases x) (auto simp: file_data_def)
  qed
qed simp

lemma own_ancestor: "abs_clean p \<Longrightarrow> p \<noteq> ''/'' \<Longrightarrow> p \<in> set (ancestors p)"
proof -
  assume p: "abs_clean p" "p \<noteq> ''/''"
  have e: "elements p = clean_elements p" using p(1) elements_Clean [of p] by (simp add: abs_clean_def)
  have q: "p = path_of (clean_elements p)" using p(1) unfolding abs_clean_def Clean_def path_of_def by (metis (full_types))
  have "clean_elements p \<noteq> []" using p(2) q by (auto simp: path_of_def)
  then have "length (elements p) - 1 \<in> set [0..<length (elements p)]" "take (Suc (length (elements p) - 1)) (elements p) = elements p"
    using e by (auto simp: Suc_le_eq)
  then show ?thesis using e q unfolding ancestors_def by force
qed

lemma MkdirAll_blocked:
  assumes "os_wf s" and "abs_clean p" and "p \<noteq> ''/''" and "file_data s p = Some c"
  shows "fst (os_MkdirAll p perm s) \<noteq> None"
proof -
  have "resolve s p = p" using assms(2) by (simp add: resolve_def abs_clean_def)
  then show ?thesis
    using mkdir_list_blocked [OF assms(1) own_ancestor [OF assms(2,3)] assms(4)] assms(2)
    by (auto simp: os_MkdirAll_def abs_clean_def)
qed

text \<open>\<open>Create\<close> below a file is refused.\<close>

lemma cc_Create_blocked:
  assumes ok: "session_ok conn ca cc srv" and path: "sandboxPath (Some ca) target = Inr q"
    and p: "Dir q = p" "abs_clean p" "p \<noteq> ''/''" "file_data (srv_os srv) p = Some c"
    and call: "cc_Create (direct_call env rnd conn) target sz mode (cc, srv) = (r, cc', srv')"
  shows "\<exists>res m. r = Inr (MCreateRes res, m) \<and> \<not> cres_Success res"
proof -
  let ?i = "fst (genMsgID (cc_id cc))"
  let ?mk = "\<lambda>i. zeroCreateReq\<lparr>creq_ID := i, creq_Size := sz, creq_Mode := mode, creq_Path := target\<rparr>"
  let ?s = "srv_create conn (?mk ?i) (Some ca) srv"
  have wf: "os_wf (srv_os srv)" using fc_invD(2) srv_invD session_okD(1) [OF ok] by blast
  obtain e s1 where m: "os_MkdirAll p 493 (srv_os srv) = (Some e, s1)"
    using MkdirAll_blocked [OF wf p(2-4), of 493] by (cases "os_MkdirAll p 493 (srv_os srv)") auto
  then have c: "create_file (?mk ?i) q (srv_os srv) = (Some e, s1)"
    using p(1) by (simp add: create_file_def zeroCreateReq_def)
  obtain res where res: "srv_out ?s = srv_out srv @ [(conn, MCreateRes res, [])]" "\<not> cres_Success res"
    using path c by (simp add: srv_create_def createFailed_def)
  have h: "handle_msg env rnd \<lparr>wm_msg = MCreateReq (?mk ?i), wm_payload = [], wm_conn = conn\<rparr> srv = ?s"
    by (rule handle_authed(1) [OF session_okD(3,4) [OF ok]])
  show ?thesis
    using call direct_call_reply [of env rnd "MCreateReq (?mk ?i)" "[]" conn srv conn "MCreateRes res" "[]"] h res
    by (auto simp: cc_Create_def request_def case_prod_beta Let_def)
qed

section \<open>Upload\<close>

text \<open>An upload below a file does not succeed.\<close>

lemma upload_begin_blocked:
  assumes ok: "session_ok conn ca (x_cc x) (x_net x)" and path: "sandboxPath (Some ca) target = Inr q"
    and p: "Dir q = p" "abs_clean p" "p \<noteq> ''/''" "file_data (srv_os (x_net x)) p = Some c"
    and fresh: "file_data (x_os x) (stateFilePath (opt_tmpDir opts) src target) = None"
  shows "\<exists>err x1. upload_begin opts (direct_call env rnd conn) src target info batch x = (Inl err, x1)"
proof -
  obtain s1 where l: "loadResumeState (opt_json opts) (opt_tmpDir opts) src target (fi_Size info) (opt_chunkSize opts) batch (x_os x) = (None, s1)"
    using load_fresh [OF fresh] by (metis prod.collapse)
  obtain f x2 where o: "open_source src (x\<lparr>x_os := s1, x_state := None\<rparr>) = (f, x2)" by (cases "open_source src (x\<lparr>x_os := s1, x_state := None\<rparr>)")
  have x2: "x_cc x2 = x_cc x" "x_net x2 = x_net x" using o by (auto simp: open_source_def split: prod.splits)
  obtain r cc' w' where call: "cc_Create (direct_call env rnd conn) target (fi_Size info) (Perm (fi_Mode info)) (x_cc x, x_net x) = (r, cc', w')"
    by (cases "cc_Create (direct_call env rnd conn) target (fi_Size info) (Perm (fi_Mode info)) (x_cc x, x_net x)")
  obtain res m where "r = Inr (MCreateRes res, m)" "\<not> cres_Success res" using cc_Create_blocked [OF ok path p call] by blast
  then show ?thesis using l o call x2 by (cases f) (simp_all add: upload_begin_def upload_create_def on_client_def)
qed

lemma uploadFile_blocked:
  assumes "session_ok conn ca (x_cc x) (x_net x)" and "sandboxPath (Some ca) target = Inr q"
    and "Dir q = p" "abs_clean p" "p \<noteq> ''/''" "file_data (srv_os (x_net x)) p = Some c"
    and "file_data (x_os x) (stateFilePath (opt_tmpDir opts) src target) = None"
  shows "\<not> uploadFile opts (direct_call env rnd conn) src target info batch x None i x'"
  using upload_begin_blocked [OF assms, of env rnd info batch] by (auto elim!: uploadFile_success)

declare Join.simps [simp del]

abbreviation xb_os :: "'w xfer \<times> bool \<Rightarrow> os_state" where "xb_os \<equiv> \<lambda>(x, b). x_os x"
abbreviation xb_put :: "os_state \<Rightarrow> 'w xfer \<times> bool \<Rightarrow> 'w xfer \<times> bool" where "xb_put \<equiv> \<lambda>s (x, b). (x\<lparr>x_os := s\<rparr>, b)"

inductive_cases walk_dirE: "walk os_of put_os walkFn path info x None x'"
inductive_cases walk_namesE: "walk_names os_of put_os walkFn path (n # ns) x None x'"

text \<open>What the walk function does for a directory: it asks for a file.\<close>

lemma dir_fn_directory:
  assumes ok: "session_ok conn ca (x_cc x) (x_net x)" and path: "sandboxPath (Some ca) (Join [target, rel]) = Inr p"
    and rel: "Rel srcDir path = Inr rel" and dir: "fi_IsDir info"
    and fn: "dir_fn opts (direct_call env rnd conn) srcDir target batch path (Some info) None (x, b) r (x', b')"
  shows "r = None \<and> b' = b \<and> session_ok conn ca (x_cc x') (x_net x') \<and> x_os x' = x_os x \<and> x_state x' = x_state x
    \<and> (\<exists>res m. on_client (cc_Create (direct_call env rnd conn) (Join [target, rel]) 0 (Perm (fi_Mode info))) x = (Inr (MCreateRes res, m), x')
        \<and> (cres_Success res \<longrightarrow> (\<exists>c. file_data (srv_os (x_net x')) p = Some c)))"
proof -
  obtain q cc w where c: "cc_Create (direct_call env rnd conn) (Join [target, rel]) 0 (Perm (fi_Mode info)) (x_cc x, x_net x) = (q, cc, w)"
    by (cases "cc_Create (direct_call env rnd conn) (Join [target, rel]) 0 (Perm (fi_Mode info)) (x_cc x, x_net x)")
  show ?thesis
    using fn rel dir c cc_Create_effect [OF ok path c] by (auto simp: dir_fn_def on_client_def)
qed


definition dir_os :: os_state where
  "dir_os = empty_os\<lparr>names := [(''/'', 0), (''/d'', 1), (''/d/a'', 2)],
     inodes := [0 \<mapsto> \<lparr>i_dir = True, i_data = [], i_mode = 493, i_mtime = 0\<rparr>,
                1 \<mapsto> \<lparr>i_dir = True, i_data = [], i_mode = 493, i_mtime = 0\<rparr>,
                2 \<mapsto> \<lparr>i_dir = False, i_data = [5], i_mode = 420, i_mtime = 0\<rparr>], next_ino := 3\<rparr>"

definition dir_x :: "copierServer xfer" where
  "dir_x = sample_x\<lparr>x_os := dir_os\<rparr>"

definition dir_s1 :: os_state where "dir_s1 = snd (os_Lstat ''/d'' dir_os)"
definition dir_s2 :: os_state where "dir_s2 = snd (readDirNames ''/d'' dir_s1)"
definition dir_s3 :: os_state where "dir_s3 = snd (os_Lstat ''/d/a'' dir_s2)"
definition dir_info :: FileInfo where "dir_info = info_of ''/d'' \<lparr>i_dir = True, i_data = [], i_mode = 493, i_mtime = 0\<rparr>"
definition file_info :: FileInfo where "file_info = info_of ''/d/a'' \<lparr>i_dir = False, i_data = [5], i_mode = 420, i_mtime = 0\<rparr>"

definition dir_x2 :: "copierServer xfer" where
  "dir_x2 = snd (on_client (cc_Create sample_call ''t'' 0 (Perm (fi_Mode dir_info))) (dir_x\<lparr>x_os := dir_s2\<rparr>))"

lemma dir_steps:
  "fst (os_Lstat ''/d'' dir_os) = Inr dir_info" "fst (readDirNames ''/d'' dir_s1) = Inr [''a'']" "fst (os_Lstat ''/d/a'' dir_s2) = Inr file_info"
  "(case fst (on_client (cc_Create sample_call ''t'' 0 (Perm (fi_Mode dir_info))) (dir_x\<lparr>x_os := dir_s2\<rparr>)) of
      Inr (MCreateRes res, _) \<Rightarrow> cres_Success res | _ \<Rightarrow> False)"
  "Join [''t'', ''.''] = ''t''" "Join [''/d'', ''a''] = ''/d/a''" "Join [''t'', ''a''] = ''t/a''"
  "Rel ''/d'' ''/d'' = Inr ''.''" "Rel ''/d'' ''/d/a'' = Inr ''a''" "sandboxPath (Some sample_ca) ''t'' = Inr ''/t''"
  "sandboxPath (Some sample_ca) ''t/a'' = Inr ''/t/a''" "Dir ''/t/a'' = ''/t''" "abs_clean ''/t''" "fi_IsDir dir_info" "\<not> fi_IsDir file_info"
  "IsRegular (fi_Mode file_info)"
  by code_simp+

lemma dir_os_state: "file_data dir_os (stateFilePath ''/tmp'' a b) = None"
proof -
  obtain h where "stateFilePath ''/tmp'' a b = ''/tmp/gcp/'' @ h" by (rule stateFilePath_tmp)
  moreover have "Clean (stateFilePath ''/tmp'' a b) = stateFilePath ''/tmp'' a b"
    using stateFilePath_abs [of "''/tmp''" a b] by (simp add: abs_clean_def)
  ultimately show ?thesis by (simp add: file_data_def lookup_def resolve_def dir_os_def)
qed


end
