(* ===== verification/Login.thy ===== *)
theory Login
  imports Signer Session
begin

text \<open>
  How the client gets a session (\<open>client.go\<close>): \<open>newClient\<close> and \<open>dialAndAuth\<close> sign the server's challenge on
  a temporary connection and start the pool; \<open>runConn\<close> dials the connections of the pool, with a
  growing delay after a failure, and \<open>tokenAuth\<close> authenticates each with the session token.

  The network is a parameter (\<open>transport\<close>): dialling, writing, the bytes that arrive, closing.
  \<open>link\<close> is one of them, with the model of the server behind it: what the client writes on a
  connection goes through \<open>OnTraffic\<close> and the dispatch, and the replies come back as frames.
  Over it the two sides are shown to agree: a login that succeeds leaves a session of the user whose
  key signed, with the encryption key the client derived, and every connection of the pool that is
  accepted is one of which the theory \<open>Session\<close> speaks.
\<close>

section \<open>The code\<close>

record 'w transport =
  t_Dial :: "string \<Rightarrow> 'w \<Rightarrow> (goerror + connid) \<times> 'w"
  t_Write :: "connid \<Rightarrow> 'w \<Rightarrow> bytes \<Rightarrow> goerror option \<times> 'w"
  t_Arrived :: "connid \<Rightarrow> 'w \<Rightarrow> bytes \<times> 'w"
  t_Rest :: "connid \<Rightarrow> bytes \<Rightarrow> 'w \<Rightarrow> 'w"
  t_Close :: "connid \<Rightarrow> 'w \<Rightarrow> 'w"

text \<open>\<open>readResp\<close> on a connection: it reads from what arrives and leaves the rest.\<close>

definition conn_readResp :: "cbor_lib \<Rightarrow> 'w transport \<Rightarrow> connid \<Rightarrow> 'w \<Rightarrow> (goerror + MSG) \<times> 'w" where
  "conn_readResp cb t conn w =
     (let (inp, w1) = t_Arrived t conn w; (r, rest) = readResp cb inp in (r, t_Rest t conn rest w1))"

definition pubkey_req :: "copierClient \<Rightarrow> bytes \<Rightarrow> AuthReq" where
  "pubkey_req cc pubKeyBytes = zeroAuthReq\<lparr>areq_ID := 1, areq_User := cc_authUser cc, areq_PubKey := pubKeyBytes\<rparr>"

definition signature_req :: "copierClient \<Rightarrow> bytes \<Rightarrow> bytes \<Rightarrow> AuthReq" where
  "signature_req cc pubKeyBytes sigBytes =
     zeroAuthReq\<lparr>areq_ID := 2, areq_User := cc_authUser cc, areq_PubKey := pubKeyBytes, areq_Signature := sigBytes\<rparr>"

text \<open>The exchange on the temporary connection: the result is the server's last answer.\<close>

definition send_signature ::
  "cbor_lib \<Rightarrow> ('pk, 'sig) client_env \<Rightarrow> 'w transport \<Rightarrow> ('pk, 'sig) signer \<Rightarrow> connid \<Rightarrow> copierClient \<Rightarrow> bytes \<Rightarrow> 'w \<Rightarrow>
    (goerror + AuthRes) \<times> 'w" where
  "send_signature cb ce t k conn cc challenge w =
     (case sg_Sign k challenge of
        Inl err \<Rightarrow> (Inl (Errorf (''auth sign challenge: '' @ err_text err)), w)
      | Inr sig \<Rightarrow>
          (case WriteMessage cb (t_Write t conn) w
                  (MAuthReq (signature_req cc (MarshalKey (ce_ssh ce) (sg_PublicKey k)) (ce_MarshalSig ce sig))) [] of
             (Some err, w1) \<Rightarrow> (Inl (Errorf (''auth send signature: '' @ err_text err)), w1)
           | (None, w1) \<Rightarrow>
               (case conn_readResp cb t conn w1 of
                  (Inl err, w2) \<Rightarrow> (Inl (Errorf (''auth recv result: '' @ err_text err)), w2)
                | (Inr (MAuthRes res), w2) \<Rightarrow>
                    if \<not> ares_Success res
                    then (Inl (Errorf (''auth: '' @ (if ares_Error res \<noteq> [] then ares_Error res else ''auth denied''))), w2)
                    else (Inr res, w2)
                | (Inr _, w2) \<Rightarrow> (Inl (Errorf ''auth: auth denied''), w2))))"

definition challenge_response ::
  "cbor_lib \<Rightarrow> ('pk, 'sig) client_env \<Rightarrow> 'w transport \<Rightarrow> ('pk, 'sig) signer \<Rightarrow> connid \<Rightarrow> copierClient \<Rightarrow> 'w \<Rightarrow>
    (goerror + AuthRes) \<times> 'w" where
  "challenge_response cb ce t k conn cc w =
     (case WriteMessage cb (t_Write t conn) w (MAuthReq (pubkey_req cc (MarshalKey (ce_ssh ce) (sg_PublicKey k)))) [] of
        (Some err, w1) \<Rightarrow> (Inl (Errorf (''auth send pubkey: '' @ err_text err)), w1)
      | (None, w1) \<Rightarrow>
          (case conn_readResp cb t conn w1 of
             (Inl err, w2) \<Rightarrow> (Inl (Errorf (''auth recv challenge: '' @ err_text err)), w2)
           | (Inr (MAuthRes res), w2) \<Rightarrow>
               if ares_Success res then (Inl (Errorf ''unexpected auth response''), w2)
               else send_signature cb ce t k conn cc (ares_Challenge res) w2
           | (Inr _, w2) \<Rightarrow> (Inl (Errorf ''unexpected auth response''), w2)))"

text \<open>\<open>dialAndAuth\<close>: the result is an error or the number of goroutines started for the pool.\<close>

definition dialAndAuth ::
  "cbor_lib \<Rightarrow> ('pk, 'sig) client_env \<Rightarrow> 'w transport \<Rightarrow> copierClient \<Rightarrow> os_state \<times> 'w \<Rightarrow>
    (goerror + nat) \<times> copierClient \<times> os_state \<times> 'w" where
  "dialAndAuth cb ce t cc = (\<lambda>(s, w).
     case clientSigner ce (cc_identityFile cc) s of
       (Inl err, s1) \<Rightarrow> (Inl (Errorf (''auth: '' @ err_text err)), cc, s1, w)
     | (Inr k, s1) \<Rightarrow>
         (case t_Dial t (cc_target cc) w of
            (Inl err, w1) \<Rightarrow> (Inl (Errorf (''dial '' @ cc_target cc @ '': '' @ err_text err)), cc, s1, w1)
          | (Inr conn, w1) \<Rightarrow>
              (case challenge_response cb ce t k conn cc w1 of
                 (Inl err, w2) \<Rightarrow> (Inl err, cc, s1, t_Close t conn w2)
               | (Inr res, w2) \<Rightarrow>
                   (Inr (nat (cc_batch cc)),
                    cc\<lparr>cc_authToken := ares_Token res, cc_authUser := ares_User res,
                       cc_encryptionKey := Some (deriveEncryptionKey (ce_ssh ce) (sg_PublicKey k))\<rparr>,
                    s1, t_Close t conn w2))))"

definition fresh_client :: "string \<Rightarrow> string \<Rightarrow> string \<Rightarrow> int64 \<Rightarrow> int64 \<Rightarrow> bool \<Rightarrow> bool \<Rightarrow> copierClient" where
  "fresh_client target user identityFile batch timeout useChecksum useEncryption =
     \<lparr>cc_target = target, cc_id = 0, cc_batch = batch, cc_timeout = timeout, cc_useChecksum = useChecksum,
      cc_useEncryption = useEncryption, cc_authToken = [], cc_authUser = user, cc_identityFile = identityFile,
      cc_encryptionKey = None\<rparr>"

definition newClient ::
  "cbor_lib \<Rightarrow> ('pk, 'sig) client_env \<Rightarrow> 'w transport \<Rightarrow> string \<Rightarrow> string \<Rightarrow> string \<Rightarrow> int64 \<Rightarrow> int64 \<Rightarrow> bool \<Rightarrow> bool \<Rightarrow>
    os_state \<times> 'w \<Rightarrow> (goerror + (copierClient \<times> nat)) \<times> os_state \<times> 'w" where
  "newClient cb ce t target user identityFile batch timeout useChecksum useEncryption x =
     (case dialAndAuth cb ce t (fresh_client target user identityFile batch timeout useChecksum useEncryption) x of
        (Inl err, _, x') \<Rightarrow> (Inl err, x')
      | (Inr n, cc, x') \<Rightarrow> (Inr (cc, n), x'))"

definition token_req :: "copierClient \<Rightarrow> AuthReq" where
  "token_req cc = zeroAuthReq\<lparr>areq_ID := 0, areq_Token := cc_authToken cc\<rparr>"

definition tokenAuth :: "cbor_lib \<Rightarrow> 'w transport \<Rightarrow> copierClient \<Rightarrow> connid \<Rightarrow> 'w \<Rightarrow> goerror option \<times> 'w" where
  "tokenAuth cb t cc conn w =
     (case WriteMessage cb (t_Write t conn) w (MAuthReq (token_req cc)) [] of
        (Some err, w1) \<Rightarrow> (Some err, w1)
      | (None, w1) \<Rightarrow>
          (case conn_readResp cb t conn w1 of
             (Inl err, w2) \<Rightarrow> (Some err, w2)
           | (Inr (MAuthRes res), w2) \<Rightarrow>
               if \<not> ares_Success res then (Some (Errorf ''token auth rejected''), w2) else (None, w2)
           | (Inr _, w2) \<Rightarrow> (Some (Errorf ''token auth rejected''), w2)))"

text \<open>One turn of the loop of \<open>runConn\<close>: it waits before the next turn, was rejected, or the connection
  serves requests until it ends.\<close>

datatype conn_turn = TurnWait int64 | TurnRejected goerror | TurnServe connid

definition firstBackoff :: int64 where "firstBackoff = 100 * 1000000"
definition maxBackoff :: int64 where "maxBackoff = 5 * 1000000000"

definition runConn_turn :: "cbor_lib \<Rightarrow> 'w transport \<Rightarrow> copierClient \<Rightarrow> int64 \<Rightarrow> 'w \<Rightarrow> conn_turn \<times> int64 \<times> 'w" where
  "runConn_turn cb t cc backoff w =
     (case t_Dial t (cc_target cc) w of
        (Inl err, w1) \<Rightarrow> (TurnWait backoff, if backoff < maxBackoff then wrap64 (backoff * 2) else backoff, w1)
      | (Inr conn, w1) \<Rightarrow>
          (case tokenAuth cb t cc conn w1 of
             (Some err, w2) \<Rightarrow> (TurnRejected err, firstBackoff, t_Close t conn w2)
           | (None, w2) \<Rightarrow> (TurnServe conn, firstBackoff, w2)))"

text \<open>The turns of \<open>runConn\<close>, at most the given number of them. \<open>serve\<close> is what happens while a connection is in
  use, and \<open>cancelled k\<close> whether the client's context has ended by turn \<open>k\<close>: it is asked while waiting
  and after a connection has ended, not after a rejection.\<close>

fun runConn ::
  "cbor_lib \<Rightarrow> 'w transport \<Rightarrow> copierClient \<Rightarrow> (connid \<Rightarrow> 'w \<Rightarrow> 'w) \<Rightarrow> (nat \<Rightarrow> bool) \<Rightarrow> nat \<Rightarrow> nat \<Rightarrow> int64 \<Rightarrow> 'w \<Rightarrow> conn_turn list" where
  "runConn cb t cc serve cancelled 0 k backoff w = []"
| "runConn cb t cc serve cancelled (Suc n) k backoff w =
     (case runConn_turn cb t cc backoff w of
        (TurnWait d, backoff', w1) \<Rightarrow>
          TurnWait d # (if cancelled k then [] else runConn cb t cc serve cancelled n (Suc k) backoff' w1)
      | (TurnRejected err, backoff', w1) \<Rightarrow>
          TurnRejected err # runConn cb t cc serve cancelled n (Suc k) backoff' w1
      | (TurnServe conn, backoff', w1) \<Rightarrow>
          TurnServe conn # (if cancelled k then [] else runConn cb t cc serve cancelled n (Suc k) backoff' (serve conn w1)))"

section \<open>Delays\<close>

definition backoff_ok :: "int64 \<Rightarrow> bool" where
  "backoff_ok d \<longleftrightarrow> (\<exists>j \<le> 6. d = firstBackoff * 2 ^ j)"

lemma backoff_first: "backoff_ok firstBackoff"
  unfolding backoff_ok_def by (intro exI [of _ 0]) simp

lemma backoff_next:
  assumes "backoff_ok d" and "d < maxBackoff"
  shows "backoff_ok (wrap64 (d * 2))"
proof -
  obtain j where j: "j \<le> 6" "d = firstBackoff * 2 ^ j" using assms(1) by (auto simp: backoff_ok_def)
  have "j \<noteq> 6" using assms(2) j by (auto simp: firstBackoff_def maxBackoff_def)
  then have "j < 6" using j by simp
  have "d \<le> 100000000 * 2 ^ 6" unfolding j firstBackoff_def
    using power_increasing [of j 6 "2::int"] j by simp
  moreover have "0 \<le> d" unfolding j firstBackoff_def by simp
  ultimately have "wrap64 (d * 2) = d * 2" by (intro wrap64_id) simp_all
  then show ?thesis using j \<open>j < 6\<close> unfolding backoff_ok_def by (intro exI [of _ "Suc j"]) simp
qed

lemma runConn_turn_backoff:
  assumes "backoff_ok backoff" and "runConn_turn cb t cc backoff w = (turn, backoff', w')"
  shows "backoff_ok backoff'" and "turn = TurnWait d \<Longrightarrow> d = backoff"
  using assms backoff_next backoff_first
  by (auto simp: runConn_turn_def split: prod.splits sum.splits option.splits if_splits)

lemma runConn_waits:
  "backoff_ok backoff \<Longrightarrow> TurnWait d \<in> set (runConn cb t cc serve cancelled n k backoff w) \<Longrightarrow> backoff_ok d"
proof (induction cb t cc serve cancelled n k backoff w rule: runConn.induct)
  case (2 cb t cc serve cancelled n k backoff w)
  obtain turn b' w1 where turn: "runConn_turn cb t cc backoff w = (turn, b', w1)" by (cases "runConn_turn cb t cc backoff w")
  note r = runConn_turn_backoff [OF 2(4) turn]
  show ?case
    using 2(1-3) [OF turn [symmetric] _ refl] 2(4,5) r turn by (cases turn) (auto split: if_splits)
qed simp

section \<open>The server behind the connections\<close>

text \<open>\<open>lk_up\<close> holds the bytes of a connection that the server has not read, \<open>lk_down\<close> those the client has not
  read; the random bytes of the server are those of the turn, the number of messages handled.\<close>

record link =
  lk_srv :: copierServer
  lk_up :: "connid \<Rightarrow> bytes"
  lk_down :: "connid \<Rightarrow> bytes"
  lk_next :: connid
  lk_turn :: nat

definition lk_handle ::
  "cbor_lib \<Rightarrow> ('pk, 'sig) server_env \<Rightarrow> (nat \<Rightarrow> nat \<Rightarrow> goerror + bytes) \<Rightarrow> connid \<Rightarrow> MSG \<times> bytes \<Rightarrow> link \<Rightarrow> link" where
  "lk_handle cb env rnds conn mp lk =
     (let srv' = handle_msg env (rnds (lk_turn lk)) \<lparr>wm_msg = fst mp, wm_payload = snd mp, wm_conn = conn\<rparr> (lk_srv lk);
          back = concat (map (\<lambda>(c, m, p). if c = conn then frame cb m p else [])
                   (drop (length (srv_out (lk_srv lk))) (srv_out srv')))
      in lk\<lparr>lk_srv := srv', lk_down := (lk_down lk)(conn := lk_down lk conn @ back), lk_turn := Suc (lk_turn lk)\<rparr>)"

text \<open>A closed connection is not read any more.\<close>

definition lk_deliver ::
  "cbor_lib \<Rightarrow> ('pk, 'sig) server_env \<Rightarrow> (nat \<Rightarrow> nat \<Rightarrow> goerror + bytes) \<Rightarrow> connid \<Rightarrow> link \<Rightarrow> link" where
  "lk_deliver cb env rnds conn lk =
     (if srv_closed (lk_srv lk) conn then lk
      else (case traffic cb [] [lk_up lk conn] of
              None \<Rightarrow> lk
            | Some (ms, _, rest) \<Rightarrow> (fold (lk_handle cb env rnds conn) ms lk)\<lparr>lk_up := (lk_up lk)(conn := rest)\<rparr>))"

definition link_transport ::
  "cbor_lib \<Rightarrow> ('pk, 'sig) server_env \<Rightarrow> (nat \<Rightarrow> nat \<Rightarrow> goerror + bytes) \<Rightarrow> link transport" where
  "link_transport cb env rnds = \<lparr>
     t_Dial = (\<lambda>target lk. (Inr (lk_next lk), lk\<lparr>lk_next := Suc (lk_next lk)\<rparr>)),
     t_Write = (\<lambda>conn lk b. (None, lk\<lparr>lk_up := (lk_up lk)(conn := lk_up lk conn @ b)\<rparr>)),
     t_Arrived = (\<lambda>conn lk. let lk' = lk_deliver cb env rnds conn lk in (lk_down lk' conn, lk')),
     t_Rest = (\<lambda>conn rest lk. lk\<lparr>lk_down := (lk_down lk)(conn := rest)\<rparr>),
     t_Close = (\<lambda>conn lk. lk)\<rparr>"

definition idle :: "connid \<Rightarrow> link \<Rightarrow> bool" where
  "idle conn lk \<longleftrightarrow> lk_up lk conn = [] \<and> lk_down lk conn = []"

definition wire_ok :: "cbor_lib \<Rightarrow> MSG \<Rightarrow> bool" where
  "wire_ok cb m \<longleftrightarrow> fits cb m [] \<and> cbor_roundtrip cb m"

text \<open>The answer to an \<open>AuthReq\<close>.\<close>

definition auth_answer :: "('pk, 'sig) server_env \<Rightarrow> (nat \<Rightarrow> goerror + bytes) \<Rightarrow> connid \<Rightarrow> AuthReq \<Rightarrow> copierServer \<Rightarrow> MSG" where
  "auth_answer env rnd conn req srv = fst (snd (last (srv_out (handleAuth env rnd conn req srv))))"

lemma handleAuth_answer:
  "\<exists>res. auth_answer env rnd conn req srv = MAuthRes res
     \<and> srv_out (handleAuth env rnd conn req srv) = srv_out srv @ [(conn, MAuthRes res, [])]"
  by (rule handleAuth_cases [of env rnd conn req srv]) (auto simp: auth_answer_def authRes_def)

lemma link_write:
  "WriteMessage cb (t_Write (link_transport cb env rnds) conn) lk m p
     = (None, lk\<lparr>lk_up := (lk_up lk)(conn := lk_up lk conn @ frame cb m p)\<rparr>)"
  by (simp add: WriteMessage_def frame_def EncodeMsg_def Let_def link_transport_def)

text \<open>A request and its answer over the link.\<close>

lemma link_exchange:
  assumes "idle conn lk" and "\<not> srv_closed (lk_srv lk) conn" and "wire_ok cb (MAuthReq req)"
    and "wire_ok cb (auth_answer env (rnds (lk_turn lk)) conn req (lk_srv lk))"
    and "WriteMessage cb (t_Write (link_transport cb env rnds) conn) lk (MAuthReq req) [] = (e, lk1)"
  shows "e = None \<and> conn_readResp cb (link_transport cb env rnds) conn lk1
    = (Inr (auth_answer env (rnds (lk_turn lk)) conn req (lk_srv lk)),
       lk\<lparr>lk_srv := handleAuth env (rnds (lk_turn lk)) conn req (lk_srv lk), lk_turn := Suc (lk_turn lk)\<rparr>)"
proof -
  let ?srv = "handleAuth env (rnds (lk_turn lk)) conn req (lk_srv lk)"
  obtain res where res: "auth_answer env (rnds (lk_turn lk)) conn req (lk_srv lk) = MAuthRes res"
    "srv_out ?srv = srv_out (lk_srv lk) @ [(conn, MAuthRes res, [])]"
    using handleAuth_answer by blast
  have lk1: "e = None" "lk1 = lk\<lparr>lk_up := (lk_up lk)(conn := frame cb (MAuthReq req) [])\<rparr>"
    using assms(1,5) unfolding link_write by (auto simp: idle_def)
  have tr: "traffic cb [] [frame cb (MAuthReq req) []] = Some ([(MAuthReq req, [])], ActionNone, [])"
    using assms(3) by (intro traffic_frames) (simp_all add: parse_frame_def wire_ok_def)
  have h: "handle_msg env rnd \<lparr>wm_msg = MAuthReq req, wm_payload = [], wm_conn = conn\<rparr> srv = handleAuth env rnd conn req srv" for rnd srv
    by (simp add: handle_msg_auth)
  have up: "(lk_up lk)(conn := []) = lk_up lk" "(lk_down lk)(conn := []) = lk_down lk" using assms(1) by (auto simp: idle_def)
  have d: "lk_deliver cb env rnds conn lk1 = lk\<lparr>lk_srv := ?srv, lk_down := (lk_down lk)(conn := frame cb (MAuthRes res) []),
      lk_turn := Suc (lk_turn lk)\<rparr>"
    using assms(1,2) res(2) up by (cases lk) (simp add: lk_deliver_def lk1 tr lk_handle_def h idle_def Let_def del: traffic.simps)
  have "readResp cb (frame cb (MAuthRes res) []) = (Inr (MAuthRes res), [])"
    using readResp_frame [of cb "MAuthRes res" "[]" "[]"] assms(4) res(1) by (simp add: wire_ok_def)
  then show ?thesis
    using lk1(1) res(1) by (simp add: conn_readResp_def link_transport_def d up)
qed

lemma closed_no_answer:
  assumes "idle conn lk" and "srv_closed (lk_srv lk) conn"
    and "WriteMessage cb (t_Write (link_transport cb env rnds) conn) lk m [] = (e, lk1)"
  shows "\<exists>err lk2. conn_readResp cb (link_transport cb env rnds) conn lk1 = (Inl err, lk2)"
proof -
  have lk1: "lk1 = lk\<lparr>lk_up := (lk_up lk)(conn := lk_up lk conn @ frame cb m [])\<rparr>" using assms(3) unfolding link_write by simp
  show ?thesis
    using assms(1,2) by (simp add: conn_readResp_def link_transport_def lk_deliver_def lk1 idle_def readResp_def ReadFull_def HeadSize_def MessageSize_def PayloadSize_def)
qed

section \<open>Login\<close>

text \<open>The messages of a login that goes through, for stating that they can be coded.\<close>

definition login_messages ::
  "('pk, 'sig) server_env \<Rightarrow> (nat \<Rightarrow> nat \<Rightarrow> goerror + bytes) \<Rightarrow> ('pk, 'sig) client_env \<Rightarrow> ('pk, 'sig) signer \<Rightarrow> connid \<Rightarrow>
    copierClient \<Rightarrow> link \<Rightarrow> MSG list" where
  "login_messages env rnds ce k conn cc lk =
     (let pub = MarshalKey (ce_ssh ce) (sg_PublicKey k);
          q1 = pubkey_req cc pub;
          a1 = auth_answer env (rnds (lk_turn lk)) conn q1 (lk_srv lk);
          srv1 = handleAuth env (rnds (lk_turn lk)) conn q1 (lk_srv lk)
      in MAuthReq q1 # a1 #
         (case a1 of
            MAuthRes r \<Rightarrow>
              (case sg_Sign k (ares_Challenge r) of
                 Inl _ \<Rightarrow> []
               | Inr sig \<Rightarrow>
                   (let q2 = signature_req cc pub (ce_MarshalSig ce sig)
                    in [MAuthReq q2, auth_answer env (rnds (Suc (lk_turn lk))) conn q2 srv1]))
          | _ \<Rightarrow> []))"

text \<open>The server's view of the first message: a challenge, or a denial that closes the connection.\<close>

lemma pubkey_answer:
  "(\<exists>err. handleAuth env rnd conn (pubkey_req cc pub) srv = authDenied conn 1 err srv)
   \<or> (\<exists>challenge. pub \<noteq> [] \<and> rnd challengeLen = Inr challenge \<and> handleAuth env rnd conn (pubkey_req cc pub) srv
        = reply conn (authRes 1 False challenge [] [] []) []
            (setConnAuth conn \<lparr>ca_state = authPending, ca_challenge = Some challenge, ca_pubKey = pub,
               ca_user = [], ca_home = [], ca_encryptionKey = None\<rparr> srv))"
  by (auto simp: handleAuth_def pubkey_req_def zeroAuthReq_def generateChallenge_def split: sum.splits)

lemma challenge_response_link:
  assumes idle: "idle conn lk" "\<not> srv_closed (lk_srv lk) conn"
    and wire: "list_all (wire_ok cb) (login_messages env rnds ce k conn cc lk)"
    and run: "challenge_response cb ce (link_transport cb env rnds) k conn cc lk = (Inr res, lk')"
  obtains challenge sig srv1 q where "rnds (lk_turn lk) challengeLen = Inr challenge" "sg_Sign k challenge = Inr sig"
    "q = signature_req cc (MarshalKey (ce_ssh ce) (sg_PublicKey k)) (ce_MarshalSig ce sig)"
    "srv1 = handleAuth env (rnds (lk_turn lk)) conn (pubkey_req cc (MarshalKey (ce_ssh ce) (sg_PublicKey k))) (lk_srv lk)"
    "srv_os srv1 = srv_os (lk_srv lk)" "srv_sessions srv1 = srv_sessions (lk_srv lk)"
    "auth_answer env (rnds (Suc (lk_turn lk))) conn q srv1 = MAuthRes res" "ares_Success res"
    "lk' = lk\<lparr>lk_srv := handleAuth env (rnds (Suc (lk_turn lk))) conn q srv1, lk_turn := Suc (Suc (lk_turn lk))\<rparr>"
proof -
  let ?t = "link_transport cb env rnds" and ?pub = "MarshalKey (ce_ssh ce) (sg_PublicKey k)"
  let ?q1 = "pubkey_req cc ?pub" and ?srv1 = "handleAuth env (rnds (lk_turn lk)) conn (pubkey_req cc ?pub) (lk_srv lk)"
  let ?a1 = "auth_answer env (rnds (lk_turn lk)) conn ?q1 (lk_srv lk)"
  let ?lk2 = "lk\<lparr>lk_srv := ?srv1, lk_turn := Suc (lk_turn lk)\<rparr>"
  obtain e1 lk1 where w1: "WriteMessage cb (t_Write ?t conn) lk (MAuthReq ?q1) [] = (e1, lk1)"
    by (cases "WriteMessage cb (t_Write ?t conn) lk (MAuthReq ?q1) []")
  have x1: "e1 = None" "conn_readResp cb ?t conn lk1 = (Inr ?a1, ?lk2)"
    using link_exchange [OF idle _ _ w1] wire by (simp_all add: login_messages_def Let_def)
  obtain r1 where r1: "?a1 = MAuthRes r1" "srv_out ?srv1 = srv_out (lk_srv lk) @ [(conn, MAuthRes r1, [])]"
    using handleAuth_answer by blast
  have step: "send_signature cb ce ?t k conn cc (ares_Challenge r1) ?lk2 = (Inr res, lk')"
    using run w1 x1 r1(1) by (simp add: challenge_response_def split: if_splits)
  obtain sig where sig: "sg_Sign k (ares_Challenge r1) = Inr sig"
    using step by (auto simp: send_signature_def split: sum.splits)
  let ?q2 = "signature_req cc ?pub (ce_MarshalSig ce sig)"
  let ?a2 = "auth_answer env (rnds (Suc (lk_turn lk))) conn ?q2 ?srv1"
  obtain e2 lk3 where w2: "WriteMessage cb (t_Write ?t conn) ?lk2 (MAuthReq ?q2) [] = (e2, lk3)"
    by (cases "WriteMessage cb (t_Write ?t conn) ?lk2 (MAuthReq ?q2) []")
  have idle2: "idle conn ?lk2" using idle(1) by (simp add: idle_def)
  have open2: "\<not> srv_closed ?srv1 conn"
  proof
    assume "srv_closed ?srv1 conn"
    then have "\<exists>err lk4. conn_readResp cb ?t conn lk3 = (Inl err, lk4)"
      using closed_no_answer [OF idle2 _ w2] by simp
    then show False using step sig w2 by (auto simp: send_signature_def split: option.splits)
  qed
  then obtain challenge where ch: "rnds (lk_turn lk) challengeLen = Inr challenge" and srv1: "?srv1
        = reply conn (authRes 1 False challenge [] [] []) []
            (setConnAuth conn \<lparr>ca_state = authPending, ca_challenge = Some challenge, ca_pubKey = ?pub,
               ca_user = [], ca_home = [], ca_encryptionKey = None\<rparr> (lk_srv lk))"
    using pubkey_answer [of env "rnds (lk_turn lk)" conn cc ?pub "lk_srv lk"] idle(2) by auto
  have c: "ares_Challenge r1 = challenge" using r1(2) unfolding srv1 by (auto simp: authRes_def)
  have x2: "e2 = None" "conn_readResp cb ?t conn lk3
      = (Inr ?a2, ?lk2\<lparr>lk_srv := handleAuth env (rnds (Suc (lk_turn lk))) conn ?q2 ?srv1, lk_turn := Suc (Suc (lk_turn lk))\<rparr>)"
    using link_exchange [OF idle2 _ _ _ w2] open2 wire r1(1) sig by (simp_all add: login_messages_def Let_def)
  have "?a2 = MAuthRes res" "ares_Success res"
    "lk' = lk\<lparr>lk_srv := handleAuth env (rnds (Suc (lk_turn lk))) conn ?q2 ?srv1, lk_turn := Suc (Suc (lk_turn lk))\<rparr>"
    using step sig w2 x2 handleAuth_answer [of env "rnds (Suc (lk_turn lk))" conn ?q2 ?srv1]
    by (auto simp: send_signature_def split: if_splits)
  moreover have "srv_os ?srv1 = srv_os (lk_srv lk)" "srv_sessions ?srv1 = srv_sessions (lk_srv lk)" unfolding srv1 by simp_all
  ultimately show thesis using that [OF ch _ refl refl] sig c by blast
qed

text \<open>Dialling changes nothing the messages depend on.\<close>

lemma login_messages_dial [simp]:
  "login_messages env rnds ce k conn cc (lk\<lparr>lk_next := c\<rparr>) = login_messages env rnds ce k conn cc lk"
  by (simp add: login_messages_def Let_def split: MSG.split sum.split)

lemma idle_dial [simp]: "idle conn (lk\<lparr>lk_next := c\<rparr>) = idle conn lk"
  by (simp add: idle_def)

lemma fresh_client_simps [simp]:
  "cc_target (fresh_client a b c d e f g) = a" "cc_authUser (fresh_client a b c d e f g) = b"
  "cc_identityFile (fresh_client a b c d e f g) = c" "cc_batch (fresh_client a b c d e f g) = d"
  by (simp_all add: fresh_client_def)

lemma newClient_link:
  assumes "clientSigner ce identityFile s = (Inr k, s1)"
    and "newClient cb ce (link_transport cb env rnds) target user identityFile batch timeout useChecksum useEncryption (s, lk) = (r, s', lk')"
  obtains (denied) err where "challenge_response cb ce (link_transport cb env rnds) k (lk_next lk)
        (fresh_client target user identityFile batch timeout useChecksum useEncryption) (lk\<lparr>lk_next := Suc (lk_next lk)\<rparr>) = (Inl err, lk')"
      "r = Inl err"
  | (accepted) res where "challenge_response cb ce (link_transport cb env rnds) k (lk_next lk)
        (fresh_client target user identityFile batch timeout useChecksum useEncryption) (lk\<lparr>lk_next := Suc (lk_next lk)\<rparr>) = (Inr res, lk')"
      "r = Inr ((fresh_client target user identityFile batch timeout useChecksum useEncryption)\<lparr>cc_authToken := ares_Token res,
         cc_authUser := ares_User res, cc_encryptionKey := Some (deriveEncryptionKey (ce_ssh ce) (sg_PublicKey k))\<rparr>, nat batch)"
proof -
  let ?c = "challenge_response cb ce (link_transport cb env rnds) k (lk_next lk)
        (fresh_client target user identityFile batch timeout useChecksum useEncryption) (lk\<lparr>lk_next := Suc (lk_next lk)\<rparr>)"
  have d: "t_Dial (link_transport cb env rnds) target lk = (Inr (lk_next lk), lk\<lparr>lk_next := Suc (lk_next lk)\<rparr>)"
    "t_Close (link_transport cb env rnds) conn l = l" for conn l by (simp_all add: link_transport_def)
  obtain q lk2 where c: "?c = (q, lk2)" by (cases ?c)
  show thesis
    using assms c d denied accepted by (cases q) (auto simp: newClient_def dialAndAuth_def)
qed

text \<open>A signature the server accepts: the state it leaves.\<close>

lemma signature_accepted:
  assumes ssh: "env_ssh env = ssh" "ParsePublicKey ssh (MarshalKey ssh pk) = Inr pk"
    and a: "auth_answer env rnd conn (signature_req cc (MarshalKey ssh pk) sb) srv = MAuthRes res" "ares_Success res"
  shows "\<exists>home s2. findUserByPubKey ssh (env_nss env) pk (cc_authUser cc) (srv_os srv) = (Inr (ares_User res, home), s2)
    \<and> ares_Token res = sessionTokenHex rnd
    \<and> srv_sessions (handleAuth env rnd conn (signature_req cc (MarshalKey ssh pk) sb) srv) (ares_Token res)
        = Some \<lparr>si_User = ares_User res, si_Home = home, si_EncryptionKey = Some (deriveEncryptionKey ssh pk)\<rparr>"
  using handleAuth_answer [of env rnd conn "signature_req cc (MarshalKey ssh pk) sb" srv]
proof (cases rule: handleAuth_cases [of env rnd conn "signature_req cc (MarshalKey ssh pk) sb" srv])
  case (login challenge user home key tok s')
  have res: "res = \<lparr>ares_ID = 2, ares_Success = True, ares_Challenge = [], ares_Token = tok, ares_User = user, ares_Error = []\<rparr>"
    using a(1) login(5) by (simp add: auth_answer_def authRes_def signature_req_def)
  obtain s2 where "findUserByPubKey ssh (env_nss env) pk (cc_authUser cc) (srv_os srv) = (Inr (user, home), s2)"
    "key = Some (deriveEncryptionKey ssh pk)"
    using login(1) ssh by (auto simp: proves_def verifySSHSignature_def signature_req_def split: sum.splits option.splits)
  then show ?thesis using res login(2,5) by auto
qed (use a in \<open>auto simp: auth_answer_def authRes_def signature_req_def zeroAuthReq_def\<close>)

text \<open>C8: a login leaves the two sides in agreement: when \<open>newClient\<close> returns a client, then the server, for the
  public key the client signed with and the user name it asked for, found the user the client now
  stands for; the session token the client holds opens a session of that user, and the encryption
  key of the session is the one the client derived on its own. One goroutine per connection of the
  pool was started.\<close>

theorem newClient_session:
  assumes "env_ssh env = ce_ssh ce" and "\<And>pk. ParsePublicKey (ce_ssh ce) (MarshalKey (ce_ssh ce) pk) = Inr pk"
    and "idle (lk_next lk) lk" and "\<not> srv_closed (lk_srv lk) (lk_next lk)"
    and "clientSigner ce identityFile s = (Inr k, s1)"
    and "list_all (wire_ok cb) (login_messages env rnds ce k (lk_next lk)
           (fresh_client target user identityFile batch timeout useChecksum useEncryption) lk)"
    and "newClient cb ce (link_transport cb env rnds) target user identityFile batch timeout useChecksum useEncryption (s, lk)
           = (Inr (cc, n), s', lk')"
  shows "n = nat batch \<and> cc_encryptionKey cc = Some (deriveEncryptionKey (ce_ssh ce) (sg_PublicKey k))
    \<and> (\<exists>home s2. findUserByPubKey (ce_ssh ce) (env_nss env) (sg_PublicKey k) user (srv_os (lk_srv lk)) = (Inr (cc_authUser cc, home), s2)
         \<and> srv_sessions (lk_srv lk') (cc_authToken cc)
             = Some \<lparr>si_User = cc_authUser cc, si_Home = home, si_EncryptionKey = cc_encryptionKey cc\<rparr>)"
  using assms(5,7)
proof (cases rule: newClient_link)
  case (accepted res)
  let ?cc = "fresh_client target user identityFile batch timeout useChecksum useEncryption"
  have i: "idle (lk_next lk) (lk\<lparr>lk_next := Suc (lk_next lk)\<rparr>)" "\<not> srv_closed (lk_srv (lk\<lparr>lk_next := Suc (lk_next lk)\<rparr>)) (lk_next lk)"
    "list_all (wire_ok cb) (login_messages env rnds ce k (lk_next lk) ?cc (lk\<lparr>lk_next := Suc (lk_next lk)\<rparr>))"
    using assms(3,4,6) by simp_all
  obtain sb rnd srv1 where q: "srv_os srv1 = srv_os (lk_srv lk)"
    "auth_answer env rnd (lk_next lk) (signature_req ?cc (MarshalKey (ce_ssh ce) (sg_PublicKey k)) sb) srv1 = MAuthRes res" "ares_Success res"
    "lk_srv lk' = handleAuth env rnd (lk_next lk) (signature_req ?cc (MarshalKey (ce_ssh ce) (sg_PublicKey k)) sb) srv1"
    by (rule challenge_response_link [OF i accepted(1)]) auto
  show ?thesis using signature_accepted [OF assms(1,2) q(2,3)] q(1,4) accepted(2) by auto
qed auto

text \<open>What both sides say when the key is authorized.\<close>

lemma login_messages_accepted:
  fixes env :: "('pk, 'sig) server_env" and ce :: "('pk, 'sig) client_env"
  defines "pub k \<equiv> MarshalKey (ce_ssh ce) (sg_PublicKey k)"
  assumes "pub k \<noteq> []" and "rnds (lk_turn lk) challengeLen = Inr challenge"
    and "sg_Sign k challenge = Inr sig" and "ce_MarshalSig ce sig \<noteq> []"
    and "verifySSHSignature (env_ssh env) (pub k) challenge (ce_MarshalSig ce sig) = Inr pk"
    and "findUserByPubKey (env_ssh env) (env_nss env) pk (cc_authUser cc) (srv_os (lk_srv lk)) = (Inr (name, home), sx)"
  shows "login_messages env rnds ce k conn cc lk =
    [MAuthReq (pubkey_req cc (pub k)), authRes 1 False challenge [] [] [],
     MAuthReq (signature_req cc (pub k) (ce_MarshalSig ce sig)),
     authRes 2 True [] (sessionTokenHex (rnds (Suc (lk_turn lk)))) name []]" (is "?messages")
    and "auth_answer env (rnds (Suc (lk_turn lk))) conn (signature_req cc (pub k) (ce_MarshalSig ce sig))
        (handleAuth env (rnds (lk_turn lk)) conn (pubkey_req cc (pub k)) (lk_srv lk))
      = authRes 2 True [] (sessionTokenHex (rnds (Suc (lk_turn lk)))) name []" (is ?last)
    and "srv_closed (handleAuth env (rnds (lk_turn lk)) conn (pubkey_req cc (pub k)) (lk_srv lk)) = srv_closed (lk_srv lk)" (is ?open)
proof -
  have srv1: "handleAuth env (rnds (lk_turn lk)) conn (pubkey_req cc (pub k)) (lk_srv lk)
    = reply conn (authRes 1 False challenge [] [] []) []
      (setConnAuth conn \<lparr>ca_state = authPending, ca_challenge = Some challenge, ca_pubKey = pub k,
         ca_user = [], ca_home = [], ca_encryptionKey = None\<rparr> (lk_srv lk))"
    using assms(2,3) by (simp add: handleAuth_def pubkey_req_def zeroAuthReq_def generateChallenge_def)
  then have a1: "auth_answer env (rnds (lk_turn lk)) conn (pubkey_req cc (pub k)) (lk_srv lk) = authRes 1 False challenge [] [] []"
    unfolding auth_answer_def by simp
  show ?open unfolding srv1 by simp
  show a2: ?last
    using assms(5-7) unfolding auth_answer_def srv1
    by (simp add: handleAuth_def signature_req_def zeroAuthReq_def getConnAuth_def ss_Put_def Let_def)
  show ?messages using a1 a2 assms(4) by (simp add: login_messages_def Let_def pub_def [symmetric] authRes_def)
qed

lemma newClient_accepted:
  fixes cb :: cbor_lib and env :: "('pk, 'sig) server_env" and ce :: "('pk, 'sig) client_env"
  defines "pub k \<equiv> MarshalKey (ce_ssh ce) (sg_PublicKey k)"
  assumes "idle (lk_next lk) lk" and "\<not> srv_closed (lk_srv lk) (lk_next lk)"
    and "clientSigner ce identityFile s = (Inr k, s1)"
    and "list_all (wire_ok cb) (login_messages env rnds ce k (lk_next lk)
           (fresh_client target user identityFile batch timeout useChecksum useEncryption) lk)"
    and "pub k \<noteq> []" and "rnds (lk_turn lk) challengeLen = Inr challenge"
    and "sg_Sign k challenge = Inr sig" and "ce_MarshalSig ce sig \<noteq> []"
    and "verifySSHSignature (env_ssh env) (pub k) challenge (ce_MarshalSig ce sig) = Inr pk"
    and "findUserByPubKey (env_ssh env) (env_nss env) pk user (srv_os (lk_srv lk)) = (Inr (name, home), s2)"
  shows "\<exists>cc lk'. newClient cb ce (link_transport cb env rnds) target user identityFile batch timeout useChecksum useEncryption (s, lk)
           = (Inr (cc, nat batch), s1, lk')
    \<and> cc_authUser cc = name \<and> cc_authToken cc = sessionTokenHex (rnds (Suc (lk_turn lk)))"
proof -
  let ?cc = "fresh_client target user identityFile batch timeout useChecksum useEncryption" and ?c = "lk_next lk"
  let ?t = "link_transport cb env rnds" and ?lk0 = "lk\<lparr>lk_next := Suc (lk_next lk)\<rparr>"
  let ?q1 = "pubkey_req ?cc (pub k)" and ?q2 = "signature_req ?cc (pub k) (ce_MarshalSig ce sig)"
  let ?srv1 = "handleAuth env (rnds (lk_turn lk)) ?c ?q1 (lk_srv lk)"
  let ?lk2 = "?lk0\<lparr>lk_srv := ?srv1, lk_turn := Suc (lk_turn lk)\<rparr>"
  note m = login_messages_accepted [where k = k and ce = ce and env = env and rnds = rnds and lk = lk and cc = ?cc and conn = ?c,
      folded pub_def, OF assms(6-10), simplified fresh_client_simps, OF assms(11)]
  have a1: "auth_answer env (rnds (lk_turn lk)) ?c ?q1 (lk_srv lk) = authRes 1 False challenge [] [] []"
    using m(1) by (simp add: login_messages_def Let_def pub_def [symmetric])
  have wire: "wire_ok cb (MAuthReq ?q1)" "wire_ok cb (authRes 1 False challenge [] [] [])" "wire_ok cb (MAuthReq ?q2)"
    "wire_ok cb (authRes 2 True [] (sessionTokenHex (rnds (Suc (lk_turn lk)))) name [])"
    using assms(5) unfolding m(1) by simp_all
  have i: "idle ?c ?lk0" "\<not> srv_closed (lk_srv ?lk0) ?c" "idle ?c ?lk2" "\<not> srv_closed (lk_srv ?lk2) ?c"
    using assms(2,3) m(3) by (simp_all add: idle_def)
  note x1 = link_exchange [OF i(1,2) wire(1) _ link_write, of env rnds]
    and x2 = link_exchange [OF i(3,4) wire(3) _ link_write, of env rnds]
  have "\<exists>lk'. challenge_response cb ce ?t k ?c ?cc ?lk0 = (Inr \<lparr>ares_ID = 2, ares_Success = True, ares_Challenge = [],
      ares_Token = sessionTokenHex (rnds (Suc (lk_turn lk))), ares_User = name, ares_Error = []\<rparr>, lk')"
    using x1 x2 assms(8) wire(2,4) a1 m(2)
    by (simp add: challenge_response_def send_signature_def pub_def [symmetric] link_write authRes_def)
  then show ?thesis
    using assms(4) by (auto simp: newClient_def dialAndAuth_def link_transport_def)
qed


text \<open>A connection of the pool is a session of the user: when the server has the session of the client's token, with the
  client's key, then a turn of \<open>runConn\<close> that dials an idle connection is accepted, and the connection is
  authenticated for the user of the session with the encryption key of the client.\<close>

theorem runConn_joins_session:
  assumes "idle (lk_next lk) lk" and "\<not> srv_closed (lk_srv lk) (lk_next lk)"
    and "wire_ok cb (MAuthReq (token_req cc))"
    and "wire_ok cb (auth_answer env (rnds (lk_turn lk)) (lk_next lk) (token_req cc) (lk_srv lk))"
    and "srv_inv (lk_srv lk)" and "coherent (srv_os (lk_srv lk))" and "cc_authToken cc \<noteq> []"
    and "srv_sessions (lk_srv lk) (cc_authToken cc) = Some info" and "si_EncryptionKey info = cc_encryptionKey cc"
    and "runConn_turn cb (link_transport cb env rnds) cc backoff lk = (turn, backoff', lk')"
  shows "turn = TurnServe (lk_next lk) \<and> backoff' = firstBackoff
    \<and> (\<exists>ca. session_ok (lk_next lk) ca cc (lk_srv lk') \<and> ca_user ca = si_User info \<and> ca_home ca = si_Home info)"
proof -
  let ?c = "lk_next lk" and ?lk0 = "lk\<lparr>lk_next := Suc (lk_next lk)\<rparr>" and ?t = "link_transport cb env rnds"
  let ?srv = "handleAuth env (rnds (lk_turn lk)) ?c (token_req cc) (lk_srv lk)"
  let ?ca = "\<lparr>ca_state = authOK, ca_challenge = None, ca_pubKey = [], ca_user = si_User info, ca_home = si_Home info,
    ca_encryptionKey = si_EncryptionKey info\<rparr>"
  have srv: "?srv = reply ?c (authRes 0 True [] [] (si_User info) []) [] (setConnAuth ?c ?ca (lk_srv lk))"
    using assms(7,8) by (simp add: handleAuth_def token_req_def zeroAuthReq_def ss_Get_def)
  have a: "auth_answer env (rnds (lk_turn lk)) ?c (token_req cc) (lk_srv lk) = authRes 0 True [] [] (si_User info) []"
    unfolding auth_answer_def srv by simp
  have i: "idle ?c ?lk0" "\<not> srv_closed (lk_srv ?lk0) ?c" using assms(1,2) by simp_all
  note x = link_exchange [OF i assms(3) _ link_write, of env rnds]
  have t: "tokenAuth cb ?t cc ?c ?lk0 = (None, ?lk0\<lparr>lk_srv := ?srv, lk_turn := Suc (lk_turn lk)\<rparr>)"
    using x assms(4) by (simp add: tokenAuth_def link_write a authRes_def)
  have d: "t_Dial ?t (cc_target cc) lk = (Inr ?c, ?lk0)" by (simp add: link_transport_def)
  have "session_ok ?c ?ca cc ?srv"
    using assms(5,6,9) by (simp add: session_ok_def srv srv_inv_def)
  then show ?thesis using assms(10) by (auto simp: runConn_turn_def d t)
qed

text \<open>The delay before the next attempt to connect is 100 ms times a power of two, at most 6.4 s: the code doubles
  as long as the delay is below \<open>maxBackoff\<close> (5 s), so that the limit is exceeded by the last doubling.
  After six failures in a row it is 6.4 s.\<close>

theorem runConn_backoff:
  assumes "TurnWait d \<in> set (runConn cb t cc serve cancelled n k firstBackoff w)"
  shows "(\<exists>j \<le> 6. d = firstBackoff * 2 ^ j) \<and> d \<le> 6400000000
    \<and> firstBackoff * 2 ^ 6 > maxBackoff"
proof -
  have "backoff_ok d" by (rule runConn_waits [OF backoff_first assms])
  then obtain j where j: "j \<le> 6" "d = firstBackoff * 2 ^ j" by (auto simp: backoff_ok_def)
  then have "d \<le> 6400000000" using power_increasing [of j 6 "2::int"] by (simp add: firstBackoff_def)
  with j show ?thesis by (auto simp: firstBackoff_def maxBackoff_def)
qed

section \<open>A concrete login\<close>

text \<open>A coder for two requests and two responses, told apart by their ID.\<close>

definition login_cbor :: "AuthReq \<Rightarrow> AuthRes \<Rightarrow> AuthReq \<Rightarrow> AuthRes \<Rightarrow> cbor_lib" where
  "login_cbor q1 a1 q2 a2 = id_cbor\<lparr>Marshal := (\<lambda>m. Inr [if GetID m = 2 then 2 else 1]),
     Unmarshal_AuthReq := (\<lambda>b _. Inr (if b = [2] then q2 else q1)),
     Unmarshal_AuthRes := (\<lambda>b _. Inr (if b = [2] then a2 else a1))\<rparr>"

lemma login_cbor_ok:
  assumes "areq_ID q1 \<noteq> 2" and "ares_ID a1 \<noteq> 2" and "areq_ID q2 = 2" and "ares_ID a2 = 2"
  shows "wire_ok (login_cbor q1 a1 q2 a2) (MAuthReq q1)" and "wire_ok (login_cbor q1 a1 q2 a2) (MAuthRes a1)"
    and "wire_ok (login_cbor q1 a1 q2 a2) (MAuthReq q2)" and "wire_ok (login_cbor q1 a1 q2 a2) (MAuthRes a2)"
  using assms
  by (simp_all add: wire_ok_def fits_def cbor_roundtrip_def Encode_def login_cbor_def newMSG_def mtype_defs
      MaxMsgSize_def)

definition sample_rnds :: "nat \<Rightarrow> nat \<Rightarrow> goerror + bytes" where
  "sample_rnds t n = Inr (replicate n (of_nat (Suc t)))"

definition sample_link :: link where
  "sample_link = \<lparr>lk_srv = newServer sample_os, lk_up = (\<lambda>_. []), lk_down = (\<lambda>_. []), lk_next = 3, lk_turn = 0\<rparr>"

definition sample_fresh :: copierClient where
  "sample_fresh = fresh_client ''h:5031'' [] [] 4 0 True True"

definition sample_sig :: bytes where
  "sample_sig = replicate 32 1 @ bytes_of ''k1''"

definition sample_login_cbor :: cbor_lib where
  "sample_login_cbor = login_cbor (pubkey_req sample_fresh (bytes_of ''k1''))
     \<lparr>ares_ID = 1, ares_Success = False, ares_Challenge = replicate 32 1, ares_Token = [], ares_User = [], ares_Error = []\<rparr>
     (signature_req sample_fresh (bytes_of ''k1'') sample_sig)
     \<lparr>ares_ID = 2, ares_Success = True, ares_Challenge = [], ares_Token = sessionTokenHex (sample_rnds 1),
      ares_User = ''al'', ares_Error = []\<rparr>"

lemma sample_home_ticks: "sample_home\<lparr>ticks := 0\<rparr> = sample_home"
  by (simp add: sample_home_def empty_os_def)

lemma sample_signer: "\<exists>s1. clientSigner sample_client [] (sample_home\<lparr>ticks := t\<rparr>) = (Inr (sample_key_of (bytes_of ''k1'')), s1)"
proof -
  let ?p = "\<lambda>n. Join [''/h'', ''.ssh'', n]" and ?h = "sample_home\<lparr>ticks := t\<rparr>"
  have 1: "(case fst (os_ReadFile (?p ''id_ed25519'') ?h) of Inl _ \<Rightarrow> True | Inr _ \<Rightarrow> False)" by code_simp
  have 2: "fst (os_ReadFile (?p ''id_rsa'') (snd (os_ReadFile (?p ''id_ed25519'') ?h))) = Inr (bytes_of ''k1'')" by code_simp
  obtain e s1 where r1: "os_ReadFile (?p ''id_ed25519'') ?h = (Inl e, s1)"
    using 1 by (cases "os_ReadFile (?p ''id_ed25519'') ?h") (auto split: sum.splits)
  obtain s2 where r2: "os_ReadFile (?p ''id_rsa'') s1 = (Inr (bytes_of ''k1''), s2)"
    using 2 r1 by (cases "os_ReadFile (?p ''id_rsa'') s1") simp
  have env: "UserHomeDir sample_client = Inr ''/h''" "\<exists>e. sshAgentSigner sample_client = Inl e"
    "ce_ParsePrivateKey sample_client (bytes_of ''k1'') = Inr (sample_key_of (bytes_of ''k1''))"
    by (simp_all add: UserHomeDir_def sshAgentSigner_def sample_client_def sample_key)
  then show ?thesis
    using r1 r2 by (auto simp: clientSigner_def privateKeySigner_def key_candidates_def simp del: Join.simps)
qed

lemma sample_signer_home: "\<exists>s1. clientSigner sample_client [] sample_home = (Inr (sample_key_of (bytes_of ''k1'')), s1)"
  using sample_signer [of 0] unfolding sample_home_ticks .

lemma sample_user: "\<exists>s2. findUserByPubKey sample_ssh (env_nss sample_env) (bytes_of ''k1'') [] sample_os = (Inr (''al'', ''/home/al''), s2)"
  using sample_found by (metis prod.collapse sample_env_def server_env.select_convs(2))

lemma sample_key_simps:
  "MarshalKey sample_ssh k = k" "ce_ssh sample_client = sample_ssh"
  "sg_Sign (sample_key_of k) ch = Inr (ch @ k)" "ce_MarshalSig sample_client sg = sg" "sg_PublicKey (sample_key_of k) = k"
  "env_ssh sample_env = sample_ssh" "srv_os (lk_srv sample_link) = sample_os" "lk_turn sample_link = 0"
  "sample_rnds 0 challengeLen = Inr (replicate 32 1)" "cc_authUser sample_fresh = []"
  by (simp_all add: sample_client_def sample_key_of_def sample_ssh_def sample_env_def sample_link_def newServer_def
      sample_rnds_def challengeLen_def sample_fresh_def)

lemma sample_idle: "idle (lk_next sample_link) sample_link" "\<not> srv_closed (lk_srv sample_link) (lk_next sample_link)"
  by (simp_all add: idle_def sample_link_def newServer_def)

lemma sample_messages:
  "list_all (wire_ok sample_login_cbor) (login_messages sample_env sample_rnds sample_client (sample_key_of (bytes_of ''k1''))
     (lk_next sample_link) sample_fresh sample_link)"
proof -
  obtain s2 where u: "findUserByPubKey sample_ssh (env_nss sample_env) (bytes_of ''k1'') [] sample_os = (Inr (''al'', ''/home/al''), s2)"
    using sample_user by blast
  have m: "login_messages sample_env sample_rnds sample_client (sample_key_of (bytes_of ''k1'')) (lk_next sample_link) sample_fresh sample_link =
    [MAuthReq (pubkey_req sample_fresh (bytes_of ''k1'')), authRes 1 False (replicate 32 1) [] [] [],
     MAuthReq (signature_req sample_fresh (bytes_of ''k1'') sample_sig), authRes 2 True [] (sessionTokenHex (sample_rnds 1)) ''al'' []]"
    using login_messages_accepted(1) [where ce = sample_client and k = "sample_key_of (bytes_of ''k1'')" and env = sample_env
        and rnds = sample_rnds and lk = sample_link and cc = sample_fresh and challenge = "replicate 32 1" and sig = sample_sig
        and pk = "bytes_of ''k1''" and name = "''al''" and home = "''/home/al''" and sx = s2 and conn = "lk_next sample_link"] u sample_verify
    by (simp add: sample_key_simps sample_key sample_sig_def)
  show ?thesis
    unfolding m sample_login_cbor_def authRes_def
    using login_cbor_ok [of "pubkey_req sample_fresh (bytes_of ''k1'')" _ "signature_req sample_fresh (bytes_of ''k1'') sample_sig"]
    by (simp add: pubkey_req_def signature_req_def)
qed


theorem newClient_session_witness:
  "\<exists>cc s1 lk' info. newClient sample_login_cbor sample_client (link_transport sample_login_cbor sample_env sample_rnds) ''h:5031'' [] [] 4 0 True True
      (sample_home, sample_link) = (Inr (cc, 4), s1, lk') \<and> cc_authUser cc = ''al''
    \<and> srv_sessions (lk_srv lk') (cc_authToken cc) = Some info \<and> si_User info = ''al'' \<and> si_EncryptionKey info = cc_encryptionKey cc"
proof -
  obtain s1 where k: "clientSigner sample_client [] sample_home = (Inr (sample_key_of (bytes_of ''k1'')), s1)" using sample_signer_home by blast
  obtain s2 where u: "findUserByPubKey sample_ssh (env_nss sample_env) (bytes_of ''k1'') [] sample_os = (Inr (''al'', ''/home/al''), s2)"
    using sample_user by blast
  obtain cc lk' where n: "newClient sample_login_cbor sample_client (link_transport sample_login_cbor sample_env sample_rnds) ''h:5031'' [] [] 4 0 True True
      (sample_home, sample_link) = (Inr (cc, nat 4), s1, lk')" "cc_authUser cc = ''al''"
    using newClient_accepted [OF sample_idle k sample_messages [unfolded sample_fresh_def], of "replicate 32 1" sample_sig "bytes_of ''k1''" "''al''" "''/home/al''" s2]
      u sample_verify by (auto simp: sample_key_simps sample_key sample_sig_def)
  have ssh: "env_ssh sample_env = ce_ssh sample_client" "ParsePublicKey (ce_ssh sample_client) (MarshalKey (ce_ssh sample_client) pk) = Inr pk" for pk
    by (simp_all add: sample_key_simps) (simp add: sample_ssh_def)
  show ?thesis
    using newClient_session [OF ssh sample_idle k sample_messages [unfolded sample_fresh_def] n(1)] n by auto
qed

definition sample_member :: copierClient where
  "sample_member = sample_fresh\<lparr>cc_authToken := ''t'', cc_authUser := ''al'', cc_encryptionKey := Some (replicate 32 7)\<rparr>"

definition sample_member_cbor :: cbor_lib where
  "sample_member_cbor = (let a = \<lparr>ares_ID = 0, ares_Success = True, ares_Challenge = [], ares_Token = [], ares_User = ''al'', ares_Error = []\<rparr>
     in login_cbor (token_req sample_member) a (token_req sample_member\<lparr>areq_ID := 2\<rparr>) (a\<lparr>ares_ID := 2\<rparr>))"

definition sample_member_link :: link where
  "sample_member_link = sample_link\<lparr>lk_srv := (newServer sample_os)\<lparr>srv_sessions :=
     [''t'' \<mapsto> \<lparr>si_User = ''al'', si_Home = ''/home/al'', si_EncryptionKey = Some (replicate 32 7)\<rparr>]\<rparr>\<rparr>"

theorem runConn_joins_session_witness:
  "let (turn, b, lk') = runConn_turn sample_member_cbor (link_transport sample_member_cbor sample_env sample_rnds) sample_member 400000000 sample_member_link
   in turn = TurnServe 3 \<and> b = firstBackoff \<and> (\<exists>ca. session_ok 3 ca sample_member (lk_srv lk') \<and> ca_home ca = ''/home/al'')"
proof -
  let ?info = "\<lparr>si_User = ''al'', si_Home = ''/home/al'', si_EncryptionKey = Some (replicate 32 7)\<rparr>"
  obtain turn b lk' where r: "runConn_turn sample_member_cbor (link_transport sample_member_cbor sample_env sample_rnds) sample_member 400000000
      sample_member_link = (turn, b, lk')"
    by (cases "runConn_turn sample_member_cbor (link_transport sample_member_cbor sample_env sample_rnds) sample_member 400000000 sample_member_link")
  have s: "idle (lk_next sample_member_link) sample_member_link" "\<not> srv_closed (lk_srv sample_member_link) (lk_next sample_member_link)"
    "cc_authToken sample_member \<noteq> []" "srv_sessions (lk_srv sample_member_link) (cc_authToken sample_member) = Some ?info"
    "si_EncryptionKey ?info = cc_encryptionKey sample_member" "lk_next sample_member_link = 3"
    by (simp_all add: idle_def sample_member_link_def sample_link_def newServer_def sample_member_def)
  have inv: "srv_inv (lk_srv sample_member_link)" "coherent (srv_os (lk_srv sample_member_link))"
    using newServer_inv [OF os_wf_sample] coherent_no_handles [OF os_wf_sample(2)]
    by (simp_all add: sample_member_link_def srv_inv_def get_cache_def newServer_def)
  have id: "areq_ID (token_req sample_member) = 0" by (simp add: token_req_def)
  have a: "auth_answer sample_env rnd c (token_req sample_member) (lk_srv sample_member_link) = authRes 0 True [] [] ''al'' []" for rnd c
    using s(3,4) by (simp add: auth_answer_def handleAuth_def token_req_def zeroAuthReq_def ss_Get_def)
  have w: "wire_ok sample_member_cbor (MAuthReq (token_req sample_member))" "wire_ok sample_member_cbor (authRes 0 True [] [] ''al'' [])"
    unfolding sample_member_cbor_def Let_def authRes_def by (rule login_cbor_ok; simp add: id)+
  show ?thesis
    using runConn_joins_session [OF s(1,2) w(1) _ inv s(3-5) r] a w(2) r s(6) by auto
qed

theorem runConn_backoff_witness:
  "let ws = runConn id_cbor \<lparr>t_Dial = (\<lambda>_ w. (Inl ErrEOF, w)), t_Write = (\<lambda>_ w _. (None, w)), t_Arrived = (\<lambda>_ w. ([], w)),
       t_Rest = (\<lambda>_ _ w. w), t_Close = (\<lambda>_ w. w)\<rparr> sample_fresh (\<lambda>_ w. w) (\<lambda>_. False) 7 0 firstBackoff ()
   in last ws = TurnWait (firstBackoff * 2 ^ 6) \<and> firstBackoff * 2 ^ 6 \<le> 6400000000 \<and> firstBackoff * 2 ^ 6 > maxBackoff"
proof -
  let ?t = "\<lparr>t_Dial = (\<lambda>_ w. (Inl ErrEOF, w)), t_Write = (\<lambda>_ w _. (None, w)), t_Arrived = (\<lambda>_ w. ([], w)),
       t_Rest = (\<lambda>_ _ w. w), t_Close = (\<lambda>_ w. w)\<rparr> :: unit transport"
  let ?ws = "runConn id_cbor ?t sample_fresh (\<lambda>_ w. w) (\<lambda>_. False) 7 0 firstBackoff ()"
  have ws: "last ?ws = TurnWait (firstBackoff * 2 ^ 6)" "?ws \<noteq> []"
    by (simp_all add: numeral_eq_Suc runConn_turn_def firstBackoff_def maxBackoff_def wrap64_def)
  then have "TurnWait (firstBackoff * 2 ^ 6) \<in> set ?ws" using last_in_set by metis
  from runConn_backoff [OF this] ws show ?thesis by (simp add: Let_def)
qed

end
