(* ===== verification/Glob.thy ===== *)
theory Glob
  imports GoMatch Login Address
begin

text \<open>
  The sources of a copy (\<open>glob.go\<close>): patterns are expanded into the list of files, local ones by
  \<open>expandLocalSource\<close> over the file system (with the files below a directory when the copy is
  recursive), remote ones by \<open>expandRemoteSources\<close> over the listing of the server.

  Shown: without recursion the expansion of \<open>dir/pattern\<close> ends and gives exactly the entries of the
  directory that match; with or without it no file is listed twice and nothing changes; the expansion
  of a remote pattern is the matching entries of the listing, as addresses that parse back to them.
\<close>

section \<open>The code\<close>

definition hasGlob :: "string \<Rightarrow> bool" where
  "hasGlob s = (\<exists>c \<in> set (Base s). c \<in> {CHR ''*'', CHR ''?'', CHR ''[''})"

record glob_state =
  gs_os :: os_state
  gs_seen :: "string set"
  gs_result :: "string list"

definition glob_fn :: "glob_state walk_fn" where
  "glob_fn walkPath walkInfo walkErr g r g' =
     (case (walkErr, walkInfo) of
        (Some err, _) \<Rightarrow> r = Some err \<and> g' = g
      | (None, None) \<Rightarrow> False
      | (None, Some info) \<Rightarrow>
          r = None \<and> g' = (if IsRegular (fi_Mode info) \<and> walkPath \<notin> gs_seen g
                            then g\<lparr>gs_seen := insert walkPath (gs_seen g), gs_result := gs_result g @ [walkPath]\<rparr> else g))"

abbreviation gs_put :: "os_state \<Rightarrow> glob_state \<Rightarrow> glob_state" where
  "gs_put s g \<equiv> g\<lparr>gs_os := s\<rparr>"

text \<open>The loop over the matches. The error of the walk is not looked at.\<close>

inductive expand_matches :: "bool \<Rightarrow> string list \<Rightarrow> glob_state \<Rightarrow> glob_state \<Rightarrow> bool" for recursive where
  expand_end: "expand_matches recursive [] g g"
| expand_seen: "m \<in> gs_seen g \<Longrightarrow> expand_matches recursive ms g g' \<Longrightarrow> expand_matches recursive (m # ms) g g'"
| expand_walk: "m \<notin> gs_seen g \<Longrightarrow> recursive \<Longrightarrow> os_Stat m (gs_os g) = (Inr info, s1) \<Longrightarrow> fi_IsDir info \<Longrightarrow>
    Walk gs_os gs_put m glob_fn (g\<lparr>gs_os := s1, gs_seen := insert m (gs_seen g)\<rparr>) e g1 \<Longrightarrow>
    expand_matches recursive ms g1 g' \<Longrightarrow> expand_matches recursive (m # ms) g g'"
| expand_stat: "m \<notin> gs_seen g \<Longrightarrow> recursive \<Longrightarrow> os_Stat m (gs_os g) = (r, s1) \<Longrightarrow>
    \<not> (case r of Inr info \<Rightarrow> fi_IsDir info | Inl _ \<Rightarrow> False) \<Longrightarrow>
    expand_matches recursive ms (g\<lparr>gs_os := s1, gs_seen := insert m (gs_seen g), gs_result := gs_result g @ [m]\<rparr>) g' \<Longrightarrow>
    expand_matches recursive (m # ms) g g'"
| expand_plain: "m \<notin> gs_seen g \<Longrightarrow> \<not> recursive \<Longrightarrow>
    expand_matches recursive ms (g\<lparr>gs_seen := insert m (gs_seen g), gs_result := gs_result g @ [m]\<rparr>) g' \<Longrightarrow>
    expand_matches recursive (m # ms) g g'"

definition expandLocalSource :: "string \<Rightarrow> bool \<Rightarrow> os_state \<Rightarrow> goerror + string list \<Rightarrow> os_state \<Rightarrow> bool" where
  "expandLocalSource pattern recursive s r s' =
     (if \<not> hasGlob pattern then r = Inr [pattern] \<and> s' = s
      else
        (case Glob pattern s of
           (Inl err, s1) \<Rightarrow> r = Inl err \<and> s' = s1
         | (Inr ms, s1) \<Rightarrow>
             if ms = [] then r = Inl (Errorf (''no files match '' @ quoted pattern)) \<and> s' = s1
             else (\<exists>g'. expand_matches recursive ms \<lparr>gs_os = s1, gs_seen = {}, gs_result = []\<rparr> g'
                       \<and> r = Inr (gs_result g') \<and> s' = gs_os g')))"

text \<open>The network as a command sees it: dialling and logging in, requests of a client through its pool, and the
  end of its context (\<open>Close\<close>).\<close>

record 'w network =
  net_transport :: "'w transport"
  net_call :: "copierClient \<Rightarrow> 'w caller"
  net_cancel :: "copierClient \<Rightarrow> 'w \<Rightarrow> 'w"

definition expandRemoteSources ::
  "cbor_lib \<Rightarrow> ('pk, 'sig) client_env \<Rightarrow> 'w network \<Rightarrow> string \<Rightarrow> string \<Rightarrow> string \<Rightarrow> string \<Rightarrow> int64 \<Rightarrow> bool \<Rightarrow>
    os_state \<times> 'w \<Rightarrow> (goerror + string list) \<times> os_state \<times> 'w" where
  "expandRemoteSources cb ce net hostPort user hostAlias remotePath timeout useChecksum x =
     (if \<not> hasGlob remotePath then (Inr [user @ ''@'' @ hostAlias @ '':'' @ remotePath], x)
      else
        (let (dir, pattern) = Split remotePath; parent = (if dir = [] then ''/'' else dir)
         in case newClient cb ce (net_transport net) hostPort user [] 1 timeout useChecksum True x of
              (Inl err, x1) \<Rightarrow> (Inl err, x1)
            | (Inr (cc, _), s1, w1) \<Rightarrow>
                (case cc_ReadDir (net_call net cc) parent (cc, w1) of
                   (Inl err, cc', w2) \<Rightarrow> (Inl err, s1, net_cancel net cc' w2)
                 | (Inr (MReadDirRes dirRes, _), cc', w2) \<Rightarrow>
                     if \<not> dres_Success dirRes then (Inl (Errorf (''readdir failed for '' @ parent)), s1, net_cancel net cc' w2)
                     else
                       (let result = map (\<lambda>entry. user @ ''@'' @ hostAlias @ '':'' @ Join [parent, de_Name entry])
                              (filter (\<lambda>entry. Match pattern (de_Name entry) = Inr True) (dres_Entries dirRes))
                        in (if result = [] then Inl (Errorf (''no files match pattern '' @ quoted pattern @ '' in '' @ parent))
                            else Inr result, s1, net_cancel net cc' w2))
                 | (Inr _, cc', w2) \<Rightarrow> (Inl PanicAssertion, s1, net_cancel net cc' w2))))"

section \<open>No file twice\<close>

definition gs_inv :: "os_state \<Rightarrow> glob_state \<Rightarrow> bool" where
  "gs_inv s g \<longleftrightarrow> distinct (gs_result g) \<and> set (gs_result g) \<subseteq> gs_seen g \<and> same_files s (gs_os g)"

lemma glob_fn_inv: "glob_fn path info e g r g' \<Longrightarrow> gs_inv s g \<Longrightarrow> gs_inv s g'"
  by (auto simp: glob_fn_def gs_inv_def split: option.splits if_splits)

lemma same_files_Stat: "os_Stat p s = (r, s') \<Longrightarrow> same_files s s'"
  by (auto simp: os_Stat_def same_files_def tick_def split: option.splits)

lemma gs_inv_os: "same_files (gs_os g) t \<Longrightarrow> gs_inv s g \<Longrightarrow> gs_inv s (gs_put t g)"
  unfolding gs_inv_def using same_files_trans by auto

lemma gs_inv_seen: "gs_inv s g \<Longrightarrow> gs_inv s (g\<lparr>gs_seen := insert m (gs_seen g)\<rparr>)"
  by (auto simp: gs_inv_def)

lemma gs_inv_add: "gs_inv s g \<Longrightarrow> m \<notin> gs_seen g \<Longrightarrow> gs_inv s (g\<lparr>gs_seen := insert m (gs_seen g), gs_result := gs_result g @ [m]\<rparr>)"
  by (auto simp: gs_inv_def)

lemma expand_matches_inv: "expand_matches recursive ms g g' \<Longrightarrow> gs_inv s g \<Longrightarrow> gs_inv s g'"
proof (induction rule: expand_matches.induct)
  case (expand_walk m g info s1 e g1 ms g')
  have "gs_inv s (gs_put s1 (g\<lparr>gs_seen := insert m (gs_seen g)\<rparr>))"
    using gs_inv_os [OF _ gs_inv_seen [OF expand_walk.prems]] same_files_Stat [OF expand_walk.hyps(3)] by simp
  then have "gs_inv s (g\<lparr>gs_os := s1, gs_seen := insert m (gs_seen g)\<rparr>)" by (cases g) simp
  then have "gs_inv s g1" by (rule Walk_preserves [OF expand_walk.hyps(5)]) (use glob_fn_inv gs_inv_os in blast)+
  then show ?case by (rule expand_walk.IH)
next
  case (expand_stat m g r s1 ms g')
  have "gs_inv s (gs_put s1 (g\<lparr>gs_seen := insert m (gs_seen g), gs_result := gs_result g @ [m]\<rparr>))"
    using gs_inv_os [OF _ gs_inv_add [OF expand_stat.prems expand_stat.hyps(1)]] same_files_Stat [OF expand_stat.hyps(3)] by simp
  then show ?case using expand_stat.IH by (cases g) simp
next
  case (expand_plain m g ms g')
  then show ?case using gs_inv_add by blast
qed auto

lemma same_files_glob_dir: "same_files s (snd (glob_dir d p acc s))"
proof -
  obtain r s1 where st: "os_Stat d s = (r, s1)" by (cases "os_Stat d s")
  obtain q s2 where rd: "readDirNames d s1 = (q, s2)" by (cases "readDirNames d s1")
  show ?thesis
    using st rd same_files_Stat [OF st] readDirNames_files [OF rd] same_files_trans
    by (auto simp: glob_dir_def split: sum.splits)
qed

lemma same_files_glob_dirs: "same_files s (snd (glob_dirs ds p acc s))"
proof (induction ds arbitrary: acc s)
  case (Cons d ds)
  show ?case
    using same_files_glob_dir [of s d p acc] Cons.IH same_files_trans by (auto split: prod.splits sum.splits)
qed simp

lemma same_files_glob: "same_files s (snd (globWithLimit depth pattern s))"
proof (induction depth pattern s rule: globWithLimit.induct)
  case (1 depth pattern s)
  obtain d f where sp: "Split pattern = (d, f)" by (cases "Split pattern")
  obtain q s1 where ls: "os_Lstat pattern s = (q, s1)" by (cases "os_Lstat pattern s")
  show ?case
  proof (cases "depth \<noteq> 10000 \<and> isl (Match pattern []) = False \<and> hasMeta pattern \<and> hasMeta (cleanGlobPath d) \<and> cleanGlobPath d \<noteq> pattern")
    case True
    then obtain b where b: "Match pattern [] = Inr b" by (cases "Match pattern []") auto
    obtain m s2 where g: "globWithLimit (depth + 1) (cleanGlobPath d) s = (m, s2)" by (cases "globWithLimit (depth + 1) (cleanGlobPath d) s")
    then have "same_files s s2" using 1(1) [OF _ b _ sp [symmetric] refl] True by simp
    then show ?thesis
      using True b sp g same_files_trans [OF _ same_files_glob_dirs]
      by (subst globWithLimit.simps) (auto split: sum.splits)
  next
    case False
    then show ?thesis
      using sp ls Lstat_files [OF ls] same_files_glob_dir
      by (subst globWithLimit.simps) (auto split: sum.splits)
  qed
qed


lemma expandLocalSource_inv:
  assumes "expandLocalSource pattern recursive s r s'"
  shows "same_files s s' \<and> (case r of Inr res \<Rightarrow> distinct res | Inl _ \<Rightarrow> True)"
proof (cases "hasGlob pattern")
  case True
  obtain q s1 where g: "Glob pattern s = (q, s1)" by (cases "Glob pattern s")
  have same: "same_files s s1" using same_files_glob [of s 0 pattern] g by (simp add: Glob_def)
  have "gs_inv s \<lparr>gs_os = s1, gs_seen = {}, gs_result = []\<rparr>" using same by (simp add: gs_inv_def)
  then show ?thesis
    using assms True g same expand_matches_inv
    by (auto simp: expandLocalSource_def gs_inv_def split: sum.splits if_splits)
qed (use assms in \<open>simp add: expandLocalSource_def\<close>)

text \<open>C37: no file is copied twice: the expansion of a local pattern, with or without recursion, lists every path
  at most once, also when a directory and files below it match or the pattern reaches a file in two
  ways, and it changes nothing in the file system.\<close>

theorem expandLocalSource_distinct:
  assumes "expandLocalSource pattern recursive s r s'"
  shows "same_files s s' \<and> (case r of Inr res \<Rightarrow> distinct res | Inl _ \<Rightarrow> True)"
  using assms by (rule expandLocalSource_inv)

section \<open>Exactly the matches\<close>

lemma expand_plain_result:
  "expand_matches recursive ms g g' \<Longrightarrow> \<not> recursive \<Longrightarrow>
    set (gs_result g') = set (gs_result g) \<union> (set ms - gs_seen g) \<and> gs_os g' = gs_os g"
  by (induction rule: expand_matches.induct) auto

lemma expand_plain_total: "\<exists>g'. expand_matches False ms g g'"
proof (induction ms arbitrary: g)
  case Nil
  show ?case using expand_end by blast
next
  case (Cons m ms)
  show ?case using Cons.IH expand_seen expand_plain by (cases "m \<in> gs_seen g") blast+
qed

lemma Split_slash: "CHR ''/'' \<notin> set pat \<Longrightarrow> Split (dir @ ''/'' @ pat) = (dir @ ''/'', pat)"
  by (auto simp: Split_def takeWhile_append dropWhile_append)

lemma Base_word:
  assumes "CHR ''/'' \<notin> set pat" and "pat \<noteq> []"
  shows "Base (dir @ ''/'' @ pat) = pat" and "Base pat = pat"
proof -
  have s: "strip_slashes (d @ pat) = d @ pat" for d
    using assms by (cases pat rule: rev_cases) (auto simp: strip_slashes_def)
  have t: "takeWhile (\<lambda>c. c \<noteq> CHR ''/'') (rev pat) = rev pat" using assms(1) by auto
  have u: "takeWhile (\<lambda>c. c \<noteq> CHR ''/'') (rev (dir @ ''/'' @ pat)) = rev pat"
    using assms(1) by (auto simp: takeWhile_append)
  have s1: "strip_slashes (dir @ ''/'' @ pat) = dir @ ''/'' @ pat" "strip_slashes pat = pat"
    using s [of "dir @ ''/''"] s [of "[]"] by simp_all
  show "Base (dir @ ''/'' @ pat) = pat" unfolding Base_def Let_def s1(1) u using assms(2) by simp
  show "Base pat = pat" unfolding Base_def Let_def s1(2) t using assms(2) by simp
qed

text \<open>The names of the entries of a directory.\<close>

definition entry_names :: "os_state \<Rightarrow> string \<Rightarrow> string set" where
  "entry_names s dir = {Base q |q i. (q, i) \<in> set (names s) \<and> q \<noteq> ''/'' \<and> Dir q = resolve s dir \<and> inodes s i \<noteq> None}"

lemma set_insert_by [simp]: "set (insert_by lt x xs) = insert x (set xs)"
  by (induction xs) auto

lemma set_sort_by [simp]: "set (sort_by lt xs) = set xs"
  by (induction xs) (simp_all add: sort_by_def)

lemma readDirNames_entries:
  assumes "readDirNames dir s = (Inr ns, s')"
  shows "set ns = entry_names s dir"
proof -
  have "set ns = fi_Name ` set (List.map_filter (\<lambda>(q, i). map_option (info_of q) (inodes s i)) (children s (resolve s dir)))"
    using assms by (auto simp: readDirNames_def os_ReadDir_def split: prod.splits option.splits sum.splits if_splits)
  also have "\<dots> = Base ` fst ` {(q, i). (q, i) \<in> set (children s (resolve s dir)) \<and> inodes s i \<noteq> None}"
    by (force simp: map_filter_def info_of_def image_iff)
  finally show ?thesis by (auto simp: entry_names_def children_def image_iff) force+
qed

lemma quiet_directory:
  assumes "faults s = (\<lambda>_. None)" and "is_directory s dir"
  shows "\<exists>fi ns s1 s2. os_Stat dir s = (Inr fi, s1) \<and> fi_IsDir fi \<and> readDirNames dir s1 = (Inr ns, s2) \<and> set ns = entry_names s dir"
proof -
  obtain i n where l: "lookup s dir = Some (i, n)" "i_dir n" using assms(2) by (auto simp: is_directory_def split: option.splits)
  let ?s1 = "s\<lparr>ticks := Suc (ticks s)\<rparr>"
  have st: "os_Stat dir s = (Inr (info_of dir n), ?s1)" using l assms(1) by (simp add: os_Stat_def tick_def)
  have l1: "lookup ?s1 dir = Some (i, n)" using l(1) same_files_lookup [of s ?s1 dir] by (simp add: same_files_def)
  obtain ns s2 where rd: "readDirNames dir ?s1 = (Inr ns, s2)"
    using l1 l(2) assms(1) by (auto simp: readDirNames_def os_ReadDir_def tick_def)
  have "entry_names ?s1 dir = entry_names s dir" by (simp add: entry_names_def resolve_def)
  then show ?thesis using st rd l(2) readDirNames_entries [OF rd] by (auto simp: info_of_def)
qed

lemma match_names_bad:
  "match_names dir pattern ns acc = Inl err \<Longrightarrow> \<exists>n \<in> set ns. Match pattern n = Inl err"
proof (induction ns arbitrary: acc)
  case (Cons n ns)
  then show ?case by (cases "Match pattern n") auto
qed simp

lemma Glob_dir:
  assumes "dir \<noteq> []" and "\<not> hasMeta dir" and "CHR ''/'' \<notin> set pat" and "hasMeta pat"
  shows "Glob (dir @ ''/'' @ pat) s = (case Match (dir @ ''/'' @ pat) [] of Inl err \<Rightarrow> (Inl err, s) | Inr _ \<Rightarrow> glob_dir dir pat [] s)"
proof -
  have "hasMeta (dir @ ''/'' @ pat)" using assms(4) by (auto simp: hasMeta_def)
  moreover have "cleanGlobPath (dir @ ''/'') = dir"
    using assms(1) by (cases dir) (auto simp: cleanGlobPath_def butlast_append)
  ultimately show ?thesis
    unfolding Glob_def by (subst globWithLimit.simps) (simp only: Split_slash [OF assms(3)] Let_def prod.case assms(2) if_False simp_thms if_True zero_neq_numeral)
qed

text \<open>C19: a pattern \<open>dir/pattern\<close> for the files of a directory, without recursion, stands for exactly the entries of the directory
  whose names match: the expansion ends, and unless the pattern is malformed or nothing matches (which are
  the errors it reports) its result is the paths of these entries, each once.\<close>

theorem expandLocalSource_matches:
  assumes "dir \<noteq> []" and "\<not> hasMeta dir" and "CHR ''/'' \<notin> set pat" and "hasGlob pat" and "pat \<noteq> []"
    and "faults s = (\<lambda>_. None)" and "is_directory s dir"
  shows "(\<exists>r s'. expandLocalSource (dir @ ''/'' @ pat) False s r s')
    \<and> (\<forall>r s'. expandLocalSource (dir @ ''/'' @ pat) False s r s' \<longrightarrow>
        (case r of
           Inr res \<Rightarrow> res \<noteq> [] \<and> distinct res \<and> set res = {Join [dir, n] |n. n \<in> entry_names s dir \<and> Match pat n = Inr True}
         | Inl err \<Rightarrow> Match (dir @ ''/'' @ pat) [] = Inl err \<or> (\<exists>n \<in> entry_names s dir. Match pat n = Inl err)
             \<or> err = Errorf (''no files match '' @ quoted (dir @ ''/'' @ pat)) \<and> (\<forall>n \<in> entry_names s dir. Match pat n \<noteq> Inr True)))"
proof -
  let ?p = "dir @ ''/'' @ pat" and ?M = "\<lambda>ns. map (\<lambda>n. Join [dir, n]) (filter (\<lambda>n. Match pat n = Inr True) ns)"
  have glob: "hasGlob ?p" "hasMeta pat" using assms(4) Base_word [OF assms(3,5)] by (auto simp: hasGlob_def hasMeta_def)
  obtain fi ns s1 s2 where d: "os_Stat dir s = (Inr fi, s1)" "fi_IsDir fi" "readDirNames dir s1 = (Inr ns, s2)" "set ns = entry_names s dir"
    using quiet_directory [OF assms(6,7)] by blast
  have gd: "glob_dir dir pat [] s = (match_names dir pat ns [], s2)" using d(1-3) by (simp add: glob_dir_def)
  have G: "Glob ?p s = (case Match ?p [] of Inl err \<Rightarrow> (Inl err, s) | Inr _ \<Rightarrow> (match_names dir pat ns [], s2))"
    unfolding Glob_dir [OF assms(1-3) glob(2)] gd ..
  have total: "\<exists>r s'. expandLocalSource ?p False s r s'"
  proof (cases "fst (Glob ?p s)")
    case (Inr ms)
    obtain g' where "expand_matches False ms \<lparr>gs_os = snd (Glob ?p s), gs_seen = {}, gs_result = []\<rparr> g'" using expand_plain_total by blast
    then show ?thesis using Inr glob(1) unfolding expandLocalSource_def by (cases "Glob ?p s") auto
  qed (cases "Glob ?p s", use glob(1) in \<open>auto simp: expandLocalSource_def\<close>)
  have right: "case r of
           Inr res \<Rightarrow> res \<noteq> [] \<and> distinct res \<and> set res = {Join [dir, n] |n. n \<in> entry_names s dir \<and> Match pat n = Inr True}
         | Inl err \<Rightarrow> Match ?p [] = Inl err \<or> (\<exists>n \<in> entry_names s dir. Match pat n = Inl err)
             \<or> err = Errorf (''no files match '' @ quoted ?p) \<and> (\<forall>n \<in> entry_names s dir. Match pat n \<noteq> Inr True)"
    if run: "expandLocalSource ?p False s r s'" for r s'
  proof (cases "\<exists>b m. Match ?p [] = Inr b \<and> match_names dir pat ns [] = Inr m")
    case True
    then obtain b m where m: "Match ?p [] = Inr b" "match_names dir pat ns [] = Inr m" by blast
    have M: "m = ?M ns" using match_names_filter [OF m(2)] by simp
    show ?thesis
    proof (cases "m = []")
      case True
      then show ?thesis using run glob(1) G m M d(4) by (auto simp: expandLocalSource_def filter_empty_conv simp del: Join.simps)
    next
      case False
      then obtain g' where g: "expand_matches False m \<lparr>gs_os = s2, gs_seen = {}, gs_result = []\<rparr> g'" "r = Inr (gs_result g')"
        using run glob(1) G m by (auto simp: expandLocalSource_def)
      have "gs_inv s2 g'" by (rule expand_matches_inv [OF g(1)]) (simp add: gs_inv_def)
      then have "distinct (gs_result g')" by (simp add: gs_inv_def)
      moreover have "set (gs_result g') = set m" using expand_plain_result [OF g(1)] by simp
      ultimately show ?thesis using g(2) False d(4) unfolding M by (auto simp del: Join.simps)
    qed
  next
    case False
    then obtain err where "Match ?p [] = Inl err \<or> (\<exists>b. Match ?p [] = Inr b) \<and> match_names dir pat ns [] = Inl err"
      by (cases "Match ?p []"; cases "match_names dir pat ns []") auto
    then show ?thesis
      using run glob(1) G match_names_bad [of dir pat ns "[]"] d(4) by (auto simp: expandLocalSource_def)
  qed
  show ?thesis using total right by blast
qed

text \<open>A directory with two files.\<close>

definition glob_os :: os_state where
  "glob_os = empty_os\<lparr>names := [(''/'', 0), (''/d'', 1), (''/d/b'', 3), (''/d/a.c'', 2)],
     inodes := [0 \<mapsto> \<lparr>i_dir = True, i_data = [], i_mode = 493, i_mtime = 0\<rparr>,
                1 \<mapsto> \<lparr>i_dir = True, i_data = [], i_mode = 493, i_mtime = 0\<rparr>,
                2 \<mapsto> \<lparr>i_dir = False, i_data = [5], i_mode = 420, i_mtime = 0\<rparr>,
                3 \<mapsto> \<lparr>i_dir = False, i_data = [], i_mode = 420, i_mtime = 0\<rparr>], next_ino := 4\<rparr>"

lemma glob_os_entries: "entry_names glob_os ''/d'' = {''a.c'', ''b''}"
proof -
  have "fst (readDirNames ''/d'' glob_os) = Inr [''a.c'', ''b'']" by code_simp
  then obtain s' where "readDirNames ''/d'' glob_os = (Inr [''a.c'', ''b''], s')" by (cases "readDirNames ''/d'' glob_os") simp
  from readDirNames_entries [OF this] show ?thesis by simp
qed

theorem expandLocalSource_matches_witness:
  "\<exists>res s'. expandLocalSource ''/d/*.c'' False glob_os (Inr res) s' \<and> set res = {''/d/a.c''} \<and> distinct res"
proof -
  have p: "''/d/*.c'' = ''/d'' @ ''/'' @ ''*.c''" by simp
  have m: "Match ''*.c'' ''a.c'' = Inr True" "Match ''*.c'' ''b'' = Inr False" "Match ''/d/*.c'' [] = Inr False" by code_simp+
  have j: "Join [''/d'', ''a.c''] = ''/d/a.c''" "is_directory glob_os ''/d''" "\<not> hasMeta ''/d''" "hasGlob ''*.c''" by code_simp+
  have f: "faults glob_os = (\<lambda>_. None)" by (simp add: glob_os_def empty_os_def)
  have q: "''/d'' \<noteq> []" "CHR ''/'' \<notin> set ''*.c''" "''*.c'' \<noteq> []" by simp_all
  note w = expandLocalSource_matches [of "''/d''" "''*.c''" glob_os, OF q(1) j(3) q(2) j(4) q(3) f j(2), folded p]
  obtain r s' where run: "expandLocalSource ''/d/*.c'' False glob_os r s'" using w by auto
  have c: "case r of
           Inr res \<Rightarrow> res \<noteq> [] \<and> distinct res \<and> set res = {Join [''/d'', n] |n. n \<in> entry_names glob_os ''/d'' \<and> Match ''*.c'' n = Inr True}
         | Inl err \<Rightarrow> Match ''/d/*.c'' [] = Inl err \<or> (\<exists>n \<in> entry_names glob_os ''/d''. Match ''*.c'' n = Inl err)
             \<or> err = Errorf (''no files match '' @ quoted ''/d/*.c'') \<and> (\<forall>n \<in> entry_names glob_os ''/d''. Match ''*.c'' n \<noteq> Inr True)"
    using w run by blast
  have e: "{Join [''/d'', n] |n. n \<in> {''a.c'', ''b''} \<and> Match ''*.c'' n = Inr True} = {''/d/a.c''}"
    using m(1,2) j(1) by (auto simp del: Join.simps intro!: exI [of _ "''a.c''"])
  obtain res where res: "r = Inr res" using c m unfolding glob_os_entries by (cases r) auto
  show ?thesis using c run e unfolding res glob_os_entries by auto
qed

definition glob_s :: "nat \<Rightarrow> os_state" where
  "glob_s n = glob_os\<lparr>ticks := n\<rparr>"

definition glob_info :: "string \<Rightarrow> FileInfo" where
  "glob_info p = (case lookup glob_os p of Some (i, n) \<Rightarrow> info_of p n)"

lemma glob_steps:
  "lookup glob_os p = Some (i, n) \<Longrightarrow> os_Stat p (glob_s t) = (Inr (glob_info p), glob_s (Suc t))"
  "lookup glob_os p = Some (i, n) \<Longrightarrow> os_Lstat p (glob_s t) = (Inr (glob_info p), glob_s (Suc t))"
proof -
  assume l: "lookup glob_os p = Some (i, n)"
  have "lookup (glob_s t) p = Some (i, n)" using l same_files_lookup [of glob_os "glob_s t" p] by (simp add: glob_s_def same_files_def)
  then show "os_Stat p (glob_s t) = (Inr (glob_info p), glob_s (Suc t))"
    using l by (simp add: os_Stat_def tick_def glob_info_def) (simp add: glob_s_def glob_os_def empty_os_def)
  then show "os_Lstat p (glob_s t) = (Inr (glob_info p), glob_s (Suc t))" by (simp add: os_Lstat_def)
qed

lemma glob_facts:
  "fst (Glob ''/*'' glob_os) = Inr [''/d'']" "hasGlob ''/*''" "fi_IsDir (glob_info ''/d'')" "\<not> IsRegular (fi_Mode (glob_info ''/d''))"
  "IsRegular (fi_Mode (glob_info ''/d/a.c''))" "IsRegular (fi_Mode (glob_info ''/d/b''))" "\<not> fi_IsDir (glob_info ''/d/a.c'')"
  "\<not> fi_IsDir (glob_info ''/d/b'')" "Join [''/d'', ''a.c''] = ''/d/a.c''" "Join [''/d'', ''b''] = ''/d/b''"
  by code_simp+

lemma glob_lookups: "\<exists>i n. lookup glob_os ''/d'' = Some (i, n)" "\<exists>i n. lookup glob_os ''/d/a.c'' = Some (i, n)" "\<exists>i n. lookup glob_os ''/d/b'' = Some (i, n)"
proof -
  have "lookup glob_os ''/d'' \<noteq> None" "lookup glob_os ''/d/a.c'' \<noteq> None" "lookup glob_os ''/d/b'' \<noteq> None" by code_simp+
  then show "\<exists>i n. lookup glob_os ''/d'' = Some (i, n)" "\<exists>i n. lookup glob_os ''/d/a.c'' = Some (i, n)" "\<exists>i n. lookup glob_os ''/d/b'' = Some (i, n)"
    by auto
qed

lemma ticks_only:
  "snd (os_Stat p s) = s\<lparr>ticks := Suc (ticks s)\<rparr>" "snd (readDirNames p s) = s\<lparr>ticks := Suc (ticks s)\<rparr>"
  by (auto simp: os_Stat_def readDirNames_def os_ReadDir_def tick_def split: option.splits prod.splits)

lemma glob_dir_ticks: "\<exists>t. snd (glob_dir d p acc s) = s\<lparr>ticks := t\<rparr>"
proof -
  obtain r s1 where st: "os_Stat d s = (r, s1)" by (cases "os_Stat d s")
  obtain q s2 where rd: "readDirNames d s1 = (q, s2)" by (cases "readDirNames d s1")
  have "s1 = s\<lparr>ticks := Suc (ticks s)\<rparr>" "s2 = s1\<lparr>ticks := Suc (ticks s1)\<rparr>"
    using ticks_only(1) [of d s] ticks_only(2) [of d s1] st rd by simp_all
  then show ?thesis using st rd by (auto simp: glob_dir_def split: sum.splits)
qed

lemma glob_names: "readDirNames ''/d'' (glob_s t) = (Inr [''a.c'', ''b''], glob_s (Suc t))"
proof -
  have "fst (readDirNames ''/d'' glob_os) = Inr [''a.c'', ''b'']" by code_simp
  moreover have f: "faults glob_os = (\<lambda>_. None)" by (simp add: glob_os_def empty_os_def)
  have "fst (readDirNames ''/d'' (glob_s t)) = fst (readDirNames ''/d'' glob_os)"
    using same_files_lookup [of glob_os "glob_s t" "''/d''"] f glob_lookups(1)
    by (auto simp: readDirNames_def os_ReadDir_def tick_def glob_s_def same_files_def children_def resolve_def split: option.splits)
  moreover have "snd (readDirNames ''/d'' (glob_s t)) = glob_s (Suc t)" by (simp add: ticks_only) (simp add: glob_s_def)
  ultimately show ?thesis by (simp add: prod_eq_iff)
qed

lemma glob_root: "\<exists>t. Glob ''/*'' glob_os = (Inr [''/d''], glob_s t)"
proof -
  have m: "hasMeta ''/*''" "Match ''/*'' [] = Inr False" "Split ''/*'' = (''/'', ''*'')" "cleanGlobPath ''/'' = ''/''" "\<not> hasMeta ''/''"
    by code_simp+
  have g: "Glob ''/*'' glob_os = glob_dir ''/'' ''*'' [] glob_os"
    unfolding Glob_def by (subst globWithLimit.simps) (simp add: m)
  have "\<exists>t. snd (glob_dir ''/'' ''*'' [] glob_os) = glob_s t" using glob_dir_ticks unfolding glob_s_def .
  then show ?thesis using glob_facts(1) unfolding g by (metis prod.collapse)
qed

theorem expandLocalSource_distinct_witness:
  "\<exists>s'. expandLocalSource ''/*'' True glob_os (Inr [''/d/a.c'', ''/d/b'']) s' \<and> distinct [''/d/a.c'', ''/d/b''] \<and> same_files glob_os s'"
proof -
  let ?g = "\<lambda>t seen res. \<lparr>gs_os = glob_s t, gs_seen = seen, gs_result = res\<rparr>" and ?w = "walk gs_os gs_put glob_fn"
  let ?d = "''/d''" and ?a = "''/d/a.c''" and ?b = "''/d/b''"
  obtain t where g: "Glob ''/*'' glob_os = (Inr [?d], glob_s t)" using glob_root by blast
  have st: "os_Stat ?d (glob_s u) = (Inr (glob_info ?d), glob_s (Suc u))" "os_Lstat ?d (glob_s u) = (Inr (glob_info ?d), glob_s (Suc u))"
    "os_Lstat ?a (glob_s u) = (Inr (glob_info ?a), glob_s (Suc u))" "os_Lstat ?b (glob_s u) = (Inr (glob_info ?b), glob_s (Suc u))" for u
    using glob_steps glob_lookups by blast+
  have jl: "os_Lstat (Join [?d, ''a.c'']) (gs_os (?g u A B)) = (Inr (glob_info ?a), glob_s (Suc u))"
    "os_Lstat (Join [?d, ''b'']) (gs_os (?g u A B)) = (Inr (glob_info ?b), glob_s (Suc u))" for u A B
    using st(3,4) unfolding glob_facts(9,10) by simp_all
  have n2: "walk_names gs_os gs_put glob_fn ?d [''b''] (?g u {?a, ?d} [?a]) None (?g (Suc u) {?b, ?a, ?d} [?a, ?b])" for u
    by (rule names_next [where os_of = gs_os and put_os = gs_put, OF jl(2) walk_file names_end]) (use glob_facts in \<open>simp_all add: glob_fn_def\<close>)
  have n1: "walk_names gs_os gs_put glob_fn ?d [''a.c'', ''b''] (?g u {?d} []) None (?g (Suc (Suc u)) {?b, ?a, ?d} [?a, ?b])" for u
    by (rule names_next [where os_of = gs_os and put_os = gs_put, OF jl(1) walk_file n2]) (use glob_facts in \<open>simp_all add: glob_fn_def\<close>)
  have "?w ?d (glob_info ?d) (?g u {?d} []) None (?g (Suc (Suc (Suc u))) {?b, ?a, ?d} [?a, ?b])" for u
    by (rule walk_dir [OF _ _ _ n1]) (use glob_names glob_facts in \<open>simp_all add: glob_fn_def\<close>)
  then have w: "Walk gs_os gs_put ?d glob_fn (?g u {?d} []) None (?g (Suc (Suc (Suc (Suc u)))) {?b, ?a, ?d} [?a, ?b])" for u
    using st(2) by (simp add: Walk_def)
  have "expand_matches True [?d] (?g t {} []) (?g (Suc (Suc (Suc (Suc (Suc t))))) {?b, ?a, ?d} [?a, ?b])"
    by (rule expand_walk [OF _ _ _ _ _ expand_end]) (use st(1) w glob_facts in simp_all)
  then have run: "expandLocalSource ''/*'' True glob_os (Inr [?a, ?b]) (glob_s (Suc (Suc (Suc (Suc (Suc t))))))"
    using g glob_facts(2) by (force simp: expandLocalSource_def)
  show ?thesis using expandLocalSource_distinct [OF run] run by auto
qed

section \<open>Remote patterns\<close>

text \<open>C20: a remote pattern stands for exactly the entries the server lists that match: once the client is logged in
  and the server has listed the directory, \<open>expandRemoteSources\<close> gives one address for every entry whose
  name matches, in the order of the listing, and its only error is that there is none. Every address
  whose path has no at-sign is parsed back to the user, the host and the path of the entry, so that
  the copy that follows asks for that entry.\<close>

theorem expandRemoteSources_matches:
  assumes "hasGlob remotePath" and "Split remotePath = (dir, pattern)" and "parent = (if dir = [] then ''/'' else dir)"
    and "newClient cb ce (net_transport net) hostPort user [] 1 timeout useChecksum True x = (Inr (cc, n), s1, w1)"
    and "cc_ReadDir (net_call net cc) parent (cc, w1) = (Inr (MReadDirRes res, m), cc', w2)" and "dres_Success res"
    and "user \<noteq> []" and "CHR ''@'' \<notin> set hostAlias" and "CHR '':'' \<notin> set hostAlias" and "hostAlias \<noteq> []"
    and "expandRemoteSources cb ce net hostPort user hostAlias remotePath timeout useChecksum x = (r, x')"
  shows "case r of
     Inl err \<Rightarrow> (\<forall>e \<in> set (dres_Entries res). Match pattern (de_Name e) \<noteq> Inr True)
   | Inr addrs \<Rightarrow> addrs \<noteq> [] \<and> list_all2 (\<lambda>a e. a = format_addr user hostAlias (Join [parent, de_Name e])
        \<and> (CHR ''@'' \<notin> set (Join [parent, de_Name e]) \<longrightarrow>
            (\<forall>port os ra os'. parseRemoteAddr ce a port os = (Inr ra, os') \<longrightarrow>
               ra_path ra = Join [parent, de_Name e] \<and> ra_user ra = user \<and> ra_hostAlias ra = hostAlias)))
        addrs (filter (\<lambda>e. Match pattern (de_Name e) = Inr True) (dres_Entries res))"
proof -
  let ?f = "filter (\<lambda>e. Match pattern (de_Name e) = Inr True) (dres_Entries res)"
  let ?a = "\<lambda>e. user @ ''@'' @ hostAlias @ '':'' @ Join [parent, de_Name e]"
  have r: "r = (if map ?a ?f = [] then Inl (Errorf (''no files match pattern '' @ quoted pattern @ '' in '' @ parent)) else Inr (map ?a ?f))"
    using assms(1,2,4-6,11) unfolding expandRemoteSources_def assms(3) by (auto simp: Let_def simp del: Join.simps)
  have f: "?a e = format_addr user hostAlias (Join [parent, de_Name e])" for e using assms(7) by (simp add: format_addr_def del: Join.simps)
  have parsed: "ra_path ra = path \<and> ra_user ra = user \<and> ra_hostAlias ra = hostAlias"
    if "CHR ''@'' \<notin> set path" "parseRemoteAddr ce (format_addr user hostAlias path) port os = (Inr ra, os')" for path port os ra os'
    using that(2) assms(7) unfolding parse_format [OF assms(8-10) that(1)]
    by (auto dest!: finish_addr_user split: option.splits prod.splits)
  show ?thesis
  proof (cases "?f = []")
    case True
    then show ?thesis unfolding r by (auto simp: filter_empty_conv simp del: Join.simps)
  next
    case False
    then show ?thesis
      using parsed unfolding r f by (auto simp: list_all2_conv_all_nth simp del: Join.simps)
  qed
qed

text \<open>A server that follows a script: it lets every key in, and \<open>answer\<close> tells its answers to requests.\<close>

definition script_answers :: "AuthRes \<times> AuthRes" where
  "script_answers =
    (\<lparr>ares_ID = 1, ares_Success = False, ares_Challenge = replicate 32 1, ares_Token = [], ares_User = [], ares_Error = []\<rparr>,
     \<lparr>ares_ID = 2, ares_Success = True, ares_Challenge = [], ares_Token = ''t'', ares_User = ''al'', ares_Error = []\<rparr>)"

definition script_cbor :: cbor_lib where
  "script_cbor = login_cbor zeroAuthReq (fst script_answers) (zeroAuthReq\<lparr>areq_ID := 2\<rparr>) (snd script_answers)"

text \<open>\<open>turn\<close> counts the answers read, \<open>next\<close> counts one more, \<open>close\<close> happens at the end of the temporary connection.\<close>

definition script_transport :: "('w \<Rightarrow> nat) \<Rightarrow> ('w \<Rightarrow> 'w) \<Rightarrow> ('w \<Rightarrow> 'w) \<Rightarrow> 'w transport" where
  "script_transport turn next close = \<lparr>t_Dial = (\<lambda>_ w. (Inr 3, w)), t_Write = (\<lambda>_ w _. (None, w)),
     t_Arrived = (\<lambda>_ w. (frame script_cbor (MAuthRes (if turn w = 0 then fst script_answers else snd script_answers)) [], w)),
     t_Rest = (\<lambda>_ _ w. next w), t_Close = (\<lambda>_ w. close w)\<rparr>"

definition script_net :: "(MSG \<Rightarrow> MSG) \<Rightarrow> nat network" where
  "script_net answer = \<lparr>net_transport = script_transport id Suc id,
     net_call = (\<lambda>_ m _ w. (Inr (answer m, []), w)), net_cancel = (\<lambda>_ w. w)\<rparr>"

definition script_client :: "string \<Rightarrow> string \<Rightarrow> string \<Rightarrow> int64 \<Rightarrow> int64 \<Rightarrow> bool \<Rightarrow> bool \<Rightarrow> copierClient" where
  "script_client target user identityFile batch timeout useChecksum useEncryption =
     (fresh_client target user identityFile batch timeout useChecksum useEncryption)\<lparr>cc_authToken := ''t'', cc_authUser := ''al'',
        cc_encryptionKey := Some (deriveEncryptionKey sample_ssh (bytes_of ''k1''))\<rparr>"

lemma script_login:
  assumes "turn w = 0" and "turn (next w) \<noteq> 0"
    and "clientSigner ce [] s = (Inr (sample_key_of (bytes_of ''k1'')), s1)" and "ce_ssh ce = sample_ssh" and "ce_MarshalSig ce = id"
  shows "newClient script_cbor ce (script_transport turn next close) target user [] batch timeout useChecksum useEncryption (s, w)
     = (Inr (script_client target user [] batch timeout useChecksum useEncryption, nat batch), s1, close (next (next w)))"
proof -
  let ?t = "script_transport turn next close" and ?cc = "fresh_client target user [] batch timeout useChecksum useEncryption"
  have ok: "wire_ok script_cbor (MAuthRes (fst script_answers))" "wire_ok script_cbor (MAuthRes (snd script_answers))"
    unfolding script_cbor_def by (rule login_cbor_ok; simp add: zeroAuthReq_def script_answers_def)+
  have rd: "conn_readResp script_cbor ?t c w = (Inr (MAuthRes (if turn w = 0 then fst script_answers else snd script_answers)), next w)" for c w
    using readResp_frame [of script_cbor "MAuthRes (fst script_answers)" "[]" "[]"] readResp_frame [of script_cbor "MAuthRes (snd script_answers)" "[]" "[]"] ok
    by (simp add: conn_readResp_def script_transport_def wire_ok_def)
  have wr: "WriteMessage script_cbor (t_Write ?t c) w m p = (None, w)" for c w m p
    by (simp add: WriteMessage_def EncodeMsg_def Let_def script_transport_def)
  have "challenge_response script_cbor ce ?t (sample_key_of (bytes_of ''k1'')) c ?cc w = (Inr (snd script_answers), next (next w))" for c
    using assms(1,2,4,5) by (simp add: challenge_response_def send_signature_def wr rd sample_key_simps) (simp add: script_answers_def)
  then have "dialAndAuth script_cbor ce ?t ?cc (s, w)
      = (Inr (nat batch), script_client target user [] batch timeout useChecksum useEncryption, s1, close (next (next w)))"
    using assms(3,4) by (simp add: dialAndAuth_def script_client_def fresh_client_def sample_key_simps) (simp add: script_transport_def script_answers_def sample_key_simps)
  then show ?thesis by (simp add: newClient_def)
qed

definition script_entry :: "string \<Rightarrow> DirEntry" where
  "script_entry n = \<lparr>de_IsDir = False, de_Mode = 420, de_Name = n, de_Size = 1, de_ModTime = 0\<rparr>"

definition script_listing :: "string list \<Rightarrow> MSG" where
  "script_listing ns = MReadDirRes \<lparr>dres_ID = 1, dres_Success = True, dres_Entries = map script_entry ns, dres_Error = []\<rparr>"

theorem expandRemoteSources_matches_witness:
  "\<exists>x'. expandRemoteSources script_cbor sample_client (script_net (\<lambda>_. script_listing [''x.c'', ''y'']))
      ''box:5031'' ''al'' ''box'' ''/d/*.c'' 0 False (sample_home, 0) = (Inr [''al@box:/d/x.c''], x')"
proof -
  let ?net = "script_net (\<lambda>_. script_listing [''x.c'', ''y''])" and ?cc = "script_client ''box:5031'' ''al'' [] 1 0 False True"
  obtain s1 where l: "newClient script_cbor sample_client (net_transport ?net) ''box:5031'' ''al'' [] 1 0 False True (sample_home, 0) = (Inr (?cc, nat 1), s1, 2)"
    using script_login [of id 0 Suc sample_client] sample_signer [of 0] sample_home_ticks by (auto simp: script_net_def numeral_2_eq_2 sample_client_def)
  obtain cc' where c: "cc_ReadDir (net_call ?net ?cc) ''/d/'' (?cc, 2)
      = (Inr (MReadDirRes \<lparr>dres_ID = 1, dres_Success = True, dres_Entries = map script_entry [''x.c'', ''y''], dres_Error = []\<rparr>, []), cc', 2)"
    by (simp add: cc_ReadDir_def request_def script_net_def script_listing_def genMsgID_def Let_def)
  have e: "hasGlob ''/d/*.c''" "Split ''/d/*.c'' = (''/d/'', ''*.c'')" "Match ''*.c'' ''x.c'' = Inr True" "Match ''*.c'' ''y'' = Inr False"
    "Join [''/d/'', ''x.c''] = ''/d/x.c''" by code_simp+
  obtain r x' where r: "expandRemoteSources script_cbor sample_client ?net ''box:5031'' ''al'' ''box'' ''/d/*.c'' 0 False (sample_home, 0) = (r, x')"
    by (cases "expandRemoteSources script_cbor sample_client ?net ''box:5031'' ''al'' ''box'' ''/d/*.c'' 0 False (sample_home, 0)")
  have p: "''/d/'' = (if ''/d/'' = [] then ''/'' else ''/d/'')" by simp
  from expandRemoteSources_matches [OF e(1,2) p l c _ _ _ _ _ r]
  have "r = Inr [''al@box:/d/x.c'']"
    by (cases r) (auto simp: script_entry_def e list_all2_Cons2 format_addr_def simp del: Join.simps)
  then show ?thesis using r by blast
qed

end
