(* ===== verification/Ls.thy ===== *)
theory Ls
  imports Glob Upload "HOL-Library.Multiset"
begin

text \<open>
  The command \<open>gcp ls\<close> (\<open>ls.go\<close>): one line for the file or for every entry of the directory, sorted by name.
  What is printed is a list of lines. Formatting uses the standard library (modelled), the size in
  binary units of \<open>go-humanize\<close> and the offset of the local time zone (parameters, \<open>ls_env\<close>).

  Shown: over the link to the model of the server, the listing of a directory ends without error and is
  a permutation of its entries with their kind, mode, size and time, in the order of their names.
\<close>

section \<open>Formatting\<close>

text \<open>\<open>IBytes\<close> of \<open>go-humanize\<close>, and the offset of local time from UTC in seconds at a point in time.\<close>

record ls_env =
  le_IBytes :: "nat \<Rightarrow> string"
  le_zone :: "int64 \<Rightarrow> int"

text \<open>\<open>fs.FileMode.String\<close>\<close>

definition mode_bits :: "string \<Rightarrow> nat \<Rightarrow> uint32 \<Rightarrow> (char \<times> bool) list" where
  "mode_bits str hi m = map (\<lambda>i. (str ! i, bit m (hi - i))) [0..<length str]"

definition modeString :: "uint32 \<Rightarrow> string" where
  "modeString mode =
     (let kind = map fst (filter snd (mode_bits ''dalTLDpSugct?'' 31 mode))
      in (if kind = [] then ''-'' else kind)
         @ map (\<lambda>(c, b). if b then c else CHR ''-'') (mode_bits ''rwxrwxrwx'' 8 mode))"

definition pad_left :: "nat \<Rightarrow> char \<Rightarrow> string \<Rightarrow> string" where
  "pad_left w c s = replicate (w - length s) c @ s"

definition sizeString :: "ls_env \<Rightarrow> int64 \<Rightarrow> bool \<Rightarrow> string" where
  "sizeString le sz human =
     (if human then pad_left 6 CHR '' '' (le_IBytes le (nat (sz mod 2 ^ 64)))
      else pad_left 6 CHR '' '' (dec_int sz))"

text \<open>The date of a day, counted from 1970-01-01: the year starts in March, in eras of 400 years.\<close>

definition civil :: "int \<Rightarrow> int \<times> int \<times> int" where
  "civil days =
     (let z = days + 719468; era = z div 146097; doe = z mod 146097;
          yoe = (doe - doe div 1460 + doe div 36524 - doe div 146096) div 365;
          doy = doe - (365 * yoe + yoe div 4 - yoe div 100);
          mp = (5 * doy + 2) div 153;
          m = (if mp < 10 then mp + 3 else mp - 9)
      in (yoe + era * 400 + (if m \<le> 2 then 1 else 0), m, doy - (153 * mp + 2) div 5 + 1))"

definition two_digits :: "int \<Rightarrow> string" where
  "two_digits n = pad_left 2 CHR ''0'' (dec_int n)"

text \<open>\<open>Format("2006-01-02 15:04")\<close> of a local time; a negative year has its sign before the four digits.\<close>

definition format_time :: "int \<Rightarrow> string" where
  "format_time t =
     (let (y, m, d) = civil (t div 86400); sec = t mod 86400
      in (if y < 0 then ''-'' else []) @ pad_left 4 CHR ''0'' (dec_int \<bar>y\<bar>) @ ''-'' @ two_digits m @ ''-'' @ two_digits d
         @ '' '' @ two_digits (sec div 3600) @ '':'' @ two_digits (sec div 60 mod 60))"

definition timeString :: "ls_env \<Rightarrow> int64 \<Rightarrow> string" where
  "timeString le unix =
     (if unix = 0 then replicate 16 CHR '' '' else format_time (unix + le_zone le unix))"

definition printEntry :: "ls_env \<Rightarrow> DirEntry \<Rightarrow> bool \<Rightarrow> bool \<Rightarrow> string" where
  "printEntry le entry long human =
     (let name = de_Name entry @ (if de_IsDir entry then ''/'' else [])
      in if long then modeString (de_Mode entry) @ ''  '' @ sizeString le (de_Size entry) human @ ''  ''
                        @ timeString le (de_ModTime entry) @ ''  '' @ name
         else name)"

text \<open>Examples: a directory with the usual permissions, a set-user-ID file, and a time in 2023, in a leap year, before 1970.\<close>

lemma format_examples:
  "modeString 0x800001ED = ''drwxr-xr-x''" "modeString 0x008001ED = ''urwxr-xr-x''" "modeString 0 = ''----------''"
  "civil 19675 = (2023, 11, 14)" "civil 19782 = (2024, 2, 29)" "civil (- 1) = (1969, 12, 31)"
  by code_simp+

section \<open>The command\<close>

record ls_flags =
  lf_long :: bool
  lf_human :: bool
  lf_port :: int64

definition ls_order :: "DirEntry \<Rightarrow> DirEntry \<Rightarrow> bool" where
  "ls_order a b = string_less (de_Name a) (de_Name b)"

text \<open>From the client on: the error, if any, and the lines printed. (The order \<open>sort.Slice\<close> gives entries with the
  same name is not specified; a directory has none.)\<close>

definition ls_listing ::
  "ls_env \<Rightarrow> ls_flags \<Rightarrow> 'w caller \<Rightarrow> string \<Rightarrow> copierClient \<times> 'w \<Rightarrow> (goerror option \<times> string list) \<times> copierClient \<times> 'w" where
  "ls_listing le fl call path x =
     (case cc_Stat call path x of
        (Inl err, x1) \<Rightarrow> ((Some err, []), x1)
      | (Inr (MStatRes statRes, _), x1) \<Rightarrow>
          if \<not> sres_Success statRes then ((Some (Errorf (''stat failed for '' @ path @ '': '' @ sres_Error statRes)), []), x1)
          else if sres_IsDir statRes then
            (case cc_ReadDir call path x1 of
               (Inl err, x2) \<Rightarrow> ((Some err, []), x2)
             | (Inr (MReadDirRes dirRes, _), x2) \<Rightarrow>
                 if \<not> dres_Success dirRes then ((Some (Errorf (''readdir failed for '' @ path @ '': '' @ dres_Error dirRes)), []), x2)
                 else ((None, map (\<lambda>entry. printEntry le entry (lf_long fl) (lf_human fl)) (sort_by ls_order (dres_Entries dirRes))), x2)
             | (Inr _, x2) \<Rightarrow> ((Some PanicAssertion, []), x2))
          else
            ((None, [printEntry le \<lparr>de_IsDir = False, de_Mode = sres_Mode statRes, de_Name = path, de_Size = sres_Size statRes, de_ModTime = 0\<rparr>
                      (lf_long fl) (lf_human fl)]), x1)
      | (Inr _, x1) \<Rightarrow> ((Some PanicAssertion, []), x1))"

definition lsCmd ::
  "cbor_lib \<Rightarrow> ('pk, 'sig) client_env \<Rightarrow> 'w network \<Rightarrow> ls_env \<Rightarrow> ls_flags \<Rightarrow> string list \<Rightarrow> os_state \<times> 'w \<Rightarrow>
    goerror option \<times> string list \<times> os_state \<times> 'w" where
  "lsCmd cb ce net le fl args = (\<lambda>(s, w).
     case args of
       [] \<Rightarrow> (Some (Errorf ''usage: gcp ls [--long] <remote_path>''), [], s, w)
     | arg # _ \<Rightarrow>
         (case parseRemoteAddr ce arg (dec_int (lf_port fl)) s of
            (Inl err, s1) \<Rightarrow> (Some err, [], s1, w)
          | (Inr a, s1) \<Rightarrow>
              (case newClient cb ce (net_transport net) (ra_hostPort a) (ra_user a) (ra_identityFile a) 1 0 False False (s1, w) of
                 (Inl err, s2, w2) \<Rightarrow> (Some err, [], s2, w2)
               | (Inr (cc, _), s2, w2) \<Rightarrow>
                   (let ((err, out), cc', w3) = ls_listing le fl (net_call net cc) (ra_path a) (cc, w2)
                    in (err, out, s2, net_cancel net cc' w3)))))"

section \<open>Sorting\<close>

lemma mset_insert_by: "mset (insert_by lt x xs) = add_mset x (mset xs)"
  by (induction xs) auto

lemma mset_sort_by: "mset (sort_by lt xs) = mset xs"
  by (induction xs) (simp_all add: sort_by_def mset_insert_by)

lemma string_less_asym: "string_less s t \<Longrightarrow> \<not> string_less t s"
  by (induction s t rule: string_less.induct) auto

lemma of_char_eq: "(of_char b :: nat) = of_char c \<longleftrightarrow> b = c"
  by simp

lemma string_less_neg_trans: "\<not> string_less t s \<Longrightarrow> \<not> string_less u t \<Longrightarrow> \<not> string_less u s"
proof (induction s t arbitrary: u rule: string_less.induct)
  case (3 b s c t)
  show ?case
  proof (cases u)
    case (Cons d u')
    have "(of_char b :: nat) \<le> of_char c" "(of_char c :: nat) \<le> of_char d" using 3 Cons by auto
    then show ?thesis using 3 Cons of_char_eq [of b c] of_char_eq [of c d] by (auto simp del: of_char_eq_iff)
  qed (use 3 in simp)
qed (auto elim: string_less.elims)

locale neg_trans_order =
  fixes lt :: "'a \<Rightarrow> 'a \<Rightarrow> bool"
  assumes asym: "lt x y \<Longrightarrow> \<not> lt y x"
    and neg_trans: "\<not> lt y x \<Longrightarrow> \<not> lt z y \<Longrightarrow> \<not> lt z x"
begin

abbreviation sorted_by :: "'a list \<Rightarrow> bool" where
  "sorted_by \<equiv> sorted_wrt (\<lambda>a b. \<not> lt b a)"

lemma sorted_insert_by: "sorted_by xs \<Longrightarrow> sorted_by (insert_by lt x xs)"
proof (induction xs)
  case (Cons y ys)
  then have ys: "\<forall>z \<in> set ys. \<not> lt z y" "sorted_by ys" by simp_all
  show ?case
  proof (cases "lt y x")
    case True
    then show ?thesis using ys Cons.IH asym [OF True] by simp
  next
    case False
    then have "\<forall>z \<in> set ys. \<not> lt z x" using ys(1) neg_trans [OF False] by blast
    then show ?thesis using ys False by simp
  qed
qed simp

lemma sorted_sort_by: "sorted_by (sort_by lt xs)"
  by (induction xs) (simp_all add: sort_by_def sorted_insert_by)

end

interpretation ls_names: neg_trans_order ls_order
  unfolding ls_order_def by unfold_locales (rule string_less_asym, assumption, rule string_less_neg_trans)

section \<open>The listing of a directory\<close>

text \<open>The entries of a directory, as the server describes them.\<close>

definition dir_entries :: "os_state \<Rightarrow> string \<Rightarrow> DirEntry list" where
  "dir_entries s d = List.map_filter (\<lambda>(q, i). map_option (\<lambda>n. dirEntry (info_of q n)) (inodes s i)) (children s (resolve s d))"

lemma dir_entries_names: "de_Name ` set (dir_entries s d) = entry_names s d"
proof -
  have "de_Name ` set (dir_entries s d) = Base ` fst ` {(q, i). (q, i) \<in> set (children s (resolve s d)) \<and> inodes s i \<noteq> None}"
    by (force simp: dir_entries_def map_filter_def info_of_def dirEntry_def image_iff)
  then show ?thesis by (auto simp: entry_names_def children_def image_iff) force+
qed

lemma dir_entries_same: "same_files s t \<Longrightarrow> dir_entries t d = dir_entries s d"
  by (simp add: dir_entries_def same_files_def children_def resolve_def)

lemma map_filter_map: "map f (List.map_filter g xs) = List.map_filter (map_option f \<circ> g) xs"
  by (induction xs) (auto simp: map_filter_def split: option.splits)

lemma ReadDir_entries:
  assumes "faults s = (\<lambda>_. None)" and "is_directory s p"
  shows "\<exists>es s'. os_ReadDir p s = (Inr es, s') \<and> mset (map dirEntry es) = mset (dir_entries s p)"
proof -
  let ?l = "List.map_filter (\<lambda>(q, i). map_option (info_of q) (inodes s i)) (children s (resolve s p))"
  have "map dirEntry ?l = dir_entries s p"
    unfolding dir_entries_def map_filter_map by (intro arg_cong [where f = "\<lambda>f. List.map_filter f _"]) (auto simp: fun_eq_iff option.map_comp comp_def)
  then have "mset (map dirEntry (sort_by lt ?l)) = mset (dir_entries s p)" for lt by (metis mset_map mset_sort_by)
  then show ?thesis
    using assms by (auto simp: os_ReadDir_def tick_def is_directory_def split: option.splits)
qed

lemma cc_ReadDir_effect:
  assumes ok: "session_ok conn ca cc srv" and path: "sandboxPath (Some ca) target = Inr p"
    and dir: "faults (srv_os srv) = (\<lambda>_. None)" "is_directory (srv_os srv) p"
    and call: "cc_ReadDir (direct_call env rnd conn) target (cc, srv) = (r, cc', srv')"
  shows "session_ok conn ca cc' srv' \<and> same_files (srv_os srv) (srv_os srv') \<and> faults (srv_os srv') = faults (srv_os srv)
    \<and> (\<exists>res. r = Inr (MReadDirRes res, []) \<and> dres_Success res \<and> mset (dres_Entries res) = mset (dir_entries (srv_os srv) p))"
proof -
  let ?i = "fst (genMsgID (cc_id cc))"
  let ?mk = "\<lambda>i. \<lparr>dreq_ID = i, dreq_Path = target\<rparr>"
  let ?s = "srv_readDir conn (?mk ?i) (Some ca) srv"
  obtain es s1 where rd: "os_ReadDir p (srv_os srv) = (Inr es, s1)" "mset (map dirEntry es) = mset (dir_entries (srv_os srv) p)"
    using ReadDir_entries [OF dir] by blast
  let ?res = "\<lparr>dres_ID = ?i, dres_Success = True, dres_Entries = map dirEntry es, dres_Error = []\<rparr>"
  have s: "?s = reply conn (MReadDirRes ?res) [] (srv\<lparr>srv_os := s1\<rparr>)" using path rd(1) by (simp add: srv_readDir_def)
  have rep: "replied conn ?i ReadDirResT srv ?s" using srv_readDir_replied [OF session_okD(1) [OF ok], of conn "?mk ?i"] by simp
  have co: "coherent (srv_os ?s)" using coherent_calls(2) [OF session_okD(2) [OF ok], of p] rd(1) unfolding s by simp
  have call': "request (direct_call env rnd conn) (\<lambda>i. MReadDirReq (?mk i)) [] (cc, srv) = (r, cc', srv')"
    using call by (simp add: cc_ReadDir_def)
  have "r = Inr (MReadDirRes ?res, []) \<and> srv' = ?s \<and> same_client cc cc' \<and> session_ok conn ca cc' ?s"
    by (rule session_request [OF ok rep _ co call']) (simp add: s, rule handle_authed(5) [OF session_okD(3,4) [OF ok]])
  moreover have "faults s1 = faults (srv_os srv)" using faults_unchanged(4) [of p "srv_os srv"] rd(1) by simp
  ultimately show ?thesis using rd(2) same_files_ReadDir [of "srv_os srv" p] unfolding s rd(1) by auto
qed

lemma cc_Stat_directory:
  assumes ok: "session_ok conn ca cc srv" and path: "sandboxPath (Some ca) target = Inr p"
    and dir: "faults (srv_os srv) = (\<lambda>_. None)" "is_directory (srv_os srv) p"
    and call: "cc_Stat (direct_call env rnd conn) target (cc, srv) = (r, cc', srv')"
  shows "\<exists>res q. r = Inr (MStatRes res, q) \<and> sres_Success res \<and> sres_IsDir res"
proof -
  let ?i = "fst (genMsgID (cc_id cc))"
  let ?q = "\<lparr>sreq_ID = ?i, sreq_Path = target\<rparr>"
  obtain info s1 where st: "os_Stat p (srv_os srv) = (Inr info, s1)" "fi_IsDir info"
    using dir by (auto simp: os_Stat_def tick_def is_directory_def info_of_def split: option.splits)
  have h: "handle_msg env rnd \<lparr>wm_msg = MStatReq ?q, wm_payload = [], wm_conn = conn\<rparr> srv = srv_stat conn ?q (Some ca) srv"
    by (rule handle_authed(4) [OF session_okD(3,4) [OF ok]])
  show ?thesis
    using call direct_call_reply [of env rnd "MStatReq ?q" "[]" conn srv conn] st path
    by (auto simp: cc_Stat_def request_def case_prod_beta Let_def h srv_stat_def)
qed

section \<open>Over the link\<close>

text \<open>Requests of a client whose pool has the connection \<open>conn\<close>.\<close>

definition link_call :: "('pk, 'sig) server_env \<Rightarrow> (nat \<Rightarrow> goerror + bytes) \<Rightarrow> connid \<Rightarrow> link caller" where
  "link_call env rnd conn m p lk = (let (r, srv') = direct_call env rnd conn m p (lk_srv lk) in (r, lk\<lparr>lk_srv := srv'\<rparr>))"

lemma request_link:
  "request (link_call env rnd conn) mk p (cc, lk)
     = (let (r, cc', srv') = request (direct_call env rnd conn) mk p (cc, lk_srv lk) in (r, cc', lk\<lparr>lk_srv := srv'\<rparr>))"
  by (simp add: request_def link_call_def Let_def case_prod_beta)

text \<open>C18: \<open>gcp ls\<close> shows what is there: for an address that names a directory on the server, once the client is
  logged in and a connection of its pool is a session of the user, the command ends without error
  and prints one line for every entry of that directory and nothing else, from the kind, mode, size and
  time of the entry, in the order of the names; the files of the server stay as they are.\<close>

theorem lsCmd_lists_directory:
  assumes "parseRemoteAddr ce addr (dec_int (lf_port fl)) s = (Inr a, s1)"
    and "newClient cb ce (net_transport net) (ra_hostPort a) (ra_user a) (ra_identityFile a) 1 0 False False (s1, lk) = (Inr (cc, n), s2, lk1)"
    and "net_call net cc = link_call env rnd conn" and "session_ok conn ca cc (lk_srv lk1)"
    and "net_cancel net = (\<lambda>_ lk. lk)"
    and "sandboxPath (Some ca) (ra_path a) = Inr p"
    and "faults (srv_os (lk_srv lk1)) = (\<lambda>_. None)" and "is_directory (srv_os (lk_srv lk1)) p"
  shows "\<exists>es lk'. lsCmd cb ce net le fl (addr # rest) (s, lk)
      = (None, map (\<lambda>e. printEntry le e (lf_long fl) (lf_human fl)) es, s2, lk')
    \<and> mset es = mset (dir_entries (srv_os (lk_srv lk1)) p) \<and> de_Name ` set es = entry_names (srv_os (lk_srv lk1)) p
    \<and> sorted_wrt (\<lambda>e e'. \<not> string_less (de_Name e') (de_Name e)) es
    \<and> same_files (srv_os (lk_srv lk1)) (srv_os (lk_srv lk'))"
proof -
  let ?call = "direct_call env rnd conn" and ?srv = "lk_srv lk1"
  obtain r1 cc1 srv1 where st: "cc_Stat ?call (ra_path a) (cc, ?srv) = (r1, cc1, srv1)" by (cases "cc_Stat ?call (ra_path a) (cc, ?srv)")
  obtain st_res q where r1: "r1 = Inr (MStatRes st_res, q)" "sres_Success st_res" "sres_IsDir st_res"
    using cc_Stat_directory [OF assms(4,6-8) st] by blast
  note eff = cc_Stat_effect [OF assms(4,6) st]
  have ok1: "session_ok conn ca cc1 srv1" and same1: "same_files (srv_os ?srv) (srv_os srv1)" and f1: "faults (srv_os srv1) = (\<lambda>_. None)"
    using eff assms(7) by auto
  have d1: "is_directory (srv_os srv1) p" using assms(8) same_files_lookup [OF same1] by (simp add: is_directory_def)
  obtain r2 cc2 srv2 where rd: "cc_ReadDir ?call (ra_path a) (cc1, srv1) = (r2, cc2, srv2)" by (cases "cc_ReadDir ?call (ra_path a) (cc1, srv1)")
  obtain res where res: "r2 = Inr (MReadDirRes res, [])" "dres_Success res" "mset (dres_Entries res) = mset (dir_entries (srv_os ?srv) p)"
    and same2: "same_files (srv_os ?srv) (srv_os srv2)"
    using cc_ReadDir_effect [OF ok1 assms(6) f1 d1 rd] dir_entries_same [OF same1] same_files_trans [OF same1] by auto
  let ?es = "sort_by ls_order (dres_Entries res)" and ?lk = "lk1\<lparr>lk_srv := srv2\<rparr>"
  have "cc_Stat (link_call env rnd conn) (ra_path a) (cc, lk1) = (r1, cc1, lk1\<lparr>lk_srv := srv1\<rparr>)"
    "cc_ReadDir (link_call env rnd conn) (ra_path a) (cc1, lk1\<lparr>lk_srv := srv1\<rparr>) = (r2, cc2, ?lk)"
    using st rd by (simp_all add: cc_Stat_def cc_ReadDir_def request_link)
  then have run: "lsCmd cb ce net le fl (addr # rest) (s, lk) = (None, map (\<lambda>e. printEntry le e (lf_long fl) (lf_human fl)) ?es, s2, ?lk)"
    using assms(1-3,5) r1 res(1,2) by (simp add: lsCmd_def ls_listing_def)
  have perm: "mset ?es = mset (dir_entries (srv_os ?srv) p)" using res(3) by (simp add: mset_sort_by)
  then have "de_Name ` set ?es = entry_names (srv_os ?srv) p" using dir_entries_names mset_eq_setD by metis
  then show ?thesis
    using run perm same2 ls_names.sorted_sort_by [of "dres_Entries res"] by (intro exI [of _ ?es] exI [of _ ?lk]) (simp add: ls_order_def)
qed

text \<open>A server with the directory of the theory \<open>Glob\<close> and a session on connection 7.\<close>

definition ls_srv :: copierServer where
  "ls_srv = (newServer glob_os)\<lparr>srv_ctx := [7 \<mapsto> sample_ca]\<rparr>"

definition ls_link :: link where
  "ls_link = \<lparr>lk_srv = ls_srv, lk_up = (\<lambda>_. []), lk_down = (\<lambda>_. []), lk_next = 3, lk_turn = 0\<rparr>"

definition ls_net :: "link network" where
  "ls_net = \<lparr>net_transport = script_transport lk_turn (\<lambda>lk. lk\<lparr>lk_turn := Suc (lk_turn lk)\<rparr>) id,
     net_call = (\<lambda>_. link_call sample_env sample_rnd 7), net_cancel = (\<lambda>_ lk. lk)\<rparr>"

lemma ls_session:
  assumes "\<not> cc_useEncryption cc"
  shows "session_ok 7 sample_ca cc ls_srv"
proof -
  have w: "os_wf glob_os" by (auto simp: os_wf_def glob_os_def empty_os_def)
  have f: "fds glob_os = Map.empty" by (simp add: glob_os_def)
  have "srv_inv (newServer glob_os)" by (rule newServer_inv [OF w f])
  moreover have "coherent glob_os" by (rule coherent_no_handles [OF f])
  ultimately show ?thesis
    using assms by (simp add: session_ok_def ls_srv_def sample_ca_def srv_inv_def get_cache_def newServer_def)
qed

lemma sample_config_missing: "sshConfigLookup sample_client host sample_home = (None, sample_home\<lparr>ticks := 1\<rparr>)"
proof -
  have l: "lookup sample_home (Join [''/h'', ''.ssh'', ''config'']) = None" by code_simp
  have "UserHomeDir sample_client = Inr ''/h''" by (simp add: UserHomeDir_def sample_client_def)
  moreover have "faults sample_home = (\<lambda>_. None)" "ticks sample_home = 0" by (simp_all add: sample_home_def empty_os_def)
  ultimately show ?thesis
    using l by (simp add: sshConfigLookup_def os_ReadFile_def os_Open_def os_OpenFile_def tick_def O_RDONLY_def del: Join.simps)
qed

definition ls_sample_env :: ls_env where
  "ls_sample_env = \<lparr>le_IBytes = (\<lambda>n. dec_nat n @ '' B''), le_zone = (\<lambda>_. 0)\<rparr>"

lemma port_text: "dec_int 5031 = ''5031''"
  by (simp add: dec_int_def dec_nat.simps) code_simp

theorem lsCmd_lists_directory_witness:
  "\<exists>lines x'. lsCmd script_cbor sample_client ls_net ls_sample_env \<lparr>lf_long = False, lf_human = False, lf_port = 5031\<rparr> [''al@box:/d''] (sample_home, ls_link)
      = (None, lines, x') \<and> set lines = {''a.c'', ''b''}"
proof -
  let ?fl = "\<lparr>lf_long = False, lf_human = False, lf_port = 5031\<rparr>" and ?lk = "ls_link\<lparr>lk_turn := 2\<rparr>"
  let ?cc = "script_client ''box:5031'' ''al'' [] 1 0 False False"
  let ?s1 = "sample_home\<lparr>ticks := 1\<rparr>"
  let ?a = "\<lparr>ra_hostPort = ''box:5031'', ra_user = ''al'', ra_path = ''/d'', ra_identityFile = [], ra_hostAlias = ''box''\<rparr>"
  have e: "sandboxPath (Some sample_ca) ''/d'' = Inr ''/d''" "is_directory (srv_os ls_srv) ''/d''" by code_simp+
  have p: "parseRemoteAddr sample_client ''al@box:/d'' (dec_int (lf_port ?fl)) sample_home = (Inr ?a, ?s1)"
    using sample_config_missing [of "''box''"] parse_format [of "''box''" "''/d''" sample_client "''al''" "''5031''" sample_home] port_text
    by (simp add: format_addr_def finish_addr_def ParseIP_ok_def JoinHostPort_def)
  obtain s2 where k: "clientSigner sample_client [] ?s1 = (Inr (sample_key_of (bytes_of ''k1'')), s2)" using sample_signer by blast
  have l: "newClient script_cbor sample_client (net_transport ls_net) ''box:5031'' ''al'' [] 1 0 False False (?s1, ls_link) = (Inr (?cc, nat 1), s2, ?lk)"
    using script_login [of lk_turn ls_link "\<lambda>lk. lk\<lparr>lk_turn := Suc (lk_turn lk)\<rparr>", OF _ _ k] by (simp add: ls_net_def ls_link_def numeral_2_eq_2 sample_client_def)
  have srv: "lk_srv ?lk = ls_srv" "srv_os ls_srv = glob_os" by (simp_all add: ls_link_def ls_srv_def newServer_def)
  have f: "faults glob_os = (\<lambda>_. None)" by (simp add: glob_os_def empty_os_def)
  have ok: "session_ok 7 sample_ca ?cc (lk_srv ?lk)" unfolding srv by (rule ls_session) (simp add: script_client_def fresh_client_def)
  obtain es lk' where es: "lsCmd script_cbor sample_client ls_net ls_sample_env ?fl [''al@box:/d''] (sample_home, ls_link)
      = (None, map (\<lambda>e. printEntry ls_sample_env e (lf_long ?fl) (lf_human ?fl)) es, s2, lk')" "mset es = mset (dir_entries glob_os ''/d'')"
    using lsCmd_lists_directory [of sample_client "''al@box:/d''" ?fl sample_home ?a ?s1 script_cbor ls_net ls_link ?cc "nat 1" s2 ?lk sample_env sample_rnd 7 sample_ca "''/d''" ls_sample_env "[]"]
      p l ok e f srv by (auto simp: ls_net_def)
  have "set es = set (dir_entries glob_os ''/d'')" using es(2) by (rule mset_eq_setD)
  moreover have "map (\<lambda>e. printEntry ls_sample_env e False False) (dir_entries glob_os ''/d'') = [''b'', ''a.c'']" by code_simp
  then have "(\<lambda>e. printEntry ls_sample_env e False False) ` set (dir_entries glob_os ''/d'') = set [''b'', ''a.c'']" by (metis set_map)
  ultimately show ?thesis using es(1) by auto
qed

end
