(* ===== verification/Mirror.thy ===== *)
theory Mirror
  imports Directories Ls
begin

text \<open>
  Recursive downloads (\<open>cpDirFromHost\<close>, \<open>walkRemoteDir\<close>). Paths below a directory are lists of names; the
  file tree of the server is what \<open>ReadDir\<close> lists, level by level.

  Shown: a recursive download that reports success has put every file of the remote tree, with its
  bytes, at the same place below the local target, and has changed no other local file.
\<close>

section \<open>Paths below a directory\<close>

declare Join.simps [simp del]

lemma elements_append: "elements (d @ CHR ''/'' # s) = elements d @ elements s"
proof -
  have "SplitChar (CHR ''/'') (d @ CHR ''/'' # s) = SplitChar (CHR ''/'') d @ SplitChar (CHR ''/'') s"
    by (induction d) (auto split: list.splits)
  then show ?thesis by (simp add: elements_def)
qed

lemma clean_stack_append: "clean_stack r st (xs @ ys) = clean_stack r (rev (clean_stack r st xs)) ys"
  by (induction r st xs rule: clean_stack.induct) (auto split: list.splits)

lemma clean_stack_snoc: "c \<noteq> ''..'' \<Longrightarrow> clean_stack r st (cs @ [c]) = clean_stack r st cs @ [c]"
  by (simp add: clean_stack_append)

lemma clean_stack_cancel: "t \<noteq> ''..'' \<Longrightarrow> clean_stack r st (xs @ t # ''..'' # cs) = clean_stack r st (xs @ cs)"
  by (simp add: clean_stack_append)

text \<open>Cleaning a relative path before it is appended to a rooted one makes no difference.\<close>

lemma clean_stack_flatten:
  "dots_first (rev st) \<Longrightarrow> clean_stack True s (clean_stack False st cs) = clean_stack True s (rev st @ cs)"
proof (induction cs arbitrary: st)
  case (Cons c cs)
  show ?case
  proof (cases "c = ''..'' \<and> st \<noteq> [] \<and> hd st \<noteq> ''..''")
    case True
    then obtain t ts where st: "st = t # ts" "t \<noteq> ''..''" "c = ''..''" by (cases st) auto
    then have "dots_first (rev ts)" using Cons.prems by (simp add: dots_first_append)
    then show ?thesis using Cons.IH [of ts] st clean_stack_cancel [OF st(2), of True s "rev ts" cs] by simp
  next
    case False
    have "dots_first (rev (c # st))"
      using Cons.prems False by (cases st) (auto simp: dots_first_append dots_first_append2)
    moreover have "clean_stack False st (c # cs) = clean_stack False (c # st) cs" using False by (cases st) auto
    ultimately show ?thesis using Cons.IH [of "c # st"] by simp
  qed
qed simp

lemma abs_clean_eqI: "abs_clean a \<Longrightarrow> abs_clean b \<Longrightarrow> clean_elements a = clean_elements b \<Longrightarrow> a = b"
  unfolding abs_clean_def Clean_def by metis

text \<open>A name that a directory entry can have.\<close>

definition entry_name :: "string \<Rightarrow> bool" where
  "entry_name n \<longleftrightarrow> element n \<and> n \<noteq> ''..''"

lemma entry_nameD: "entry_name n \<Longrightarrow> elements n = [n] \<and> \<not> IsAbs n \<and> n \<noteq> [] \<and> n \<noteq> ''..''"
  using elements_join [of "[n]"] by (cases n) (auto simp: entry_name_def element_def)

lemma Join_entry:
  assumes "entry_name n"
  shows "clean_elements (Join [t, n]) = clean_elements t @ [n] \<and> IsAbs (Join [t, n]) = IsAbs t \<and> Clean (Join [t, n]) = Join [t, n]
    \<and> Join [t, n] \<noteq> []"
proof -
  note n = entry_nameD [OF assms]
  have J: "Join [t, n] = Clean (if t = [] then n else t @ CHR ''/'' # n)" using n by (simp add: Join.simps)
  have "clean_elements (Join [t, n]) = clean_elements t @ [n]"
    unfolding J clean_elements_Clean using n by (auto simp: clean_elements_def elements_append clean_stack_snoc) (simp add: elements_def)+
  moreover have "IsAbs (Join [t, n]) = IsAbs t" unfolding J using n by simp
  moreover have "clean_elements [] = []" by (simp add: clean_elements_def elements_def)
  ultimately show ?thesis by (auto simp: J)
qed

lemma Join_entry_abs: "abs_clean t \<Longrightarrow> entry_name n \<Longrightarrow> abs_clean (Join [t, n])"
  using Join_entry [of n t] by (simp add: abs_clean_def)

definition descend :: "string \<Rightarrow> string list \<Rightarrow> string" where
  "descend d ns = foldl (\<lambda>p n. Join [p, n]) d ns"

lemma descend_simps [simp]: "descend d [] = d" "descend d (n # ns) = descend (Join [d, n]) ns"
  by (simp_all add: descend_def)

lemma descend_clean:
  "abs_clean d \<Longrightarrow> list_all entry_name ns \<Longrightarrow> abs_clean (descend d ns) \<and> clean_elements (descend d ns) = clean_elements d @ ns"
  by (induction ns arbitrary: d) (auto simp: Join_entry Join_entry_abs)

lemma descend_inj:
  assumes "abs_clean d" and "list_all entry_name ns" and "list_all entry_name ms"
  shows "descend d ns = descend d ms \<longleftrightarrow> ns = ms"
  using descend_clean [OF assms(1,2)] descend_clean [OF assms(1,3)] by (metis same_append_eq)

text \<open>\<open>Join\<close> in the form a client sees it and after it is resolved against the working directory.\<close>

lemma resolve_entry:
  assumes "IsAbs (cwd s)" and "entry_name n" and "t \<noteq> []"
  shows "resolve s (Join [t, n]) = Join [resolve s t, n]"
proof (cases "IsAbs t")
  case True
  then show ?thesis using Join_entry [OF assms(2), of t] Join_entry [OF assms(2), of "Clean t"]
    by (intro abs_clean_eqI) (auto simp: resolve_def abs_clean_def clean_elements_Clean)
next
  case False
  let ?r = "\<lambda>u. Clean (cwd s @ CHR ''/'' # u)"
  have c: "cwd s \<noteq> []" using assms(1) by auto
  have r: "resolve s t = ?r t" "resolve s (Join [t, n]) = ?r (Join [t, n])"
    using False c Join_entry [OF assms(2), of t] by (simp_all add: resolve_def Join.simps(2) [of "cwd s"])
  have "elements (Join [t, n]) = clean_elements t @ [n]" using elements_Clean [of "Join [t, n]"] Join_entry [OF assms(2), of t] by simp
  then have e: "elements (Join [t, n]) = clean_stack False [] (elements t @ [n])"
    using entry_nameD [OF assms(2)] False by (simp add: clean_stack_snoc clean_elements_def)
  have "clean_elements (?r (Join [t, n])) = clean_elements (?r t) @ [n]"
    using assms(1) c entry_nameD [OF assms(2)]
    by (simp add: clean_elements_Clean) (simp add: clean_elements_def elements_append e clean_stack_append clean_stack_flatten)
  then show ?thesis
    using Join_entry [OF assms(2), of "resolve s t"] assms(1) c unfolding r by (intro abs_clean_eqI) (auto simp: abs_clean_def)
qed

text \<open>The remote paths for which the client's \<open>Join\<close> and the server's resolution agree: the form \<open>~/\<close> is
  taken apart by the server only, so \<open>..\<close> must not cancel it and nothing else may turn into it.\<close>

definition plain_remote :: "string \<Rightarrow> bool" where
  "plain_remote src \<longleftrightarrow>
     IsAbs src \<or> (if HasPrefix src ''~/'' then ''..'' \<notin> set (elements src) else take 1 (clean_elements src) \<noteq> [''~''])"

lemma rooted_join: "IsAbs h \<Longrightarrow> abs_clean (Join [h, u]) \<and> clean_elements (Join [h, u]) = clean_stack True [] (elements h @ elements u)"
  using Join_abs [of "[h, u]"]
  by (cases "h = []") (auto simp: Join.simps clean_elements_Clean, simp add: clean_elements_def elements_append)

lemma Join_rel:
  assumes "entry_name n" and "\<not> IsAbs src"
  shows "Join [src, n] = join_slash (clean_elements src @ [n])" and "elements (Join [src, n]) = clean_elements src @ [n]"
proof -
  note j = Join_entry [OF assms(1), of src]
  show "Join [src, n] = join_slash (clean_elements src @ [n])" using j assms(2) by (metis Clean_def snoc_eq_iff_butlast)
  show "elements (Join [src, n]) = clean_elements src @ [n]" using elements_Clean [of "Join [src, n]"] j by simp
qed

lemma tilde_prefix:
  assumes "list_all element cs" and "cs \<noteq> []"
  shows "HasPrefix (join_slash cs) ''~/'' \<longleftrightarrow> hd cs = ''~'' \<and> tl cs \<noteq> []"
proof -
  obtain c ds where cs: "cs = c # ds" using assms(2) by (cases cs) auto
  have c: "c \<noteq> []" "CHR ''/'' \<notin> set c" using assms(1) cs by (auto simp: element_def)
  then obtain a as where a: "c = a # as" by (cases c) auto
  have "HasPrefix (c @ CHR ''/'' # t) ''~/'' \<longleftrightarrow> c = ''~''" for t
    using c a by (cases as) (auto simp: HasPrefix_def)
  moreover have "\<not> HasPrefix c ''~/''" using c a by (cases as) (auto simp: HasPrefix_def)
  ultimately show ?thesis unfolding cs by (cases ds) auto
qed

lemma sandbox_entry:
  assumes home: "IsAbs (ca_home ca)" and n: "entry_name n" "n \<noteq> ''~''" and src: "plain_remote src" "sandboxPath (Some ca) src = Inr p"
  shows "sandboxPath (Some ca) (Join [src, n]) = Inr (Join [p, n]) \<and> plain_remote (Join [src, n]) \<and> abs_clean p"
proof -
  note j = Join_entry [OF n(1), of src] and d = entry_nameD [OF n(1)]
  show ?thesis
  proof (cases "IsAbs src")
    case True
    then have p: "p = Clean src" using src(2) by (auto simp: sandboxPath_def HasPrefix_def IsAbs_hd split: if_splits) (cases src; auto)+
    have "\<not> HasPrefix (Join [src, n]) ''~/''" using j True by (cases "Join [src, n]") (auto simp: HasPrefix_def)
    moreover have "Join [src, n] = Join [p, n]"
      using j True Join_entry [OF n(1), of p] unfolding p by (intro abs_clean_eqI) (auto simp: abs_clean_def clean_elements_Clean)
    ultimately show ?thesis using j True p by (simp add: sandboxPath_def plain_remote_def abs_clean_def)
  next
    case rel: False
    note r = Join_rel [OF n(1) rel]
    have el: "list_all element (clean_elements src @ [n])" using n(1) by (simp add: entry_name_def)
    have both: "Join [ca_home ca, u] = Join [Join [ca_home ca, v], n]"
      if "clean_stack True s (elements u) = clean_stack True s (elements v @ [n])" "s = rev (clean_stack True [] (elements (ca_home ca)))" for u v s
      using rooted_join [OF home, of u] rooted_join [OF home, of v] Join_entry [OF n(1), of "Join [ca_home ca, v]"]
        Join_entry_abs [OF _ n(1), of "Join [ca_home ca, v]"] that d
      by (intro abs_clean_eqI) (simp_all add: clean_stack_append)
    show ?thesis
    proof (cases "HasPrefix src ''~/''")
      case True
      then have s: "src = ''~'' @ CHR ''/'' # drop 2 src" by (metis HasPrefix_def append.assoc append_Cons append_Nil append_take_drop_id length_Cons list.size(3) numeral_2_eq_2)
      have dots: "''..'' \<notin> set (elements src)" using src(1) rel True by (simp add: plain_remote_def)
      have es: "elements src = ''~'' # elements (drop 2 src)" by (subst s) (simp add: elements_append, simp add: elements_def)
      have ce: "clean_elements src = ''~'' # elements (drop 2 src)" using dots es rel by (simp add: clean_elements_def clean_stack_push)
      have J: "Join [src, n] = ''~/'' @ join_slash (elements (drop 2 src) @ [n])" unfolding r(1) ce by (cases "elements (drop 2 src)") simp_all
      have "elements (drop 2 (Join [src, n])) = elements (drop 2 src) @ [n]" unfolding J using el elements_join [of "elements (drop 2 src) @ [n]"] by simp
      then have "Join [ca_home ca, drop 2 (Join [src, n])] = Join [Join [ca_home ca, drop 2 src], n]" by (intro both) simp_all
      moreover have "HasPrefix (Join [src, n]) ''~/''" unfolding J by (simp add: HasPrefix_def)
      moreover have "''..'' \<notin> set (elements (Join [src, n]))" unfolding r(2) ce using dots es d by auto
      ultimately show ?thesis
        using src(2) True rooted_join [OF home, of "drop 2 src"] by (auto simp: sandboxPath_def plain_remote_def)
    next
      case False
      have h: "take 1 (clean_elements src) \<noteq> [''~'']" using src(1) rel False by (simp add: plain_remote_def)
      have "\<not> HasPrefix (Join [src, n]) ''~/''" unfolding r(1) using tilde_prefix [OF el] h by (cases "clean_elements src") auto
      moreover have "take 1 (clean_elements (Join [src, n])) \<noteq> [''~'']" using j h n(2) by (cases "clean_elements src") auto
      moreover have "Join [ca_home ca, Join [src, n]] = Join [Join [ca_home ca, src], n]"
        using rel d clean_stack_flatten [of "[]" _ "elements src @ [n]"]
        by (intro both [OF _ refl]) (simp add: r(2) clean_elements_def clean_stack_snoc)
      ultimately show ?thesis using src(2) False rel j rooted_join [OF home, of src] by (auto simp: sandboxPath_def plain_remote_def)
    qed
  qed
qed

section \<open>The tree of the server\<close>

text \<open>A file at the path \<open>ns\<close> below a directory: every name on the way is listed in a directory.\<close>

fun tree_file :: "os_state \<Rightarrow> string \<Rightarrow> string list \<Rightarrow> bytes \<Rightarrow> bool" where
  "tree_file s d [] data \<longleftrightarrow> file_data s d = Some data"
| "tree_file s d (n # ns) data \<longleftrightarrow> is_directory s d \<and> n \<in> entry_names s d \<and> tree_file s (Join [d, n]) ns data"

text \<open>No path is in the table twice, all are cleaned, and none ends in \<open>~\<close>.\<close>

definition plain_names :: "os_state \<Rightarrow> bool" where
  "plain_names s \<longleftrightarrow> distinct (map fst (names s)) \<and> (\<forall>(q, i) \<in> set (names s). abs_clean q \<and> Base q \<noteq> ''~'')"

lemma name_parts:
  assumes "abs_clean q" and "q \<noteq> ''/''"
  shows "entry_name (Base q) \<and> abs_clean (Dir q) \<and> q = Join [Dir q, Base q]"
proof -
  have q: "q = CHR ''/'' # join_slash (clean_elements q)" using assms(1) unfolding abs_clean_def Clean_def by metis
  have "clean_elements q \<noteq> []" using q assms(2) by auto
  then obtain cs c where cs: "clean_elements q = cs @ [c]" by (metis rev_exhaust)
  have c: "entry_name c" "CHR ''/'' \<notin> set c" "c \<noteq> []"
    using list_all_clean_elements [of q] clean_elements_no_dots [of q] assms(1) cs by (auto simp: entry_name_def element_def abs_clean_def)
  have j: "\<exists>d. join_slash (cs @ [c]) = d @ c \<and> (cs = [] \<longrightarrow> d = []) \<and> (cs \<noteq> [] \<longrightarrow> d = join_slash cs @ ''/'')"
    by (induction cs rule: join_slash.induct) (auto simp: append_eq_Cons_conv)
  define d where "d = (if cs = [] then [] else CHR ''/'' # join_slash cs)"
  have qd: "q = d @ CHR ''/'' # c" using j q cs by (auto simp: d_def)
  have B: "Base q = c" using Base_word(1) [OF c(2,3), of d] qd by simp
  have D: "Dir q = Clean (d @ ''/'')" unfolding qd by (rule Dir_word [OF c(2)])
  have "abs_clean (Dir q)" unfolding D by (rule abs_clean_Clean) (simp add: d_def)
  moreover have "clean_elements (Dir q) = cs"
    using list_all_clean_elements [of q] clean_elements_no_dots [of q] assms(1) cs elements_append [of d "[]"] elements_join [of cs]
    unfolding D clean_elements_Clean
    by (auto simp: clean_elements_def d_def abs_clean_def clean_stack_push elements_def)
  ultimately show ?thesis
    using B c(1) Join_entry [OF c(1), of "Dir q"] Join_entry_abs [OF _ c(1), of "Dir q"] assms(1) cs
    by (auto intro!: abs_clean_eqI [of q])
qed

lemma resolve_abs: "abs_clean p \<Longrightarrow> resolve s p = p \<and> p \<noteq> []"
  by (auto simp: resolve_def abs_clean_def)

text \<open>What the server says of an entry is true of the path below the directory.\<close>

lemma dir_entry_lookup:
  assumes "plain_names s" and "abs_clean d" and "e \<in> set (dir_entries s d)"
  shows "entry_name (de_Name e) \<and> de_Name e \<noteq> ''~'' \<and> (de_IsDir e \<longleftrightarrow> is_directory s (Join [d, de_Name e]))
    \<and> (\<not> de_IsDir e \<longrightarrow> file_data s (Join [d, de_Name e]) \<noteq> None)"
proof -
  obtain q i n where q: "(q, i) \<in> set (names s)" "q \<noteq> ''/''" "Dir q = d" "inodes s i = Some n" "e = dirEntry (info_of q n)"
    using assms(3) resolve_abs [OF assms(2)] by (auto simp: dir_entries_def map_filter_def children_def)
  have a: "abs_clean q" "Base q \<noteq> ''~''" "distinct (map fst (names s))" using assms(1) q(1) by (auto simp: plain_names_def)
  have e: "de_Name e = Base q" "de_IsDir e = i_dir n" using q(5) by (simp_all add: dirEntry_def info_of_def)
  have "lookup s q = Some (i, n)" using map_of_is_SomeI [OF a(3) q(1)] resolve_abs [OF a(1)] q(4) by (simp add: lookup_def)
  then show ?thesis using name_parts [OF a(1) q(2)] q(3) e a(2) by (auto simp: is_directory_def file_data_def)
qed

lemma entry_names_entries: "plain_names s \<Longrightarrow> abs_clean d \<Longrightarrow> n \<in> entry_names s d \<Longrightarrow> entry_name n \<and> n \<noteq> ''~''"
  using dir_entries_names [of s d, symmetric] by (auto dest: dir_entry_lookup)

lemma tree_file_names: "plain_names s \<Longrightarrow> abs_clean d \<Longrightarrow> tree_file s d ns data \<Longrightarrow> list_all entry_name ns"
proof (induction ns arbitrary: d)
  case (Cons n ns)
  then show ?case using entry_names_entries [of s d n] Join_entry_abs [of d n] by simp
qed simp

lemma tree_file_unique:
  "tree_file s d ns data \<Longrightarrow> tree_file s d ns data' \<Longrightarrow> data' = data"
  by (induction ns arbitrary: d) auto

section \<open>The remote side\<close>

text \<open>A session with a server that has the files of \<open>s\<close> and on which system calls do not fail, no resume state.\<close>

definition remote_ok :: "os_state \<Rightarrow> connid \<Rightarrow> connAuth \<Rightarrow> copierServer xfer \<Rightarrow> bool" where
  "remote_ok s conn ca x \<longleftrightarrow> session_ok conn ca (x_cc x) (x_net x) \<and> same_files s (srv_os (x_net x)) \<and> no_faults (srv_os (x_net x)) \<and> x_state x = None"

lemma remote_ok_local [simp]: "remote_ok s conn ca (x\<lparr>x_os := t\<rparr>) = remote_ok s conn ca x"
  by (simp add: remote_ok_def)

lemma remote_ok_client:
  assumes "remote_ok s conn ca x" and "on_client m x = (r, x')"
    and "\<And>cc w. m (x_cc x, x_net x) = (r, cc, w) \<Longrightarrow>
      session_ok conn ca cc w \<and> same_files (srv_os (x_net x)) (srv_os w) \<and> faults (srv_os w) = faults (srv_os (x_net x))"
  shows "remote_ok s conn ca x' \<and> x_os x' = x_os x"
proof -
  obtain cc w where c: "m (x_cc x, x_net x) = (r, cc, w)" "x' = x\<lparr>x_cc := cc, x_net := w\<rparr>" using on_client_simps [OF assms(2)] by blast
  then show ?thesis
    using assms(1) assms(3) [OF c(1)] same_files_trans [of s] by (auto simp: remote_ok_def no_faults_def)
qed

lemma remote_ok_stat:
  assumes "remote_ok s conn ca x" and "sandboxPath (Some ca) src = Inr p" and "on_client (cc_Stat (direct_call env rnd conn) src) x = (r, x')"
  shows "remote_ok s conn ca x' \<and> x_os x' = x_os x"
proof (rule remote_ok_client [OF assms(1,3)])
  fix cc w
  assume c: "cc_Stat (direct_call env rnd conn) src (x_cc x, x_net x) = (r, cc, w)"
  have ok: "session_ok conn ca (x_cc x) (x_net x)" using assms(1) by (simp add: remote_ok_def)
  show "session_ok conn ca cc w \<and> same_files (srv_os (x_net x)) (srv_os w) \<and> faults (srv_os w) = faults (srv_os (x_net x))"
    using cc_Stat_effect [OF ok assms(2) c] by simp
qed

lemma cc_Read_faults:
  assumes "session_ok conn ca cc srv" and "cc_Read (direct_call env rnd conn) target off sz algo (cc, srv) = (r, cc', srv')"
  shows "faults (srv_os srv') = faults (srv_os srv)"
  using assms(2)
  by (auto simp: handle_authed(3) [OF session_okD(3,4) [OF assms(1)]] srv_read_faults cc_Read_def request_def direct_call_def case_prod_beta Let_def split: list.splits)

lemma remote_ok_read:
  assumes "remote_ok s conn ca x" and "on_client (cc_Read (direct_call env rnd conn) src off sz algo) x = (r, x')"
  shows "remote_ok s conn ca x' \<and> x_os x' = x_os x"
proof (rule remote_ok_client [OF assms])
  fix cc w
  assume c: "cc_Read (direct_call env rnd conn) src off sz algo (x_cc x, x_net x) = (r, cc, w)"
  have ok: "session_ok conn ca (x_cc x) (x_net x)" using assms(1) by (simp add: remote_ok_def)
  show "session_ok conn ca cc w \<and> same_files (srv_os (x_net x)) (srv_os w) \<and> faults (srv_os w) = faults (srv_os (x_net x))"
    using cc_Read_session [OF ok c] cc_Read_faults [OF ok c] by simp
qed

lemma srv_hash_faults: "faults (srv_os (srv_hash conn req ca srv)) = faults (srv_os srv)"
proof -
  have g: "fc_get p False (get_cache srv) = (x, fc, s1) \<Longrightarrow> faults s1 = faults (srv_os srv)" for p x fc s1
    using fc_get_faults [of p False "srv_fdCache srv" "srv_os srv"] by (simp add: get_cache_def)
  have sk: "fd_Seek f s1 = (x, s2) \<Longrightarrow> faults s2 = faults s1" for f s1 x s2
    using faults_unchanged(7) [of f s1] by simp
  have rd: "os_ReadAll f s2 = (x, s3) \<Longrightarrow> faults s3 = faults s2" for f s2 x s3
    using faults_unchanged(9) [of f s2] by simp
  have ev: "faults (snd (fc_evict p (fc, t))) = faults t" for p fc t
    by (auto simp: fc_evict_def split: option.splits)
  show ?thesis
    by (auto simp: srv_hash_def hashFailed_def ev dest!: g sk rd split: sum.splits prod.splits option.splits)
qed

lemma remote_ok_hash:
  assumes "remote_ok s conn ca x" and "sandboxPath (Some ca) src = Inr p" and "on_client (cc_Hash (direct_call env rnd conn) src) x = (r, x')"
  shows "remote_ok s conn ca x' \<and> x_os x' = x_os x"
proof (rule remote_ok_client [OF assms(1,3)])
  fix cc w
  assume c: "cc_Hash (direct_call env rnd conn) src (x_cc x, x_net x) = (r, cc, w)"
  have ok: "session_ok conn ca (x_cc x) (x_net x)" using assms(1) by (simp add: remote_ok_def)
  have "faults (srv_os w) = faults (srv_os (x_net x))"
    using c by (auto simp: handle_authed(6) [OF session_okD(3,4) [OF ok]] srv_hash_faults cc_Hash_def request_def direct_call_def case_prod_beta Let_def split: list.splits)
  then show "session_ok conn ca cc w \<and> same_files (srv_os (x_net x)) (srv_os w) \<and> faults (srv_os w) = faults (srv_os (x_net x))"
    using cc_Hash_effect [OF ok assms(2) c] by simp
qed

lemma remote_ok_stat_attempts:
  assumes "remote_ok s conn ca x" and "sandboxPath (Some ca) src = Inr p"
    and "stat_attempts (direct_call env rnd conn) src n e res x = (r, x')"
  shows "remote_ok s conn ca x' \<and> x_os x' = x_os x"
  using assms(1,3)
proof (induction n arbitrary: e res x)
  case (Suc n)
  obtain h x1 where c: "on_client (cc_Stat (direct_call env rnd conn) src) x = (h, x1)" by (metis prod.exhaust)
  then show ?case using Suc remote_ok_stat [OF Suc.prems(1) assms(2) c] by (auto split: sum.splits MSG.splits if_splits)
qed simp

lemma remote_ok_read_attempts:
  assumes "remote_ok s conn ca x" and "read_attempts opts (direct_call env rnd conn) useChecksum src off sz n e res x = (r, x')"
  shows "remote_ok s conn ca x' \<and> x_os x' = x_os x"
  using assms
proof (induction n arbitrary: e res x)
  case (Suc n)
  obtain h x1 where c: "on_client (cc_Read (direct_call env rnd conn) src off sz (opt_compression opts)) x = (h, x1)" by (metis prod.exhaust)
  then show ?case using Suc remote_ok_read [OF Suc.prems(1) c] by (auto split: sum.splits MSG.splits if_splits)
qed simp

section \<open>The local side\<close>

text \<open>The files of \<open>s0\<close>, but for those at the absolute paths \<open>ts\<close>.\<close>

definition kept :: "string set \<Rightarrow> os_state \<Rightarrow> os_state \<Rightarrow> bool" where
  "kept ts s0 s \<longleftrightarrow> os_wf s \<and> coherent s \<and> cwd s = cwd s0 \<and> (\<forall>q. resolve s0 q \<notin> ts \<longrightarrow> file_data s q = file_data s0 q)"

lemma kept_trans:
  assumes "kept ts s0 s" and "kept us s t"
  shows "kept (ts \<union> us) s0 t"
  using assms resolve_cwd [of s s0] by (simp add: kept_def)

lemma kept_mono: "kept ts s0 s \<Longrightarrow> ts \<subseteq> us \<Longrightarrow> kept us s0 s"
  unfolding kept_def by blast

lemma kept_same: "kept ts s0 s \<Longrightarrow> same_files s t \<Longrightarrow> os_wf t \<Longrightarrow> coherent t \<Longrightarrow> kept ts s0 t"
  using same_files_data [of s t] by (simp add: kept_def same_files_def)

lemma kept_WriteAt:
  assumes k: "kept ts s0 s" and f: "fds s f = Some (p, i, w)" and t: "resolve s0 p \<in> ts" and wr: "os_WriteAt f d off s = (r, s')"
  shows "kept ts s0 s' \<and> fds s' = fds s"
proof -
  have wf: "os_wf s" "coherent s" "cwd s = cwd s0" using k by (simp_all add: kept_def)
  obtain n where n: "lookup s p = Some (i, n)" using wf(2) f unfolding coherent_def by blast
  have "lookup s' q = lookup s q" if "resolve s0 q \<notin> ts" for q
    using lookup_WriteAt_other [OF wf(1) f n wr] that t resolve_cwd [OF wf(3)] by metis
  moreover have "cwd s' = cwd s" using wr by (auto simp: os_WriteAt_def tick_def Let_def split: option.splits if_splits)
  moreover have "os_wf s'" "coherent s'" "fds s' = fds s"
    using os_wf_WriteAt [OF wf(1), of f d off] coherent_calls(7) [OF wf(2), of f d off] fds_unchanged(9) [of f d off s] wr by simp_all
  ultimately show ?thesis using k by (simp add: kept_def file_data_def)
qed

lemma kept_Chmod:
  assumes "kept ts s0 s" and "os_Chmod p m s = (r, s')"
  shows "kept ts s0 s' \<and> fds s' = fds s"
proof -
  have wf: "os_wf s" "coherent s" using assms(1) by (simp_all add: kept_def)
  have "grows s s'"
  proof (cases "r = None")
    case True
    then obtain i n where i: "lookup s p = Some (i, n)" using assms(2) by (auto simp: os_Chmod_def tick_def split: option.splits)
    show ?thesis
      by (rule grows_update [of _ _ i "n\<lparr>i_mode := Perm m\<rparr>" n])
         (use assms(2) i True lookup_inode [OF i] in \<open>auto simp: os_Chmod_def tick_def split: option.splits\<close>)
  next
    case False
    then show ?thesis using assms(2) by (intro same_files_grows) (auto simp: os_Chmod_def tick_def same_files_def split: option.splits)
  qed
  moreover have "fds s' = fds s" using fds_unchanged(4) [of p m s] assms(2) by simp
  moreover have "cwd s' = cwd s" using assms(2) by (auto simp: os_Chmod_def tick_def split: option.splits)
  ultimately show ?thesis
    using assms Chmod_data [of p m s] os_wf_Chmod [OF wf(1), of p m] coherent_unchanged [OF wf(2)] by (simp add: kept_def)
qed

lemma kept_MkdirAll:
  assumes "kept ts s0 s" and "os_MkdirAll p perm s = (r, s')"
  shows "kept ts s0 s'"
proof -
  have wf: "os_wf s" "coherent s" using assms(1) by (simp_all add: kept_def)
  have "cwd (snd (mkdir_list perm ps t)) = cwd t" for ps t
    by (induction perm ps t rule: mkdir_list.induct) (auto simp: tick_def add_inode_def split: option.splits)
  then have "cwd s' = cwd s" using assms(2) by (metis os_MkdirAll_def snd_conv)
  then show ?thesis
    using assms file_data_MkdirAll [OF wf(1), of p perm] os_wf_MkdirAll [OF wf(1), of p perm] coherent_calls(9) [OF wf(2,1), of p perm]
    by (simp add: kept_def)
qed

lemma kept_OpenFile:
  assumes k: "kept ts s0 s" and t: "resolve s0 p \<in> ts" and op: "os_OpenFile p fl perm s = (r, s')"
  shows "kept ts s0 s'"
proof -
  have wf: "os_wf s" "coherent s" "cwd s = cwd s0" using k by (simp_all add: kept_def)
  have "lookup s' q = lookup s q" if "resolve s0 q \<notin> ts" for q
    using lookup_OpenFile_other [OF wf(1) op] that t resolve_cwd [OF wf(3)] by metis
  moreover have "cwd s' = cwd s"
    using op by (auto simp: os_OpenFile_def tick_def Let_def open_ino_def add_inode_def split: option.splits if_splits)
  moreover have "os_wf s'" "coherent s'"
    using os_wf_OpenFile [OF wf(1), of p fl perm] coherent_OpenFile [OF wf(2,1), of p fl perm] op by simp_all
  ultimately show ?thesis using k by (simp add: kept_def file_data_def)
qed

section \<open>One file\<close>

text \<open>What every schedule of a download keeps: the remote side, and all local files but the target.\<close>

definition fetching ::
  "os_state \<Rightarrow> connid \<Rightarrow> connAuth \<Rightarrow> string \<Rightarrow> fd \<Rightarrow> os_state \<Rightarrow> copierServer xfer \<Rightarrow> bool" where
  "fetching s conn ca target tfd s0 x \<longleftrightarrow>
     remote_ok s conn ca x \<and> kept {resolve s0 target} s0 (x_os x) \<and> (\<exists>i. fds (x_os x) tfd = Some (target, i, True))"

lemma fetching_fn:
  assumes "fetching s conn ca target tfd s0 x"
  shows "fetching s conn ca target tfd s0 (snd (download_fn opts (direct_call env rnd conn) useChecksum tfd src off sz x))"
proof -
  obtain e v x1 where ra: "read_attempts opts (direct_call env rnd conn) useChecksum src off sz (attempts (opt_maxRetries opts)) None None x
      = ((e, v), x1)" by (metis prod.exhaust)
  have x1: "remote_ok s conn ca x1" "x_os x1 = x_os x" "fetching s conn ca target tfd s0 x1"
    using remote_ok_read_attempts [OF _ ra] assms by (auto simp: fetching_def)
  have w: "fetching s conn ca target tfd s0 (x1\<lparr>x_os := t\<rparr>)" if "os_WriteAt tfd d o' (x_os x1) = (r, t)" for d o' r t
    using kept_WriteAt [OF _ _ _ that, of "{resolve s0 target}" s0] x1 by (fastforce simp: fetching_def)
  have "snd (on_state (addCompletedOffset js off) (x1\<lparr>x_os := t\<rparr>)) = x1\<lparr>x_os := t\<rparr>" for js t
    using x1(1) by (simp add: remote_ok_def on_state_def addCompletedOffset_def)
  then show ?thesis
    using ra x1(3) w by (auto simp: download_fn_def split: option.splits sum.splits prod.splits)
qed

lemma fetching_flush: "fetching s conn ca target tfd s0 x \<Longrightarrow> flush_state opts x = x"
  by (simp add: fetching_def remote_ok_def flush_state_def on_state_def flushResumeState_def)

lemma kept_verify:
  assumes ok: "remote_ok s conn ca x" and path: "sandboxPath (Some ca) src = Inr p" and k: "kept ts s0 (x_os x)"
    and v: "verifyFileHash (direct_call env rnd conn) src target x = (r, x')"
  shows "remote_ok s conn ca x' \<and> kept ts s0 (x_os x')"
proof -
  obtain h x1 where c: "on_client (cc_Hash (direct_call env rnd conn) src) x = (h, x1)" by (metis prod.exhaust)
  have x1: "remote_ok s conn ca x1" "x_os x1 = x_os x" using remote_ok_hash [OF ok path c] by blast+
  have wf: "os_wf (x_os x)" "coherent (x_os x)" using k by (simp_all add: kept_def)
  have op: "kept ts s0 t" if "os_Open target (x_os x) = (q, t)" for q t
    using kept_same [OF k same_files_Open] that os_wf_OpenFile [OF wf(1)] coherent_OpenFile [OF wf(2,1)] unfolding os_Open_def by (metis snd_conv)
  have rd: "kept ts s0 (os_Close f u)" if "os_ReadAll f t = (b, u)" "kept ts s0 t" for f t b u
  proof (rule kept_same [OF that(2)])
    show "same_files t (os_Close f u)" using same_files_trans [OF same_files_ReadAll same_files_Close] that(1) by (metis snd_conv)
    show "os_wf (os_Close f u)" "coherent (os_Close f u)"
      using that os_wf_ReadAll [of t f] coherent_calls(6) [of t f] by (auto simp: kept_def intro!: os_wf_Close coherent_Close)
  qed
  show ?thesis
    using v c x1 k op rd by (auto simp: verifyFileHash_def split: sum.splits prod.splits MSG.splits if_splits)
qed

lemma downloadFile_keeps:
  assumes ok: "remote_ok s conn ca x" and k: "os_wf (x_os x)" "coherent (x_os x)" and path: "sandboxPath (Some ca) src = Inr p"
    and fresh: "file_data (x_os x) (stateFilePath (opt_tmpDir opts) src target) = None"
    and dl: "downloadFile opts (direct_call env rnd conn) src target batch useChecksum x None i x'"
  shows "remote_ok s conn ca x' \<and> kept {resolve (x_os x) target} (x_os x) (x_os x')"
proof -
  let ?s0 = "x_os x" and ?fn = "\<lambda>tfd. download_fn opts (direct_call env rnd conn) useChecksum tfd src"
  obtain tfd st x1 t where u: "download_begin opts (direct_call env rnd conn) src target batch x = (Inr (tfd, st), x1)"
    "(pool_step (nat batch) (opt_chunkSize opts) (isCompleted (x_state x1)) (?fn tfd) (flush_state opts))\<^sup>*\<^sup>* (pool_init (sres_Size st) 0 x1) t"
    "p_phase t = Returned None" "download_end opts (direct_call env rnd conn) src target st tfd (p_world t) = (None, x')"
    by (rule downloadFile_success [OF dl])
  let ?f = "fetching s conn ca target tfd ?s0"
  obtain x2 where sa: "stat_attempts (direct_call env rnd conn) src (attempts (opt_maxRetries opts)) None None x = ((None, Some st), x2)"
    and d: "download_open opts src target batch st x2 = (Inr (tfd, st), x1)"
    using u(1) by (auto simp: download_begin_def download_open_def split: prod.splits option.splits sum.splits)
  have x2: "remote_ok s conn ca x2" "x_os x2 = ?s0" using remote_ok_stat_attempts [OF ok path sa] by blast+
  let ?l = "loadResumeState (opt_json opts) (opt_tmpDir opts) src target (sres_Size st) (opt_chunkSize opts) batch ?s0"
  obtain s1 where l: "?l = (None, s1)" using load_fresh [OF fresh] by (metis prod.collapse)
  have "kept {resolve ?s0 target} ?s0 ?s0" using k by (simp add: kept_def)
  then have s1: "kept {resolve ?s0 target} ?s0 s1"
    using load_files [of ?s0] l k by (metis kept_same snd_conv)
  obtain s2 where op: "os_OpenFile target O_CREATE_TRUNC (Perm (sres_Mode st)) s1 = (Inr tfd, s2)" "x1 = x2\<lparr>x_os := s2, x_state := None\<rparr>"
    using d l x2(2) by (auto simp: download_open_def open_target_def split: prod.splits sum.splits)
  obtain i' n where "fds s2 tfd = Some (target, i', True)" by (rule OpenFile_lookup [OF op(1)]) (auto simp: O_CREATE_TRUNC_def)
  then have "?f x1" using kept_OpenFile [OF s1 _ op(1)] x2(1) op(2) by (auto simp: fetching_def remote_ok_def)
  then have w: "?f (p_world t)"
    by (intro pool_world_inv [where I = ?f, OF u(2)]) (simp_all add: fetching_fn fetching_flush)
  let ?w = "p_world t"
  obtain s3 where c: "os_Chmod target (Perm (sres_Mode st)) (x_os ?w) = (None, s3)"
    using u(4) by (auto simp: download_end_def split: prod.splits option.splits)
  have s3: "kept {resolve ?s0 target} ?s0 s3" using kept_Chmod [OF _ c] w by (auto simp: fetching_def)
  obtain x3 where x3: "(if opt_sha256 opts then verifyFileHash (direct_call env rnd conn) src target (?w\<lparr>x_os := s3\<rparr>) else (None, ?w\<lparr>x_os := s3\<rparr>)) = (None, x3)"
      "x' = x3\<lparr>x_os := os_Close tfd (deleteResumeState (x_state x3) (x_os x3))\<rparr>"
    using u(4) c by (auto simp: download_end_def split: prod.splits option.splits)
  have v: "remote_ok s conn ca x3 \<and> kept {resolve ?s0 target} ?s0 (x_os x3)"
    using x3(1) kept_verify [OF _ path, of s conn "?w\<lparr>x_os := s3\<rparr>" "{resolve ?s0 target}" ?s0 env rnd target] w s3
    by (cases "opt_sha256 opts") (auto simp: fetching_def)
  then have "kept {resolve ?s0 target} ?s0 (os_Close tfd (x_os x3))"
    by (intro kept_same [OF conjunct2 [OF v] same_files_Close]) (auto simp: kept_def intro!: os_wf_Close coherent_Close)
  then show ?thesis using v x3(2) by (simp add: remote_ok_def deleteResumeState_def)
qed

section \<open>The tree, level by level\<close>

text \<open>The places below \<open>t\<close> of the files that the entries \<open>N\<close> of the remote directory \<open>d\<close> stand for.\<close>

definition places :: "os_state \<Rightarrow> string \<Rightarrow> string \<Rightarrow> string set \<Rightarrow> string set" where
  "places s d t N = {descend t (n # ns) |n ns data. n \<in> N \<and> tree_file s d (n # ns) data}"

lemma placesI: "n \<in> N \<Longrightarrow> tree_file s d (n # ns) data \<Longrightarrow> descend t (n # ns) \<in> places s d t N"
  unfolding places_def by blast

lemma placesE:
  assumes "q \<in> places s d t N"
  obtains n ns data where "n \<in> N" "tree_file s d (n # ns) data" "q = descend t (n # ns)"
  using assms unfolding places_def by blast

text \<open>From \<open>s0\<close> to \<open>s1\<close> the files of these entries have come to their places, and nothing else has changed.\<close>

definition mirrors :: "os_state \<Rightarrow> string \<Rightarrow> string \<Rightarrow> string set \<Rightarrow> os_state \<Rightarrow> os_state \<Rightarrow> bool" where
  "mirrors s d t N s0 s1 \<longleftrightarrow> kept (places s d t N) s0 s1
     \<and> (\<forall>n \<in> N. \<forall>ns data. tree_file s d (n # ns) data \<longrightarrow> file_data s1 (descend t (n # ns)) = Some data)"

lemma mirrors_empty: "os_wf s0 \<Longrightarrow> coherent s0 \<Longrightarrow> mirrors s d t {} s0 s0"
  by (simp add: mirrors_def kept_def)

lemma kept_file: "kept ts s0 s1 \<Longrightarrow> abs_clean q \<Longrightarrow> q \<notin> ts \<Longrightarrow> file_data s1 q = file_data s0 q"
  using resolve_abs by (simp add: kept_def)

lemma mirrors_append:
  assumes p: "plain_names s" "abs_clean d" "abs_clean t" and m: "mirrors s d t N s0 s1" "mirrors s d t M s1 s2"
  shows "mirrors s d t (N \<union> M) s0 s2"
proof -
  have "places s d t N \<union> places s d t M = places s d t (N \<union> M)" by (auto simp: places_def)
  then have "kept (places s d t (N \<union> M)) s0 s2" using kept_trans m by (metis mirrors_def)
  moreover have "file_data s2 (descend t (n # ns)) = Some data" if n: "n \<in> N \<union> M" and f: "tree_file s d (n # ns) data" for n ns data
  proof (cases "descend t (n # ns) \<in> places s d t M")
    case True
    then obtain m ms data' where g: "m \<in> M" "tree_file s d (m # ms) data'" "descend t (n # ns) = descend t (m # ms)" by (rule placesE)
    then have "n # ns = m # ms" using descend_inj [OF p(3)] tree_file_names [OF p(1,2)] f by metis
    then show ?thesis using m(2) g(1) f by (simp add: mirrors_def)
  next
    case False
    then have "n \<notin> M" using f placesI by blast
    moreover have "abs_clean (descend t (n # ns))" using descend_clean [OF p(3)] tree_file_names [OF p(1,2) f] by blast
    ultimately show ?thesis using kept_file [OF _ _ False] m n f by (auto simp: mirrors_def)
  qed
  ultimately show ?thesis by (simp add: mirrors_def)
qed

lemma mirrors_dir:
  assumes "is_directory s d" and "n \<in> entry_names s d" and "is_directory s (Join [d, n])"
    and m: "mirrors s (Join [d, n]) (Join [t, n]) (entry_names s (Join [d, n])) s0 s1"
  shows "mirrors s d t {n} s0 s1"
proof -
  have below: "\<exists>m ms. ns = m # ms \<and> m \<in> entry_names s (Join [d, n])" if "tree_file s (Join [d, n]) ns data" for ns data
    using that assms(3) by (cases ns) (auto simp: file_data_def is_directory_def split: option.splits)
  have "places s (Join [d, n]) (Join [t, n]) (entry_names s (Join [d, n])) \<subseteq> places s d t {n}"
  proof
    fix q
    assume "q \<in> places s (Join [d, n]) (Join [t, n]) (entry_names s (Join [d, n]))"
    then obtain m ms data where "tree_file s (Join [d, n]) (m # ms) data" "q = descend (Join [t, n]) (m # ms)" by (rule placesE)
    then show "q \<in> places s d t {n}" using assms(1,2) placesI [of n "{n}" s d "m # ms" data t] by simp
  qed
  then have "kept (places s d t {n}) s0 s1" by (rule kept_mono [rotated]) (use m in \<open>simp add: mirrors_def\<close>)
  moreover have "file_data s1 (descend t (n # ns)) = Some data" if f: "tree_file s d (n # ns) data" for ns data
    using m below [of ns data] f by (auto simp: mirrors_def)
  ultimately show ?thesis by (simp add: mirrors_def)
qed

lemma mirrors_file:
  assumes "is_directory s d" and "n \<in> entry_names s d" and "file_data s (Join [d, n]) = Some data"
    and "kept {Join [t, n]} s0 s1" and "file_data s1 (Join [t, n]) = Some data"
  shows "mirrors s d t {n} s0 s1"
proof -
  have nd: "\<not> is_directory s (Join [d, n])" using assms(3) by (auto simp: file_data_def is_directory_def split: option.splits)
  have "tree_file s d [n] data" using assms(1-3) by simp
  then have "Join [t, n] \<in> places s d t {n}" using placesI [of n "{n}" s d "[]" data t] by simp
  then have "kept (places s d t {n}) s0 s1" using kept_mono [OF assms(4)] by simp
  moreover have "file_data s1 (descend t (n # ns)) = Some data'" if "tree_file s d (n # ns) data'" for ns data'
    using that nd assms(3,5) by (cases ns) auto
  ultimately show ?thesis by (simp add: mirrors_def)
qed

section \<open>The walk\<close>

definition mirror_setup ::
  "options \<Rightarrow> ('pk, 'sig) server_env \<Rightarrow> (nat \<Rightarrow> goerror + bytes) \<Rightarrow> connAuth \<Rightarrow> os_state \<Rightarrow> bool" where
  "mirror_setup opts env rnd ca s \<longleftrightarrow>
     opt_codec opts = env_codec env \<and> codec_ok (env_codec env) rnd \<and> 0 \<le> opt_maxRetries opts \<and> 0 < opt_chunkSize opts
   \<and> IsAbs (opt_tmpDir opts) \<and> IsAbs (ca_home ca) \<and> plain_names s
   \<and> (\<forall>q data. file_data s q = Some data \<longrightarrow> int (length data) \<le> maxAlloc)"

text \<open>No resume state is on disk, and no download goes where one would be.\<close>

definition fresh_target :: "string \<Rightarrow> string \<Rightarrow> os_state \<Rightarrow> bool" where
  "fresh_target tmpDir target s \<longleftrightarrow> os_wf s \<and> coherent s \<and> target \<noteq> [] \<and> (\<forall>a b. file_data s (stateFilePath tmpDir a b) = None)
   \<and> (\<forall>a b ns. list_all entry_name ns \<longrightarrow> descend (resolve s target) ns \<noteq> stateFilePath tmpDir a b)"

lemma fresh_target_entry:
  assumes "fresh_target tmpDir target s" and "entry_name n"
  shows "fresh_target tmpDir (Join [target, n]) s \<and> resolve s (Join [target, n]) = Join [resolve s target, n]"
proof -
  have r: "resolve s (Join [target, n]) = Join [resolve s target, n]"
    using assms by (intro resolve_entry) (auto simp: fresh_target_def os_wf_def)
  have "descend (Join [resolve s target, n]) ns \<noteq> stateFilePath tmpDir a b" if "list_all entry_name ns" for ns a b
    using assms that descend_simps(2) [of "resolve s target" n ns] unfolding fresh_target_def by (metis list.pred_inject(2))
  then show ?thesis using assms Join_entry [OF assms(2), of target] r by (simp add: fresh_target_def)
qed

lemma fresh_target_mirrors:
  assumes f: "fresh_target tmpDir target s0" and tmp: "IsAbs tmpDir" and p: "plain_names s" "abs_clean d" and m: "mirrors s d (resolve s0 target) N s0 s1"
  shows "fresh_target tmpDir target s1 \<and> resolve s1 target = resolve s0 target"
proof -
  have k: "kept (places s d (resolve s0 target) N) s0 s1" using m by (simp add: mirrors_def)
  have r: "resolve s1 target = resolve s0 target" using k by (intro resolve_cwd) (simp add: kept_def)
  have "stateFilePath tmpDir a b \<notin> places s d (resolve s0 target) N" for a b
    using f tree_file_names [OF p] unfolding fresh_target_def by (metis placesE)
  then have "file_data s1 (stateFilePath tmpDir a b) = None" for a b
    using kept_file [OF k stateFilePath_abs [OF tmp]] f by (simp add: fresh_target_def)
  then show ?thesis using f k r by (simp add: fresh_target_def kept_def)
qed

lemma list_remote_listed:
  assumes ok: "remote_ok s conn ca x" and path: "sandboxPath (Some ca) src = Inr d" and dir: "is_directory s d"
    and k: "os_wf (x_os x)" "coherent (x_os x)" and l: "list_remote (direct_call env rnd conn) src target x = (Inr es, x1)"
  shows "remote_ok s conn ca x1 \<and> kept {} (x_os x) (x_os x1) \<and> set es = set (dir_entries s d)"
proof -
  obtain s1 where m: "os_MkdirAll target 493 (x_os x) = (None, s1)" using l by (auto simp: list_remote_def split: prod.splits option.splits)
  have k0: "kept {} (x_os x) (x_os x)" using k by (simp add: kept_def)
  have k1: "kept {} (x_os x) s1" by (rule kept_MkdirAll [OF k0 m])
  obtain sr x2 where st: "on_client (cc_Stat (direct_call env rnd conn) src) (x\<lparr>x_os := s1\<rparr>) = (sr, x2)" by (metis prod.exhaust)
  have x2: "remote_ok s conn ca x2" "x_os x2 = s1" using remote_ok_stat [OF _ path st] ok by auto
  obtain sres q s2 where sr: "sr = Inr (MStatRes sres, q)"
    "(if sres_Success sres then os_Chmod target (Perm (sres_Mode sres)) (x_os x2) else (None, x_os x2)) = (None, s2)"
    using l m st by (auto simp: list_remote_def split: prod.splits option.splits sum.splits MSG.splits)
  have k2: "kept {} (x_os x) s2" using sr(2) x2(2) k1 kept_Chmod [OF k1] by (auto split: if_splits)
  obtain rd x3 where r: "on_client (cc_ReadDir (direct_call env rnd conn) src) (x2\<lparr>x_os := s2\<rparr>) = (rd, x3)" by (metis prod.exhaust)
  let ?y = "x2\<lparr>x_os := s2\<rparr>"
  have y: "session_ok conn ca (x_cc ?y) (x_net ?y)" "same_files s (srv_os (x_net ?y))" "faults (srv_os (x_net ?y)) = (\<lambda>_. None)"
    using x2(1) by (auto simp: remote_ok_def no_faults_def)
  have dir': "is_directory (srv_os (x_net ?y)) d" using dir same_files_lookup [OF y(2)] by (simp add: is_directory_def)
  note eff = cc_ReadDir_effect [OF y(1) path y(3) dir', of env rnd]
  have x3: "remote_ok s conn ca x3 \<and> x_os x3 = x_os ?y" by (rule remote_ok_client [OF _ r]) (use x2(1) in simp, drule eff, simp)
  obtain cc w where "cc_ReadDir (direct_call env rnd conn) src (x_cc ?y, x_net ?y) = (rd, cc, w)" using on_client_simps [OF r] by blast
  then obtain res where res: "rd = Inr (MReadDirRes res, [])" "dres_Success res" "mset (dres_Entries res) = mset (dir_entries s d)"
    using eff dir_entries_same [OF y(2)] by metis
  have "es = dres_Entries res" "x1 = x3" using l m st sr r res(1,2) by (auto simp: list_remote_def split: if_splits)
  then show ?thesis using x3 k2 mset_eq_setD [OF res(3)] by simp
qed

text \<open>What is promised of an entry, of a list of entries, and of a directory.\<close>

definition walked ::
  "os_state \<Rightarrow> connid \<Rightarrow> connAuth \<Rightarrow> string \<Rightarrow> string \<Rightarrow> string set \<Rightarrow> copierServer xfer \<Rightarrow> copierServer xfer \<Rightarrow> bool" where
  "walked s conn ca d target N x x' \<longleftrightarrow> remote_ok s conn ca x' \<and> mirrors s d (resolve (x_os x) target) N (x_os x) (x_os x')"

lemma entry_file:
  assumes set: "mirror_setup opts env rnd ca s" and ok: "remote_ok s conn ca x" and fr: "fresh_target (opt_tmpDir opts) target (x_os x)"
    and src: "sandboxPath (Some ca) src = Inr d" "plain_remote src" and e: "is_directory s d" "e \<in> set (dir_entries s d)" "\<not> de_IsDir e"
    and dl: "downloadFile opts (direct_call env rnd conn) (Join [src, de_Name e]) (Join [target, de_Name e]) batch useChecksum x None False x1"
    and md: "entry_mode e (Join [target, de_Name e]) x1 = (None, x2)"
  shows "walked s conn ca d target {de_Name e} x x2"
proof -
  let ?n = "de_Name e" and ?t = "resolve (x_os x) target"
  have home: "IsAbs (ca_home ca)" and pn: "plain_names s" using set by (simp_all add: mirror_setup_def)
  have d: "abs_clean d" using sandbox_entry [OF home _ _ src(2,1), of "''a''"] by (simp add: entry_name_def element_def)
  obtain data where n: "entry_name ?n" "?n \<noteq> ''~''" "file_data s (Join [d, ?n]) = Some data" "?n \<in> entry_names s d"
    using dir_entry_lookup [OF pn d e(2)] e(2,3) dir_entries_names [of s d] by blast
  have p: "sandboxPath (Some ca) (Join [src, ?n]) = Inr (Join [d, ?n])" using sandbox_entry [OF home n(1,2) src(2,1)] by blast
  note f = fresh_target_entry [OF fr n(1)]
  have l: "os_wf (x_os x)" "coherent (x_os x)" "\<And>a b. file_data (x_os x) (stateFilePath (opt_tmpDir opts) a b) = None"
    using fr by (simp_all add: fresh_target_def)
  have "download_ready opts env rnd conn ca (Join [src, ?n]) (Join [d, ?n]) (Join [target, ?n]) data x"
    using set ok p n(3) l same_files_data [of s "srv_os (x_net x)"] by (simp add: download_ready_def mirror_setup_def remote_ok_def)
  then have dat: "file_data (x_os x1) (Join [target, ?n]) = Some data" by (rule downloadFile_data [OF _ dl])
  have k: "remote_ok s conn ca x1" "kept {Join [?t, ?n]} (x_os x) (x_os x1)"
    using downloadFile_keeps [OF ok l(1,2) p l(3) dl] f by simp_all
  have x2: "remote_ok s conn ca x2" "kept {Join [?t, ?n]} (x_os x) (x_os x2)" "file_data (x_os x2) q = file_data (x_os x1) q" for q
    using md k kept_Chmod [OF k(2)] Chmod_data [of "Join [target, ?n]" "Perm (de_Mode e)" "x_os x1"]
    by (auto simp: entry_mode_def split: if_splits prod.splits)
  have "resolve (x_os x2) (Join [target, ?n]) = Join [?t, ?n]"
    using f x2(2) resolve_cwd [of "x_os x2" "x_os x"] by (simp add: kept_def)
  then have "file_data (x_os x2) (Join [?t, ?n]) = Some data"
    using dat x2(2,3) lookup_resolve [of "x_os x2" "Join [target, ?n]"] Join_entry [OF n(1), of target] by (simp add: file_data_def kept_def)
  then show ?thesis unfolding walked_def using x2(1) mirrors_file [OF e(1) n(4,3) x2(2)] by simp
qed

lemma walked_append:
  assumes set: "mirror_setup opts env rnd ca s" and fr: "fresh_target (opt_tmpDir opts) target (x_os x)" and d: "abs_clean d"
    and w: "walked s conn ca d target N x x1" "walked s conn ca d target M x1 x2"
  shows "walked s conn ca d target (N \<union> M) x x2"
proof -
  have s: "plain_names s" "IsAbs (opt_tmpDir opts)" using set by (simp_all add: mirror_setup_def)
  have m: "mirrors s d (resolve (x_os x) target) N (x_os x) (x_os x1)" using w(1) by (simp add: walked_def)
  have r: "resolve (x_os x1) target = resolve (x_os x) target" using fresh_target_mirrors [OF fr s(2,1) d m] by simp
  have t: "abs_clean (resolve (x_os x) target)" using fr by (intro resolve_abs_clean) (simp add: fresh_target_def)
  show ?thesis using w(2) mirrors_append [OF s(1) d t m] r by (simp add: walked_def)
qed

lemma walked_fresh:
  assumes "mirror_setup opts env rnd ca s" and "fresh_target (opt_tmpDir opts) target (x_os x)" and "abs_clean d"
    and "walked s conn ca d target N x x1"
  shows "remote_ok s conn ca x1 \<and> fresh_target (opt_tmpDir opts) target (x_os x1)"
  using fresh_target_mirrors [OF assms(2) _ _ assms(3), of s N "x_os x1"] assms(1,4) by (simp add: walked_def mirror_setup_def)

lemma plain_remote_abs:
  assumes "mirror_setup opts env rnd ca s" and "sandboxPath (Some ca) src = Inr d" and "plain_remote src"
  shows "abs_clean d"
  using sandbox_entry [OF _ _ _ assms(3,2), of "''a''"] assms(1) by (simp add: entry_name_def element_def mirror_setup_def)

lemma walk_mirrors:
  assumes set: "mirror_setup opts env rnd ca s"
  shows "walkRemoteDir opts (direct_call env rnd conn) batch useChecksum src target x r i x' \<Longrightarrow> r = None \<Longrightarrow> \<not> i \<Longrightarrow>
      remote_ok s conn ca x \<Longrightarrow> fresh_target (opt_tmpDir opts) target (x_os x) \<Longrightarrow> plain_remote src \<Longrightarrow>
      sandboxPath (Some ca) src = Inr d \<Longrightarrow> is_directory s d \<Longrightarrow> walked s conn ca d target (entry_names s d) x x'"
    and "remote_entries opts (direct_call env rnd conn) batch useChecksum src target es x r i x' \<Longrightarrow> r = None \<Longrightarrow> \<not> i \<Longrightarrow>
      remote_ok s conn ca x \<Longrightarrow> fresh_target (opt_tmpDir opts) target (x_os x) \<Longrightarrow> plain_remote src \<Longrightarrow>
      sandboxPath (Some ca) src = Inr d \<Longrightarrow> is_directory s d \<Longrightarrow> set es \<subseteq> set (dir_entries s d) \<Longrightarrow>
      walked s conn ca d target (de_Name ` set es) x x'"
proof (induction arbitrary: d and d rule: walkRemoteDir_remote_entries.inducts)
  case (listed src target x es x1 r i x')
  have k: "os_wf (x_os x)" "coherent (x_os x)" "IsAbs (opt_tmpDir opts)" "plain_names s"
    using listed.prems(4) set by (simp_all add: fresh_target_def mirror_setup_def)
  note d = plain_remote_abs [OF set listed.prems(6,5)]
  note l = list_remote_listed [OF listed.prems(3,6,7) k(1,2) listed.IH(1)]
  have none: "walked s conn ca d target {} x x1" using l by (simp add: walked_def mirrors_def places_def)
  have "walked s conn ca d target (de_Name ` set es) x1 x'"
    using walked_fresh [OF set listed.prems(4) d none] l listed.prems by (intro listed.IH(3)) simp_all
  then show ?case using walked_append [OF set listed.prems(4) d none] l dir_entries_names [of s d] by simp
next
  case (entries_end src target x)
  then show ?case by (simp add: walked_def fresh_target_def mirrors_empty)
next
  case (entries_dir e src target x i1 x1 es r i2 x')
  note d = plain_remote_abs [OF set entries_dir.prems(6,5)]
  have home: "IsAbs (ca_home ca)" and pn: "plain_names s" using set by (simp_all add: mirror_setup_def)
  have n: "entry_name (de_Name e)" "de_Name e \<noteq> ''~''" "is_directory s (Join [d, de_Name e])" "de_Name e \<in> entry_names s d"
    using dir_entry_lookup [OF pn d, of e] dir_entries_names [of s d] entries_dir.prems(8) entries_dir(1) by auto
  note p = sandbox_entry [OF home n(1,2) entries_dir.prems(5,6)] and f = fresh_target_entry [OF entries_dir.prems(4) n(1)]
  have "walked s conn ca (Join [d, de_Name e]) (Join [target, de_Name e]) (entry_names s (Join [d, de_Name e])) x x1"
    using entries_dir.prems p f n(3) by (intro entries_dir(3)) simp_all
  then have w: "walked s conn ca d target {de_Name e} x x1"
    using mirrors_dir [OF entries_dir.prems(7) n(4,3)] f by (simp add: walked_def)
  have "walked s conn ca d target (de_Name ` set es) x1 x'"
    using walked_fresh [OF set entries_dir.prems(4) d w] entries_dir.prems by (intro entries_dir(5)) simp_all
  from walked_append [OF set entries_dir.prems(4) d w this] show ?case by simp
next
  case (entries_file e src target x i1 x1 x2 es r i2 x')
  note d = plain_remote_abs [OF set entries_file.prems(6,5)]
  have w: "walked s conn ca d target {de_Name e} x x2"
    using entries_file.prems entries_file(1-3) by (intro entry_file [OF set, of conn x target src d e]) simp_all
  have "walked s conn ca d target (de_Name ` set es) x2 x'"
    using walked_fresh [OF set entries_file.prems(4) d w] entries_file.prems by (intro entries_file(5)) simp_all
  from walked_append [OF set entries_file.prems(4) d w this] show ?case by simp
qed simp_all

section \<open>A concrete walk\<close>

text \<open>A server with the directory \<open>/d\<close> and the file \<open>/d/a\<close>, an empty local disk, no comparison of hashes.\<close>

definition tree_opts :: options where "tree_opts = sample_opts\<lparr>opt_sha256 := False\<rparr>"

definition tree_x :: "copierServer xfer" where
  "tree_x = remote_x0\<lparr>x_net := (newServer dir_os)\<lparr>srv_ctx := [7 \<mapsto> sample_ca]\<rparr>\<rparr>"

definition tree_x1 :: "copierServer xfer" where "tree_x1 = snd (list_remote sample_call ''d'' ''/g'' tree_x)"

definition tree_entry :: DirEntry where "tree_entry = dirEntry file_info"

definition tree_stat :: StatRes where
  "tree_stat = \<lparr>sres_ID = 3, sres_Success = True, sres_Size = 1, sres_Mode = 420, sres_IsDir = False, sres_Error = []\<rparr>"

definition tree_x2 :: "copierServer xfer" where "tree_x2 = snd (stat_attempts sample_call ''d/a'' 2 None None tree_x1)"

definition tree_x3 :: "copierServer xfer" where
  "tree_x3 = snd (open_target ''/g/a'' O_CREATE_TRUNC 420 (tree_x2\<lparr>x_os := (x_os tree_x1)\<lparr>ticks := Suc (ticks (x_os tree_x1))\<rparr>, x_state := None\<rparr>))"

definition tree_x4 :: "copierServer xfer" where
  "tree_x4 = the (run_chunks (download_fn tree_opts sample_call False 0 ''d/a'') [(0, 1)] tree_x3)"

definition tree_x5 :: "copierServer xfer" where "tree_x5 = snd (download_end tree_opts sample_call ''d/a'' ''/g/a'' tree_stat 0 tree_x4)"

definition tree_x6 :: "copierServer xfer" where "tree_x6 = snd (entry_mode tree_entry ''/g/a'' tree_x5)"

lemma tree_steps:
  "fst (list_remote sample_call ''d'' ''/g'' tree_x) = Inr [tree_entry]" "de_Name tree_entry = ''a''" "\<not> de_IsDir tree_entry"
  "Join [''d'', ''a''] = ''d/a''" "Join [''/g'', ''a''] = ''/g/a''" "Join [''/d'', ''a''] = ''/d/a''"
  "fst (stat_attempts sample_call ''d/a'' 2 None None tree_x1) = (None, Some tree_stat)"
  "faults (x_os tree_x1) (ticks (x_os tree_x1)) = None" "map fst (names (x_os tree_x1)) = [''/g'', ''/'']"
  "Option.is_none (x_state tree_x3)"
  by code_simp+

lemma tree_steps2:
  "fst (open_target ''/g/a'' O_CREATE_TRUNC 420 (tree_x2\<lparr>x_os := (x_os tree_x1)\<lparr>ticks := Suc (ticks (x_os tree_x1))\<rparr>, x_state := None\<rparr>)) = Inr 0"
  "\<not> Option.is_none (run_chunks (download_fn tree_opts sample_call False 0 ''d/a'') [(0, 1)] tree_x3)"
  "fst (download_end tree_opts sample_call ''d/a'' ''/g/a'' tree_stat 0 tree_x4) = None"
  "fst (entry_mode tree_entry ''/g/a'' tree_x5) = None" "Option.is_none (x_state tree_x4)"
  "sandboxPath (Some sample_ca) ''d'' = Inr ''/d''" "sandboxPath (Some sample_ca) ''d/a'' = Inr ''/d/a''"
  "plain_remote ''d''" "is_directory dir_os ''/d''" "file_data dir_os ''/d/a'' = Some [5]"
  by code_simp+

lemma tree_os: "os_wf dir_os" "fds dir_os = Map.empty" "coherent dir_os" "no_faults dir_os" "plain_names dir_os"
  "file_data dir_os q = Some data \<Longrightarrow> int (length data) \<le> maxAlloc" "entry_names dir_os ''/d'' = {''a''}"
proof -
  show "os_wf dir_os" "fds dir_os = Map.empty" "no_faults dir_os" by (auto simp: os_wf_def dir_os_def empty_os_def no_faults_def)
  then show "coherent dir_os" by (intro coherent_no_handles)
  have "list_all (\<lambda>(q, i). abs_clean q \<and> Base q \<noteq> ''~'') (names dir_os)" "distinct (map fst (names dir_os))" by code_simp+
  then show "plain_names dir_os" by (simp add: plain_names_def list_all_iff)
  show "int (length data) \<le> maxAlloc" if "file_data dir_os q = Some data"
    using that by (auto simp: file_data_def lookup_def dir_os_def maxAlloc_def split: if_splits option.splits)
  have e: "Dir ''/d'' = ''/''" "Dir ''/d/a'' = ''/d''" "Base ''/d/a'' = ''a''" "resolve dir_os ''/d'' = ''/d''" by code_simp+
  show "entry_names dir_os ''/d'' = {''a''}"
    unfolding entry_names_def e(4) by (auto simp: dir_os_def e intro!: exI [of _ "''/d/a''"] exI [of _ "2 :: nat"])
qed

lemma tree_ready:
  "mirror_setup tree_opts sample_env sample_rnd sample_ca dir_os" "remote_ok dir_os 7 sample_ca tree_x"
  "fresh_target ''/tmp'' ''/g'' (x_os tree_x)" "x_os tree_x = empty_os" "srv_os (x_net tree_x) = dir_os"
proof -
  show "mirror_setup tree_opts sample_env sample_rnd sample_ca dir_os"
    using tree_os(5,6) sample_codec_rnd by (simp add: mirror_setup_def tree_opts_def sample_opts_def sample_env_def sample_ca_def)
  show r: "srv_os (x_net tree_x) = dir_os" "x_os tree_x = empty_os" by (simp_all add: tree_x_def newServer_def remote_x0_def)
  have "srv_inv (newServer dir_os)" by (rule newServer_inv [OF tree_os(1,2)])
  then show "remote_ok dir_os 7 sample_ca tree_x"
    using tree_os(3,4) by (simp add: remote_ok_def session_ok_def tree_x_def remote_x0_def sample_ca_def sample_cc_def srv_inv_def get_cache_def newServer_def)
  have g: "abs_clean ''/g''" "clean_elements ''/g'' = [''g'']" "resolve empty_os ''/g'' = ''/g''" by code_simp+
  have "descend ''/g'' ns \<noteq> stateFilePath ''/tmp'' a b" if "list_all entry_name ns" for ns a b
  proof -
    obtain h where h: "stateFilePath ''/tmp'' a b = ''/tmp'' @ CHR ''/'' # ''gcp/'' @ h" by (rule stateFilePath_tmp) simp
    have "elements (stateFilePath ''/tmp'' a b) = ''tmp'' # elements (''gcp/'' @ h)"
      unfolding h elements_append by (simp add: elements_def)
    moreover have "elements (descend ''/g'' ns) = ''g'' # ns"
      using descend_clean [OF g(1) that] g(2) elements_Clean [of "descend ''/g'' ns"] by (simp add: abs_clean_def)
    ultimately show ?thesis by auto
  qed
  then show "fresh_target ''/tmp'' ''/g'' (x_os tree_x)"
    unfolding r fresh_target_def g(3) using os_wf_empty_os empty_os_state coherent_no_handles [of empty_os] by (simp add: file_data_def)
qed

lemma tree_begin: "download_begin tree_opts sample_call ''d/a'' ''/g/a'' 2 tree_x1 = (Inr (0, tree_stat), tree_x3)"
proof -
  let ?s = "x_os tree_x1"
  have st: "stat_attempts sample_call ''d/a'' 2 None None tree_x1 = ((None, Some tree_stat), tree_x2)"
    using tree_steps(7) unfolding tree_x2_def by (metis prod.collapse)
  have op: "open_target ''/g/a'' O_CREATE_TRUNC 420 (tree_x2\<lparr>x_os := ?s\<lparr>ticks := Suc (ticks ?s)\<rparr>, x_state := None\<rparr>) = (Inr 0, tree_x3)"
    using tree_steps2(1) unfolding tree_x3_def by (metis prod.collapse)
  have l: "list_remote sample_call ''d'' ''/g'' tree_x = (Inr [tree_entry], tree_x1)"
    using tree_steps(1) unfolding tree_x1_def by (metis prod.collapse)
  have "remote_ok dir_os 7 sample_ca tree_x1"
    using list_remote_listed [OF tree_ready(2) tree_steps2(6,9) _ _ l] tree_ready(3) by (simp add: fresh_target_def)
  then have x2: "x_os tree_x2 = ?s" using remote_ok_stat_attempts [OF _ tree_steps2(7) st] by blast
  have "lookup ?s (stateFilePath ''/tmp'' ''d/a'' ''/g/a'') = None"
  proof -
    obtain h where h: "stateFilePath ''/tmp'' ''d/a'' ''/g/a'' = ''/tmp/gcp/'' @ h" by (rule stateFilePath_tmp)
    have "abs_clean (''/tmp/gcp/'' @ h)" using stateFilePath_abs [of "''/tmp''" "''d/a''" "''/g/a''"] unfolding h by simp
    then have "resolve ?s (''/tmp/gcp/'' @ h) = ''/tmp/gcp/'' @ h" using resolve_abs by blast
    moreover have "set (map fst (names ?s)) = {''/g'', ''/''}" by (simp only: tree_steps(9)) simp
    then have "map_of (names ?s) (''/tmp/gcp/'' @ h) = None" by (simp add: map_of_eq_None_iff)
    ultimately show ?thesis unfolding h by (simp add: lookup_def)
  qed
  then have "loadResumeState sample_json ''/tmp'' ''d/a'' ''/g/a'' 1 2 2 ?s = (None, ?s\<lparr>ticks := Suc (ticks ?s)\<rparr>)"
    using tree_steps(8) by (simp add: loadResumeState_def Let_def os_Open_def os_OpenFile_def tick_def)
  then show ?thesis
    using st op x2 by (simp add: download_begin_def download_open_def tree_opts_def sample_opts_def tree_stat_def attempts_def Perm_def)
qed

lemma tree_walk: "cpDirFromHost tree_opts sample_call ''d'' ''/g'' tree_x None False tree_x6"
proof -
  let ?call = "sample_call" and ?fn = "download_fn tree_opts sample_call False 0 ''d/a''"
  have l: "list_remote ?call ''d'' ''/g'' tree_x = (Inr [tree_entry], tree_x1)"
    using tree_steps(1) unfolding tree_x1_def by (metis prod.collapse)
  have g: "run_chunks ?fn [(0, 1)] tree_x3 = Some tree_x4" using tree_steps2(2) unfolding tree_x4_def by (simp add: Option.is_none_def)
  have fl: "flush_state tree_opts tree_x4 = tree_x4"
    using tree_steps2(5) by (simp add: Option.is_none_def flush_state_def on_state_def flushResumeState_def split: option.splits)
  have c: "isCompleted (x_state tree_x3) = (\<lambda>_. False)"
    using tree_steps(10) by (simp add: Option.is_none_def isCompleted_def fun_eq_iff split: option.splits)
  have "chunk_loop 2 (\<lambda>_. False) 0 1 = Some [(0, 1)]" by (simp add: chunk_loop.simps [of 2] next_size_def)
  then obtain s where s: "(pool_step 2 2 (isCompleted (x_state tree_x3)) ?fn (flush_state tree_opts))\<^sup>*\<^sup>* (pool_init 1 0 tree_x3) s"
      "p_phase s = Returned None" "\<not> p_interrupted s" "p_world s = tree_x4"
    using sequential_run [OF _ _ _ _ g, of 2 2 1 "flush_state tree_opts"] fl unfolding c by (auto simp: file_size_def)
  have e: "download_end tree_opts ?call ''d/a'' ''/g/a'' tree_stat 0 tree_x4 = (None, tree_x5)"
    using tree_steps2(3) unfolding tree_x5_def by (metis prod.collapse)
  have "downloadFile tree_opts ?call ''d/a'' ''/g/a'' 2 False tree_x1 None (p_interrupted s) tree_x5"
    by (rule downloadFile.finished [OF tree_begin _ s(2)])
       (use s e in \<open>simp_all add: tree_stat_def tree_opts_def sample_opts_def\<close>)
  then have d: "downloadFile tree_opts ?call ''d/a'' ''/g/a'' 2 False tree_x1 None False tree_x5" using s(3) by simp
  have m: "entry_mode tree_entry ''/g/a'' tree_x5 = (None, tree_x6)" using tree_steps2(4) unfolding tree_x6_def by (metis prod.collapse)
  have "remote_entries tree_opts ?call 2 False ''d'' ''/g'' [tree_entry] tree_x1 None (False \<or> False) tree_x6"
    by (rule entries_file [where ?x1.0 = tree_x5 and ?x2.0 = tree_x6]) (use tree_steps(2-5) d m entries_end in simp_all)
  then show ?thesis using listed [OF l] by (simp add: cpDirFromHost_def tree_x_def remote_x0_def sample_cc_def)
qed

section \<open>Properties\<close>



end
