(* ===== verification/ProgressBar.thy ===== *)
theory ProgressBar
  imports Prelude
begin

text \<open>
  The progress display (\<open>progressbar/progressbar.go\<close>) and \<open>drainProgress\<close> (\<open>transfer.go\<close>), which takes its
  place with \<open>--quiet\<close>. Both are loops over what happens: the context ends, the ticker fires, the size of a
  finished chunk arrives. What is printed is a list of strings.

  The percentage, speed and remaining time are computed in floating point; their texts, and the number of
  filled cells that comes out of that computation, are parameters (\<open>progress_env\<close>), as are the sizes of
  \<open>go-humanize\<close> and the width of the terminal. Shown, for every value of them: the bar always has the width
  computed for it, and the display ends with the report that completes the total.
\<close>

record progress_env =
  pe_IBytes :: "int64 \<Rightarrow> string"
  pe_GetSize :: "int64 option"
  pe_texts :: "int64 \<Rightarrow> int64 \<Rightarrow> string \<times> string \<times> string \<times> string"
  pe_filled :: "int64 \<Rightarrow> int64 \<Rightarrow> int64 \<Rightarrow> int64"

datatype progress_event = ContextDone | Tick | ChunkSent int64

definition getTermWidth :: "progress_env \<Rightarrow> int64" where
  "getTermWidth pe = (case pe_GetSize pe of None \<Rightarrow> 80 | Some w \<Rightarrow> w)"

definition progress_bar :: "int64 \<Rightarrow> int64 \<Rightarrow> string" where
  "progress_bar bw filled0 =
     (let filled = (if filled0 > bw then bw else filled0)
      in if filled > 0 \<and> filled < bw then
           replicate (nat (filled - 1)) CHR ''='' @ ''>'' @ replicate (nat (bw - filled)) CHR ''-''
         else if filled = bw then replicate (nat bw) CHR ''=''
         else replicate (nat bw) CHR ''-'')"

definition clear_line :: string where
  "clear_line = [CHR 0x1B] @ ''[2K'' @ [CHR 0x0D]"

definition bar_prefix :: "progress_env \<Rightarrow> int64 \<Rightarrow> int64 \<Rightarrow> string" where
  "bar_prefix pe sent fileSize = pe_IBytes pe sent @ '' / '' @ pe_IBytes pe fileSize @ '' [''"

definition bar_suffix :: "progress_env \<Rightarrow> int64 \<Rightarrow> int64 \<Rightarrow> string" where
  "bar_suffix pe sent fileSize =
     (let (pct, speedStr, etaStr, elapsedStr) = pe_texts pe sent fileSize
      in '']  '' @ pct @ ''%  '' @ speedStr @ ''  '' @ etaStr @ ''  '' @ elapsedStr)"

definition bar_width :: "progress_env \<Rightarrow> int64 \<Rightarrow> int64 \<Rightarrow> int64" where
  "bar_width pe sent fileSize =
     (let bw = getTermWidth pe - int (length (bar_prefix pe sent fileSize)) - int (length (bar_suffix pe sent fileSize))
      in if bw < 10 then 10 else bw)"

definition printProgress :: "progress_env \<Rightarrow> int64 \<Rightarrow> int64 \<Rightarrow> string" where
  "printProgress pe sent fileSize =
     (let bw = bar_width pe sent fileSize
      in clear_line @ bar_prefix pe sent fileSize @ progress_bar bw (pe_filled pe sent fileSize bw) @ bar_suffix pe sent fileSize)"

text \<open>The loop of \<open>Progress\<close>: what is printed and, once it has returned, what happens afterwards.\<close>

fun Progress :: "progress_env \<Rightarrow> int64 \<Rightarrow> int64 \<Rightarrow> progress_event list \<Rightarrow> string list \<times> progress_event list option" where
  "Progress pe fileSize sent [] = ([], None)"
| "Progress pe fileSize sent (ContextDone # es) = ([clear_line], Some es)"
| "Progress pe fileSize sent (Tick # es) =
     (let (out, r) = Progress pe fileSize sent es in (printProgress pe sent fileSize # out, r))"
| "Progress pe fileSize sent (ChunkSent n # es) =
     (let sent' = wrap64 (sent + n); line = printProgress pe sent' fileSize
      in if sent' = fileSize then ([line, [CHR 0x0A]], Some es)
         else (let (out, r) = Progress pe fileSize sent' es in (line # out, r)))"

fun drainProgress :: "progress_event list \<Rightarrow> progress_event list option" where
  "drainProgress [] = None"
| "drainProgress (ContextDone # es) = Some es"
| "drainProgress (_ # es) = drainProgress es"

section \<open>Properties\<close>

lemma length_progress_bar: "0 \<le> bw \<Longrightarrow> length (progress_bar bw filled) = nat bw"
  by (auto simp: progress_bar_def Let_def nat_diff_distrib)

text \<open>A line of the display has, whatever the rounding of the computation, exactly the width of the terminal, or
  ten cells for the bar when that leaves fewer.\<close>

theorem printProgress_width:
  "length (printProgress pe sent fileSize) = length clear_line
     + nat (max (getTermWidth pe) (int (length (bar_prefix pe sent fileSize)) + int (length (bar_suffix pe sent fileSize)) + 10))"
proof -
  have "0 \<le> bar_width pe sent fileSize" by (simp add: bar_width_def Let_def)
  then show ?thesis by (auto simp: printProgress_def Let_def length_progress_bar) (auto simp: bar_width_def Let_def max_def)
qed

definition sizes :: "progress_event list \<Rightarrow> int64" where
  "sizes es = sum_list (map (\<lambda>e. case e of ChunkSent n \<Rightarrow> n | _ \<Rightarrow> 0) es)"

definition report :: "progress_event \<Rightarrow> bool" where
  "report e = (case e of ContextDone \<Rightarrow> False | Tick \<Rightarrow> True | ChunkSent n \<Rightarrow> 0 \<le> n)"

lemma sizes_simps [simp]: "sizes [] = 0" "sizes (Tick # es) = sizes es" "sizes (ContextDone # es) = sizes es" "sizes (ChunkSent n # es) = n + sizes es"
  by (simp_all add: sizes_def)

lemma sizes_nonneg: "list_all report es \<Longrightarrow> 0 \<le> sizes es"
  by (induction es) (auto simp: report_def sizes_def split: progress_event.splits)

text \<open>While reports arrive that stay below the total the display goes on, and the report that completes the
  total ends it, whenever the ticker fires in between: the chunks of a transfer that completes leave no display behind.\<close>

theorem Progress_ends:
  assumes "0 \<le> sent" and "list_all report es" and "sent + sizes es < fileSize" and "sent + sizes es + n = fileSize" and "fileSize < 2 ^ 63"
  shows "\<exists>out. Progress pe fileSize sent (es @ ChunkSent n # rest) = (out, Some rest)"
  using assms
proof (induction es arbitrary: sent)
  case Nil
  then have "wrap64 (sent + n) = fileSize" by simp
  then show ?case by simp
next
  case (Cons e es)
  show ?case
  proof (cases e)
    case (ChunkSent m)
    have r: "report (ChunkSent m)" "list_all report es" using Cons.prems(2) ChunkSent by simp_all
    have m: "0 \<le> m" "0 \<le> sizes es" using r(1) sizes_nonneg [OF r(2)] by (simp_all add: report_def)
    then have w: "wrap64 (sent + m) = sent + m" "sent + m \<noteq> fileSize" using Cons.prems ChunkSent by auto
    obtain out where "Progress pe fileSize (sent + m) (es @ ChunkSent n # rest) = (out, Some rest)"
      using Cons.IH [of "sent + m"] Cons.prems ChunkSent m r(2) by auto
    then show ?thesis using ChunkSent w by simp
  next
    case Tick
    then show ?thesis using Cons by (auto split: prod.splits)
  qed (use Cons.prems in \<open>simp add: report_def\<close>)
qed

theorem Progress_ends_witness:
  "\<exists>out. Progress \<lparr>pe_IBytes = (\<lambda>n. dec_int n @ '' B''), pe_GetSize = None, pe_texts = (\<lambda>_ _. ([], [], [], [])), pe_filled = (\<lambda>s t w. s * w div t)\<rparr> 3 0
      ([ChunkSent 0, Tick, ChunkSent 2] @ ChunkSent 1 # [ContextDone]) = (out, Some [ContextDone])"
  by (rule Progress_ends) (simp_all add: report_def)

end
