(* ===== verification/Workers.thy ===== *)
theory Workers
  imports Download "HOL-Library.Multiset"
begin

text \<open>
  The worker pool of the server (\<open>process\<close>, \<open>newServer\<close>, the shutdown in \<open>serveCmd\<close>; \<open>serve.go\<close>). \<open>Server\<close> has a
  handler as one function; here the handlers that share descriptors through the cache (\<open>read\<close>,
  \<open>write\<close>, \<open>hash\<close>) are cut at the points where another goroutine may run: a call of the cache holds its
  mutex and is one step, a system call on a descriptor is one step, and what lies between touches
  nothing shared. The pool interleaves the steps of its workers with each other, with arriving messages,
  the sweep of idle descriptors, the shutdown, and changes of the file system by other processes.

  Shown: a handler that is not interrupted is the function of \<open>Server\<close>; under every interleaving each
  accepted request is answered once and no descriptor leaks, and no file is read or written but the one the
  request names. Two things go wrong: a descriptor can be closed between \<open>get\<close> and its use, and two
  hashes of one file share the position of its descriptor, so that one of them is wrong.
\<close>

section \<open>Handlers in steps\<close>

text \<open>Where a worker is in the handling of a message.\<close>

datatype task =
    TMsg wrappedMsg
  | TReadGet connid ReadReq connAuth string
  | TReadStat connid ReadReq connAuth string fd
  | TReadAt connid ReadReq connAuth string fd
  | TWriteGet connid WriteReq string bytes
  | TWriteAt connid WriteReq string bytes fd
  | TWriteEvict connid WriteReq string goerror
  | THashGet connid HashReq string
  | THashSeek connid HashReq string fd
  | THashCopy connid HashReq string fd bytes
  | THashEvict string

text \<open>From the dispatch to the first call of the cache.\<close>

definition begin_read :: "connid \<Rightarrow> ReadReq \<Rightarrow> connAuth \<Rightarrow> copierServer \<Rightarrow> task option \<times> copierServer" where
  "begin_read conn req ca srv =
     (case sandboxPath (Some ca) (rreq_Path req) of
        Inl err \<Rightarrow> (None, readFailed conn req err srv)
      | Inr spath \<Rightarrow> (Some (TReadGet conn req ca spath), srv))"

definition begin_write ::
  "codec_lib \<Rightarrow> connid \<Rightarrow> WriteReq \<Rightarrow> bytes \<Rightarrow> connAuth \<Rightarrow> copierServer \<Rightarrow> task option \<times> copierServer" where
  "begin_write lib conn req payload ca srv =
     (case write_payload lib req payload (ca_encryptionKey ca) of
        Inl err \<Rightarrow> (None, writeFailed conn req err srv)
      | Inr data \<Rightarrow>
          (case sandboxPath (Some ca) (wreq_Path req) of
             Inl err \<Rightarrow> (None, writeFailed conn req err srv)
           | Inr spath \<Rightarrow> (Some (TWriteGet conn req spath data), srv)))"

definition begin_hash :: "connid \<Rightarrow> HashReq \<Rightarrow> connAuth \<Rightarrow> copierServer \<Rightarrow> task option \<times> copierServer" where
  "begin_hash conn req ca srv =
     (case sandboxPath (Some ca) (hreq_Path req) of
        Inl err \<Rightarrow> (None, hashFailed conn req err srv)
      | Inr spath \<Rightarrow> (Some (THashGet conn req spath), srv))"

text \<open>A message of another type, or of a connection that is not authenticated, is handled in one step:
  its handler uses no descriptor of the cache. (The system calls of \<open>create\<close> and the two halves of a login
  are therefore not interleaved with other workers.)\<close>

definition begin_msg ::
  "('pk, 'sig) server_env \<Rightarrow> (nat \<Rightarrow> goerror + bytes) \<Rightarrow> wrappedMsg \<Rightarrow> copierServer \<Rightarrow> task option \<times> copierServer" where
  "begin_msg env rnd wm srv =
     (case getConnAuth (wm_conn wm) srv of
        None \<Rightarrow> (None, handle_msg env rnd wm srv)
      | Some ca \<Rightarrow>
          if ca_state ca \<noteq> authOK then (None, handle_msg env rnd wm srv)
          else (case wm_msg wm of
                  MReadReq req \<Rightarrow> begin_read (wm_conn wm) req ca srv
                | MWriteReq req \<Rightarrow> begin_write (env_codec env) (wm_conn wm) req (wm_payload wm) ca srv
                | MHashReq req \<Rightarrow> begin_hash (wm_conn wm) req ca srv
                | _ \<Rightarrow> (None, handle_msg env rnd wm srv)))"

text \<open>\<open>read\<close> after the bytes were read.\<close>

definition read_finish ::
  "codec_lib \<Rightarrow> (nat \<Rightarrow> goerror + bytes) \<Rightarrow> connid \<Rightarrow> ReadReq \<Rightarrow> connAuth \<Rightarrow> bytes \<Rightarrow> goerror option \<Rightarrow> copierServer \<Rightarrow> copierServer" where
  "read_finish lib rnd conn req ca data err srv =
     (case (if data = [] then err else None) of
        Some e \<Rightarrow> readFailed conn req e srv
      | None \<Rightarrow>
          (case compressChunk lib data (rreq_Compression req) of
             Inl e \<Rightarrow> readFailed conn req e srv
           | Inr (compressed, algo) \<Rightarrow>
               if rreq_Encryption req = EncryptionSecretBox then
                 (case encryptChunk lib rnd compressed (ca_encryptionKey ca) of
                    Inl e \<Rightarrow> readFailed conn req (Errorf (''encrypt: '' @ err_text e)) srv
                  | Inr encrypted \<Rightarrow> readSuccess conn req encrypted algo EncryptionSecretBox srv)
               else readSuccess conn req compressed algo EncryptionNone srv))"

text \<open>A call of \<open>Read\<close> on a descriptor, as \<open>io.Copy\<close> makes it: the next 32 KB from the position of the descriptor.
  The position belongs to the descriptor, so workers that got the same one from the cache share it.\<close>

definition copyBuf :: nat where
  "copyBuf = 32 * 1024"

definition fd_Read :: "fd \<Rightarrow> nat \<Rightarrow> os_state \<Rightarrow> (goerror + bytes) \<times> os_state" where
  "fd_Read f off s =
     (case os_ReadAll f s of
        (Inl err, s') \<Rightarrow> (Inl err, s')
      | (Inr b, s') \<Rightarrow> (Inr (take copyBuf (drop off b)), s'))"

lemma fd_Read_code [code]:
  "fd_Read f off s =
     (case os_ReadAll f s of
        (Inl err, s') \<Rightarrow> (Inl err, s')
      | (Inr b, s') \<Rightarrow> (Inr (let d = drop off b in if int (length d) \<le> 32768 then d else take copyBuf d), s'))"
  by (auto simp: fd_Read_def copyBuf_def Let_def split: prod.splits sum.splits)

fun task_step ::
  "('pk, 'sig) server_env \<Rightarrow> (nat \<Rightarrow> goerror + bytes) \<Rightarrow> task \<Rightarrow> copierServer \<Rightarrow> (fd \<Rightarrow> nat) \<Rightarrow> task option \<times> copierServer \<times> (fd \<Rightarrow> nat)" where
  "task_step env rnd (TMsg wm) srv pos = (case begin_msg env rnd wm srv of (r, srv') \<Rightarrow> (r, srv', pos))"
| "task_step env rnd (TReadGet conn req ca spath) srv pos =
     (case fc_get spath False (get_cache srv) of
        (Inl err, st) \<Rightarrow> (None, readFailed conn req err (put_cache st srv), pos)
      | (Inr fd, st) \<Rightarrow> (Some (TReadStat conn req ca spath fd), put_cache st srv, pos))"
| "task_step env rnd (TReadStat conn req ca spath fd) srv pos =
     (case fd_Stat fd (srv_os srv) of
        (Inl err, s') \<Rightarrow> (None, readFailed conn req err (srv\<lparr>srv_os := s'\<rparr>), pos)
      | (Inr info, s') \<Rightarrow>
          if rreq_Size req < 0 \<or> rreq_Size req > maxAlloc then (None, srv\<lparr>srv_os := s', srv_panic := True\<rparr>, pos)
          else (Some (TReadAt conn req ca spath fd), srv\<lparr>srv_os := s'\<rparr>, pos))"
| "task_step env rnd (TReadAt conn req ca spath fd) srv pos =
     (case os_ReadAt fd (nat (rreq_Size req)) (rreq_Offset req) (srv_os srv) of
        ((data, err), s') \<Rightarrow> (None, read_finish (env_codec env) rnd conn req ca data err (srv\<lparr>srv_os := s'\<rparr>), pos))"
| "task_step env rnd (TWriteGet conn req spath data) srv pos =
     (case fc_get spath True (get_cache srv) of
        (Inl err, st) \<Rightarrow> (None, writeFailed conn req err (put_cache st srv), pos)
      | (Inr fd, st) \<Rightarrow> (Some (TWriteAt conn req spath data fd), put_cache st srv, pos))"
| "task_step env rnd (TWriteAt conn req spath data fd) srv pos =
     (case os_WriteAt fd data (wreq_Offset req) (srv_os srv) of
        ((n, Some err), s') \<Rightarrow> (Some (TWriteEvict conn req spath err), srv\<lparr>srv_os := s'\<rparr>, pos)
      | ((n, None), s') \<Rightarrow> (None, writeSuccess conn req n (srv\<lparr>srv_os := s'\<rparr>), pos))"
| "task_step env rnd (TWriteEvict conn req spath err) srv pos =
     (None, writeFailed conn req err (put_cache (fc_evict spath (get_cache srv)) srv), pos)"
| "task_step env rnd (THashGet conn req spath) srv pos =
     (case fc_get spath False (get_cache srv) of
        (Inl err, st) \<Rightarrow> (Some (THashEvict spath), hashFailed conn req err (put_cache st srv), pos)
      | (Inr fd, st) \<Rightarrow> (Some (THashSeek conn req spath fd), put_cache st srv, pos))"
| "task_step env rnd (THashSeek conn req spath fd) srv pos =
     (case fd_Seek fd (srv_os srv) of
        (Some err, s') \<Rightarrow> (Some (THashEvict spath), hashFailed conn req err (srv\<lparr>srv_os := s'\<rparr>), pos)
      | (None, s') \<Rightarrow> (Some (THashCopy conn req spath fd []), srv\<lparr>srv_os := s'\<rparr>, pos(fd := 0)))"
| "task_step env rnd (THashCopy conn req spath fd h) srv pos =
     (case fd_Read fd (pos fd) (srv_os srv) of
        (Inl err, s') \<Rightarrow> (Some (THashEvict spath), hashFailed conn req err (srv\<lparr>srv_os := s'\<rparr>), pos)
      | (Inr b, s') \<Rightarrow>
          if b = [] then
            (Some (THashEvict spath),
             reply conn (MHashRes \<lparr>hres_ID = hreq_ID req, hres_Success = True, hres_Hash = Sum256 h, hres_Error = []\<rparr>) []
               (srv\<lparr>srv_os := s'\<rparr>), pos)
          else (Some (THashCopy conn req spath fd (h @ b)), srv\<lparr>srv_os := s'\<rparr>, pos(fd := pos fd + length b)))"
| "task_step env rnd (THashEvict spath) srv pos = (None, put_cache (fc_evict spath (get_cache srv)) srv, pos)"

lemma keep_pos [simp]: "(case x of (r, srv') \<Rightarrow> (r, srv', pos)) = (r1, srv1, pos1) \<longleftrightarrow> x = (r1, srv1) \<and> pos1 = pos"
  by (cases x) auto

section \<open>A worker alone\<close>

fun run_alone ::
  "('pk, 'sig) server_env \<Rightarrow> (nat \<Rightarrow> goerror + bytes) \<Rightarrow> nat \<Rightarrow> task \<Rightarrow> copierServer \<Rightarrow> (fd \<Rightarrow> nat) \<Rightarrow> task option \<times> copierServer \<times> (fd \<Rightarrow> nat)" where
  "run_alone env rnd 0 t srv pos = (Some t, srv, pos)"
| "run_alone env rnd (Suc n) t srv pos =
     (case task_step env rnd t srv pos of
        (None, srv', pos') \<Rightarrow> (None, srv', pos')
      | (Some t', srv', pos') \<Rightarrow> run_alone env rnd n t' srv' pos')"

lemma put_get_os: "srv\<lparr>srv_os := s\<rparr> = put_cache (srv_fdCache srv, s) srv"
  by (simp add: put_cache_def)

lemma put_cache_put [simp]: "put_cache st (put_cache st' srv) = put_cache st srv"
  by (simp add: put_cache_def)

lemma put_cache_reply [simp]: "put_cache st (reply conn m p srv) = reply conn m p (put_cache st srv)"
  by (simp add: put_cache_def reply_def)

lemmas begin_defs = begin_msg_def begin_read_def begin_write_def begin_hash_def

lemma alone_read:
  assumes "wm_msg wm = MReadReq req" and "getConnAuth (wm_conn wm) srv = Some ca" and "ca_state ca = authOK"
  shows "run_alone env rnd 4 (TMsg wm) srv pos = (None, srv_read (env_codec env) rnd (wm_conn wm) req ca srv, pos)"
  using assms
  by (auto simp: eval_nat_numeral begin_defs srv_read_def read_finish_def put_get_os Let_def split: sum.splits prod.splits option.splits)

lemma alone_write:
  assumes "wm_msg wm = MWriteReq req" and "getConnAuth (wm_conn wm) srv = Some ca" and "ca_state ca = authOK"
  shows "run_alone env rnd 4 (TMsg wm) srv pos = (None, srv_write (env_codec env) (wm_conn wm) req (wm_payload wm) ca srv, pos)"
  using assms
  by (auto simp: eval_nat_numeral begin_defs srv_write_def put_get_os split: sum.splits prod.splits option.splits)

text \<open>The copy of a hash makes several calls of \<open>Read\<close> where \<open>Server\<close> has one for the whole file, so the two are the
  same but for the count of system calls.\<close>

definition untick :: "copierServer \<Rightarrow> copierServer" where
  "untick srv = srv\<lparr>srv_os := (srv_os srv)\<lparr>ticks := 0\<rparr>\<rparr>"

lemma ReadAll_shape:
  obtains n where "os_ReadAll f s = (fst (os_ReadAll f s), s\<lparr>ticks := n\<rparr>)"
proof -
  have "\<exists>n. snd (os_ReadAll f s) = s\<lparr>ticks := n\<rparr>"
    by (auto simp: os_ReadAll_def tick_def split: option.splits intro: exI [of _ "ticks s"])
  then show thesis using that by (metis prod.collapse)
qed

lemma ReadAll_ticks: "no_faults s \<Longrightarrow> fst (os_ReadAll f (s\<lparr>ticks := n\<rparr>)) = fst (os_ReadAll f s)"
  by (auto simp: os_ReadAll_def tick_def no_faults_def split: option.splits)

lemma ReadAll_same: "os_ReadAll f s = (Inr b, s') \<Longrightarrow> fst (os_ReadAll f (s\<lparr>ticks := n\<rparr>)) = Inr c \<Longrightarrow> c = b"
  by (auto simp: os_ReadAll_def tick_def split: option.splits if_splits)

lemma alone_copy:
  assumes "no_faults (srv_os srv)" and "fst (os_ReadAll f (srv_os srv)) = Inr b"
  shows "\<exists>k n pos'. run_alone env rnd k (THashCopy conn req p f h) srv pos = (None,
    reply conn (MHashRes \<lparr>hres_ID = hreq_ID req, hres_Success = True, hres_Hash = Sum256 (h @ drop (pos f) b), hres_Error = []\<rparr>) []
      (put_cache (fc_evict p (srv_fdCache srv, (srv_os srv)\<lparr>ticks := n\<rparr>)) srv), pos')"
  using assms
proof (induction "length b - pos f" arbitrary: h pos srv rule: less_induct)
  case less
  obtain m where rd: "os_ReadAll f (srv_os srv) = (Inr b, (srv_os srv)\<lparr>ticks := m\<rparr>)"
    using ReadAll_shape less.prems(2) by metis
  let ?srv = "srv\<lparr>srv_os := (srv_os srv)\<lparr>ticks := m\<rparr>\<rparr>" and ?d = "take copyBuf (drop (pos f) b)"
  show ?case
  proof (cases "pos f < length b")
    case False
    then show ?thesis
      using rd by (intro exI [of _ "Suc (Suc 0)"] exI [of _ m] exI [of _ pos]) (simp add: fd_Read_def get_cache_def put_cache_def reply_def)
  next
    case True
    let ?pos = "pos(f := pos f + length ?d)"
    have d: "?d \<noteq> []" "length b - ?pos f < length b - pos f" "?d @ drop (?pos f) b = drop (pos f) b"
      using True by (auto simp: copyBuf_def drop_drop min_def add.commute) (metis append_take_drop_id drop_drop add.commute)
    have "no_faults (srv_os ?srv)" "fst (os_ReadAll f (srv_os ?srv)) = Inr b"
      using less.prems ReadAll_ticks by (simp_all add: no_faults_def)
    from less.hyps [of ?pos ?srv "h @ ?d", OF d(2) this] obtain k n pos' where
      "run_alone env rnd k (THashCopy conn req p f (h @ ?d)) ?srv ?pos = (None,
         reply conn (MHashRes \<lparr>hres_ID = hreq_ID req, hres_Success = True, hres_Hash = Sum256 (h @ drop (pos f) b), hres_Error = []\<rparr>) []
           (put_cache (fc_evict p (srv_fdCache srv, (srv_os srv)\<lparr>ticks := n\<rparr>)) srv), pos')"
      using d(3) by (auto simp: put_cache_def)
    then show ?thesis using rd d(1) by (intro exI [of _ "Suc k"] exI [of _ n] exI [of _ pos']) (simp add: fd_Read_def)
  qed
qed

lemma untick_simps [simp]:
  "untick (reply conn m b srv) = reply conn m b (untick srv)"
  "untick (put_cache (fc_evict p (fc, s\<lparr>ticks := n\<rparr>)) srv) = untick (put_cache (fc_evict p (fc, s)) srv)"
  by (auto simp: untick_def reply_def put_cache_def fc_evict_def os_Close_def split: option.splits)

lemma alone_hash:
  assumes wm: "wm_msg wm = MHashReq req" "getConnAuth (wm_conn wm) srv = Some ca" "ca_state ca = authOK" and nf: "no_faults (srv_os srv)"
  shows "\<exists>k srv' pos'. run_alone env rnd k (TMsg wm) srv pos = (None, srv', pos') \<and> untick srv' = untick (srv_hash (wm_conn wm) req (Some ca) srv)"
proof (cases "sandboxPath (Some ca) (hreq_Path req)")
  case (Inl e)
  then show ?thesis using wm by (intro exI [of _ "Suc 0"]) (simp add: begin_defs srv_hash_def)
next
  case path: (Inr p)
  obtain q fc s1 where g: "fc_get p False (get_cache srv) = (q, fc, s1)" by (metis prod.exhaust)
  show ?thesis
  proof (cases q)
    case (Inl e)
    then show ?thesis
      using wm path g by (intro exI [of _ "Suc (Suc (Suc 0))"]) (simp add: begin_defs srv_hash_def hashFailed_def)
  next
    case fd: (Inr fd)
    obtain e s2 where sk: "fd_Seek fd s1 = (e, s2)" by (metis prod.exhaust)
    have nf2: "no_faults s2"
      using nf fc_get_faults [of p False "srv_fdCache srv" "srv_os srv"] g sk faults_unchanged(7) [of fd s1] by (simp add: no_faults_def get_cache_def)
    obtain m where rd: "os_ReadAll fd s2 = (fst (os_ReadAll fd s2), s2\<lparr>ticks := m\<rparr>)" by (rule ReadAll_shape)
    note eqs = wm path g fd sk rd
    show ?thesis
    proof (cases e)
      case (Some err)
      then show ?thesis
        using eqs by (intro exI [of _ "Suc (Suc (Suc (Suc 0)))"]) (simp add: begin_defs srv_hash_def hashFailed_def put_get_os)
    next
      case None
      show ?thesis
      proof (cases "fst (os_ReadAll fd s2)")
        case (Inl err)
        then show ?thesis
          using eqs None by (intro exI [of _ "Suc (Suc (Suc (Suc (Suc 0))))"]) (simp add: begin_defs srv_hash_def hashFailed_def fd_Read_def put_get_os)
      next
        case (Inr b)
        from alone_copy [of "put_cache (fc, s2) srv" fd b env rnd "wm_conn wm" req p "[]" "pos(fd := 0)"] nf2 Inr obtain k n pos' where
          "run_alone env rnd k (THashCopy (wm_conn wm) req p fd []) (put_cache (fc, s2) srv) (pos(fd := 0)) = (None,
             reply (wm_conn wm) (MHashRes \<lparr>hres_ID = hreq_ID req, hres_Success = True, hres_Hash = Sum256 b, hres_Error = []\<rparr>) []
               (put_cache (fc_evict p (fc, s2\<lparr>ticks := n\<rparr>)) srv), pos')"
          by auto
        then show ?thesis
          using eqs None Inr by (intro exI [of _ "Suc (Suc (Suc k))"]) (simp add: begin_defs srv_hash_def put_get_os)
      qed
    qed
  qed
qed

section \<open>The pool\<close>

text \<open>The server, the number of workers, what the busy ones are doing, and whether the context of the
  program was cancelled. The channel is the field \<open>srv_chan\<close>; it has room for as many messages as there are workers.\<close>

record workers =
  wp_srv :: copierServer
  wp_procs :: nat
  wp_busy :: "task list"
  wp_pos :: "fd \<Rightarrow> nat"
  wp_cancelled :: bool

text \<open>\<open>newServer\<close> with \<open>processNum\<close> workers: \<open>make\<close> panics for a negative size of the channel (\<open>None\<close>).\<close>

definition newWorkers :: "int \<Rightarrow> os_state \<Rightarrow> workers option" where
  "newWorkers processNum s =
     (if processNum < 0 then None
      else Some \<lparr>wp_srv = newServer s, wp_procs = nat processNum, wp_busy = [], wp_pos = (\<lambda>_. 0), wp_cancelled = False\<rparr>)"

text \<open>The goroutine of \<open>serveCmd\<close> that waits for the end of the context: it closes the cache, whatever the workers are doing.\<close>

definition serve_stop :: "workers \<Rightarrow> workers" where
  [simp]: "serve_stop P = P\<lparr>wp_srv := put_cache (fc_close (get_cache (wp_srv P))) (wp_srv P)\<rparr>"

text \<open>A worker takes a message also after the cancellation: \<open>select\<close> picks any case that is ready. A connection that has nowhere to put its message waits, so \<open>arrive\<close> needs room.\<close>

inductive workers_run ::
  "('pk, 'sig) server_env \<Rightarrow> workers \<Rightarrow> wrappedMsg list \<Rightarrow> workers \<Rightarrow> bool" for env P0 where
  start: "workers_run env P0 [] P0"
| arrive: "workers_run env P0 ms P \<Longrightarrow> \<not> srv_panic (wp_srv P) \<Longrightarrow> length (srv_chan (wp_srv P)) < wp_procs P \<Longrightarrow>
    workers_run env P0 (ms @ [wm]) (P\<lparr>wp_srv := (wp_srv P)\<lparr>srv_chan := srv_chan (wp_srv P) @ [wm]\<rparr>\<rparr>)"
| take_msg: "workers_run env P0 ms P \<Longrightarrow> \<not> srv_panic (wp_srv P) \<Longrightarrow> srv_chan (wp_srv P) = wm # q \<Longrightarrow> length (wp_busy P) < wp_procs P \<Longrightarrow>
    workers_run env P0 ms (P\<lparr>wp_srv := (wp_srv P)\<lparr>srv_chan := q\<rparr>, wp_busy := wp_busy P @ [TMsg wm]\<rparr>)"
| work: "workers_run env P0 ms P \<Longrightarrow> \<not> srv_panic (wp_srv P) \<Longrightarrow> wp_busy P = ts @ t # us \<Longrightarrow> task_step env rnd t (wp_srv P) (wp_pos P) = (Some t', srv', pos') \<Longrightarrow>
    workers_run env P0 ms (P\<lparr>wp_srv := srv', wp_pos := pos', wp_busy := ts @ t' # us\<rparr>)"
| finish: "workers_run env P0 ms P \<Longrightarrow> \<not> srv_panic (wp_srv P) \<Longrightarrow> wp_busy P = ts @ t # us \<Longrightarrow> task_step env rnd t (wp_srv P) (wp_pos P) = (None, srv', pos') \<Longrightarrow>
    workers_run env P0 ms (P\<lparr>wp_srv := srv', wp_pos := pos', wp_busy := ts @ us\<rparr>)"
| sweep: "workers_run env P0 ms P \<Longrightarrow> \<not> srv_panic (wp_srv P) \<Longrightarrow>
    workers_run env P0 ms (P\<lparr>wp_srv := put_cache (fc_sweep now (get_cache (wp_srv P))) (wp_srv P)\<rparr>)"
| files: "workers_run env P0 ms P \<Longrightarrow> \<not> srv_panic (wp_srv P) \<Longrightarrow> os_wf s' \<Longrightarrow> fds s' = fds (srv_os (wp_srv P)) \<Longrightarrow>
    next_fd s' = next_fd (srv_os (wp_srv P)) \<Longrightarrow> workers_run env P0 ms (P\<lparr>wp_srv := (wp_srv P)\<lparr>srv_os := s'\<rparr>\<rparr>)"
| cancel: "workers_run env P0 ms P \<Longrightarrow> \<not> srv_panic (wp_srv P) \<Longrightarrow> workers_run env P0 ms (P\<lparr>wp_cancelled := True\<rparr>)"
| shutdown: "workers_run env P0 ms P \<Longrightarrow> \<not> srv_panic (wp_srv P) \<Longrightarrow> wp_cancelled P \<Longrightarrow>
    workers_run env P0 ms (serve_stop P)"

section \<open>Descriptors under interleaving\<close>

text \<open>Handles are handed out in order and, once closed, never come back.\<close>

definition later :: "os_state \<Rightarrow> os_state \<Rightarrow> bool" where
  "later s s' \<longleftrightarrow> next_fd s \<le> next_fd s' \<and> (\<forall>f < next_fd s. fds s' f = fds s f \<or> fds s' f = None)"

lemma later_refl [simp]: "later s s"
  by (simp add: later_def)

lemma later_trans: "later s t \<Longrightarrow> later t u \<Longrightarrow> later s u"
  unfolding later_def by (metis less_le_trans order_trans)

lemma later_same: "fds s' = fds s \<Longrightarrow> next_fd s \<le> next_fd s' \<Longrightarrow> later s s'"
  by (simp add: later_def)

lemma later_Close: "later s (os_Close f s)"
  by (simp add: later_def os_Close_def)

lemma next_fd_mkdir_list: "next_fd (snd (mkdir_list perm ps s)) = next_fd s"
  by (induction perm ps s rule: mkdir_list.induct) (auto simp: tick_def add_inode_def split: option.splits)

lemma next_fd_unchanged [simp]:
  "next_fd (snd (os_Stat p s)) = next_fd s" "next_fd (snd (os_MkdirAll p perm s)) = next_fd s"
  "next_fd (snd (os_ReadDir p s)) = next_fd s" "next_fd (snd (fd_Stat f s)) = next_fd s"
  "next_fd (snd (os_ReadAt f n off s)) = next_fd s" "next_fd (snd (os_WriteAt f d off s)) = next_fd s"
  "next_fd (snd (os_Truncate f sz s)) = next_fd s" "next_fd (snd (os_ReadAll f s)) = next_fd s"
  "next_fd (snd (fd_Seek f s)) = next_fd s" "next_fd (os_Close f s) = next_fd s"
  by (auto simp: fd_Seek_def os_Stat_def os_MkdirAll_def os_ReadDir_def fd_Stat_def os_ReadAt_def os_WriteAt_def os_Truncate_def
      os_ReadAll_def os_Close_def tick_def next_fd_mkdir_list Let_def split: option.splits)

lemma next_fd_OpenFile: "next_fd s \<le> next_fd (snd (os_OpenFile p fl perm s))"
  by (auto simp: os_OpenFile_def tick_def Let_def open_ino_def add_inode_def split: option.splits)

lemma later_OpenFile: "later s (snd (os_OpenFile p fl perm s))"
proof (cases "os_OpenFile p fl perm s")
  case (Pair r s')
  show ?thesis
  proof (cases r)
    case (Inl e)
    then show ?thesis using OpenFile_Inl_fds Pair next_fd_OpenFile [of s p fl perm] by (metis later_same snd_conv)
  next
    case (Inr f)
    then show ?thesis using OpenFile_Inr_fds [of p fl perm s f s'] Pair by (auto simp: later_def)
  qed
qed

lemma later_calls:
  "later s (snd (fd_Stat f s))" "later s (snd (os_ReadAt f n off s))" "later s (snd (os_WriteAt f d off s))"
  "later s (snd (os_ReadAll f s))" "later s (snd (fd_Seek f s))" "later s (snd (os_Stat p s))" "later s (snd (os_ReadDir p s))"
  "later s (snd (os_MkdirAll p perm s))" "later s (snd (os_Truncate f sz s))"
  by (simp_all add: later_same)

lemma later_Read: "later s (snd (fd_Read f off s))"
  using later_calls(4) [of s f] by (auto simp: fd_Read_def split: prod.splits sum.splits)

lemma later_get: "later s (snd (snd (fc_get p w (fc, s))))"
proof -
  have o: "os_OpenFile p fl perm t = (r, t') \<Longrightarrow> later t t'" for fl perm t r t'
    using later_OpenFile [of t p fl perm] by simp
  show ?thesis
    using later_trans [OF later_Close o]
    by (auto simp: fc_get_def dest: o split: option.splits prod.splits sum.splits)
qed

lemma later_close_files: "later s (close_files es s)"
  unfolding close_files_def
proof (induction es arbitrary: s)
  case (Cons e es)
  then show ?case by (cases e) (auto intro: later_trans [OF later_Close])
qed simp

lemma later_cache: "later (snd st) (snd (fc_evict p st))" "later (snd st) (snd (fc_sweep now st))" "later (snd st) (snd (fc_close st))"
  by (cases st; auto simp: fc_evict_def fc_sweep_def fc_close_def later_Close later_close_files split: option.splits)+

lemma later_opens:
  "os_Open p s = (r, s') \<Longrightarrow> later s s'" "scan_file f s = (ls, s') \<Longrightarrow> later s s'"
proof -
  show "os_Open p s = (r, s') \<Longrightarrow> later s s'" using later_OpenFile unfolding os_Open_def by (metis snd_conv)
  show "scan_file f s = (ls, s') \<Longrightarrow> later s s'"
    using later_trans [OF later_calls(4) later_Close, of s f f] by (auto simp: scan_file_def split: sum.splits prod.splits)
qed

lemma later_search: "search_entries ssh tb es s = (r, s') \<Longrightarrow> later s s'"
proof (induction ssh tb es s rule: search_entries.induct)
  case (2 ssh tb name home es s)
  then show ?case
    by (auto split: sum.splits prod.splits if_splits dest!: later_opens intro: later_trans)
qed simp

lemma later_lookupHome: "lookupHome nss u s = (r, s') \<Longrightarrow> later s s'"
  by (auto simp: lookupHome_def split: sum.splits prod.splits option.splits dest!: later_opens intro: later_trans)

lemma later_findUser: "findUserByPubKey ssh nss pk hint s = (r, s') \<Longrightarrow> later s s'"
  by (auto simp: findUserByPubKey_def Let_def split: sum.splits prod.splits option.splits if_splits
      dest!: later_opens later_search later_lookupHome intro: later_trans)

lemma later_create:
  assumes "create_file req p s = (r, s')"
  shows "later s s'"
proof -
  have k: "os_MkdirAll q perm t = (e, t') \<Longrightarrow> later t t'" "os_Stat q t = (i, t') \<Longrightarrow> later t t'"
    "os_OpenFile q fl perm t = (g, t') \<Longrightarrow> later t t'" "os_Truncate f sz t = (e, t') \<Longrightarrow> later t t'" for q perm t e t' i fl g f sz
    using later_calls later_OpenFile by (metis snd_conv)+
  show ?thesis
    using assms
    by (auto simp: create_file_def split: sum.splits prod.splits option.splits if_splits dest!: k intro: later_trans later_trans [OF _ later_Close])
qed

text \<open>What handlers that use no descriptor of the cache do to the handles.\<close>

lemma later_handleAuth: "later (srv_os srv) (srv_os (handleAuth env rnd conn req srv))"
  by (auto simp: handleAuth_def authDenied_def closeConn_def setConnAuth_def Let_def
      split: option.splits sum.splits prod.splits dest!: later_findUser)

lemma later_handle_msg:
  assumes "\<not> authenticated (srv_ctx srv (wm_conn wm)) \<or> Type (wm_msg wm) \<notin> {ReadReqT, WriteReqT, HashReqT}"
  shows "later (srv_os srv) (srv_os (handle_msg env rnd wm srv))"
proof (cases "Type (wm_msg wm) = AuthReqT")
  case True
  then obtain req where "wm_msg wm = MAuthReq req" by (cases "wm_msg wm") (simp_all add: mtype_defs)
  then show ?thesis by (simp add: handle_msg_auth later_handleAuth)
next
  case na: False
  show ?thesis
  proof (cases "authenticated (srv_ctx srv (wm_conn wm))")
    case False
    then show ?thesis using na by (simp add: handle_msg_unauth rejectUnauthenticated_def authDenied_def closeConn_def)
  next
    case True
    then obtain ca where ca: "srv_ctx srv (wm_conn wm) = Some ca" "ca_state ca = authOK" by (auto split: option.splits)
    have st: "os_Stat q t = (i, t') \<Longrightarrow> later t t'" "os_ReadDir q t = (j, t') \<Longrightarrow> later t t'" for q t i t' j
      using later_calls by (metis snd_conv)+
    show ?thesis
      using ca assms True na
      by (cases "wm_msg wm")
         (auto simp: handle_msg_def getConnAuth_def mtype_defs srv_create_def srv_stat_def srv_readDir_def failed_defs
            dest!: later_create st split: sum.splits prod.splits option.splits)
  qed
qed

section \<open>The invariant\<close>

text \<open>The descriptor a worker holds, the path it got it for, and whether it is going to write.\<close>

fun task_fd :: "task \<Rightarrow> (string \<times> bool \<times> fd) option" where
  "task_fd (TReadStat conn req ca p f) = Some (p, False, f)"
| "task_fd (TReadAt conn req ca p f) = Some (p, False, f)"
| "task_fd (TWriteAt conn req p d f) = Some (p, True, f)"
| "task_fd (THashSeek conn req p f) = Some (p, False, f)"
| "task_fd (THashCopy conn req p f h) = Some (p, False, f)"
| "task_fd _ = None"

text \<open>It was handed out before, and if it is still open it is open on that path, for writing if needed.\<close>

definition holds :: "os_state \<Rightarrow> task \<Rightarrow> bool" where
  "holds s t \<longleftrightarrow> (\<forall>p w f. task_fd t = Some (p, w, f) \<longrightarrow> f < next_fd s \<and> (\<forall>q i w'. fds s f = Some (q, i, w') \<longrightarrow> q = p \<and> (w \<longrightarrow> w')))"

lemma holds_later: "holds s t \<Longrightarrow> later s s' \<Longrightarrow> holds s' t"
  unfolding holds_def later_def by (metis less_le_trans option.distinct(1))

lemma holds_none: "task_fd t = None \<Longrightarrow> holds s t"
  by (simp add: holds_def)

lemma holds_get:
  assumes "fc_inv (fc, s)" and "fc_get p w (fc, s) = (Inr f, fc', s')" and "task_fd t = Some (p, w, f)"
  shows "holds s' t"
proof -
  obtain i w' where "fds s' f = Some (p, i, w')" "w \<longrightarrow> w'" using fc_get_usable [OF assms(1,2)] by blast
  moreover have "os_wf s'" using fc_get_inv [OF assms(1,2)] fc_invD(2) by blast
  ultimately show ?thesis using assms(3) unfolding holds_def os_wf_def by auto
qed

lemma begin_msg_cases:
  assumes "begin_msg env rnd wm srv = (r, srv')"
  shows "r = None \<and> srv' = handle_msg env rnd wm srv
      \<and> (\<not> authenticated (srv_ctx srv (wm_conn wm)) \<or> Type (wm_msg wm) \<notin> {ReadReqT, WriteReqT, HashReqT})
    \<or> get_cache srv' = get_cache srv \<and> srv_panic srv' = srv_panic srv \<and> srv_chan srv' = srv_chan srv \<and> (\<forall>t. r = Some t \<longrightarrow> task_fd t = None)"
  using assms
  by (cases "wm_msg wm")
     (auto simp: begin_defs getConnAuth_def mtype_defs failed_defs split: option.splits if_splits sum.splits)

lemma fc_later: "fc_get p w (get_cache srv) = (r, st) \<Longrightarrow> later (srv_os srv) (snd st)"
  using later_get [of "srv_os srv" p w "srv_fdCache srv"] by (simp add: get_cache_def)

lemma task_step_later:
  assumes "task_step env rnd t srv pos = (r, srv', pos')"
  shows "later (srv_os srv) (srv_os srv')"
proof -
  have k: "fd_Stat f s = (i, s') \<Longrightarrow> later s s'" "os_ReadAt f n off s = (d, s') \<Longrightarrow> later s s'" "os_WriteAt f b off s = (m, s') \<Longrightarrow> later s s'"
    "fd_Seek f s = (e, s') \<Longrightarrow> later s s'" "fd_Read f j s = (a, s') \<Longrightarrow> later s s'" for f s i s' n off d b m e a j
    using later_calls later_Read by (metis snd_conv)+
  have ev: "later (srv_os srv) (snd (fc_evict p (get_cache srv)))" for p
    using later_cache(1) [of "get_cache srv" p] by (simp add: get_cache_def)
  show ?thesis
  proof (cases t)
    case (TMsg wm)
    then show ?thesis
      using assms begin_msg_cases [of env rnd wm srv r srv'] later_handle_msg [of srv wm env rnd] by (auto simp: get_cache_def)
  next
    case (TReadAt conn req ca p f)
    then show ?thesis
      using assms by (auto simp: read_finish_def failed_defs dest!: k split: prod.splits option.splits sum.splits if_splits)
  qed (use assms ev in \<open>auto simp: failed_defs dest!: fc_later k split: prod.splits option.splits sum.splits if_splits\<close>)
qed

lemma fc_keeps_Read [fc_keeps]: "fd_Read f off s = (r, s') \<Longrightarrow> fc_inv (fc, s) \<Longrightarrow> fc_inv (fc, s')"
  by (auto simp: fd_Read_def dest: fc_keeps_ReadAll split: prod.splits sum.splits)

lemma task_step_inv:
  assumes "task_step env rnd t srv pos = (r, srv', pos')" and inv: "srv_inv srv"
  shows "srv_inv srv'"
proof -
  have fi: "fc_inv (srv_fdCache srv, srv_os srv)" by (rule srv_invD [OF inv])
  have g: "fc_get p w (get_cache srv) = (q, st) \<Longrightarrow> fc_inv st" for p w q st
    using fc_get_inv inv unfolding srv_inv_def by blast
  have ev: "fc_inv (fc_evict p (get_cache srv))" for p using fc_evict_inv inv unfolding srv_inv_def by blast
  show ?thesis
  proof (cases t)
    case (TMsg wm)
    then show ?thesis
      using assms begin_msg_cases [of env rnd wm srv r srv'] handle_msg_inv [OF inv, of env rnd wm] by (auto simp: srv_inv_def)
  next
    case (TReadAt conn req ca p f)
    then show ?thesis
      using assms(1) fi
      by (auto simp: srv_inv_def read_finish_def failed_defs dest: fc_keeps split: prod.splits option.splits sum.splits if_splits)
  qed (use assms(1) ev fi in \<open>auto simp: srv_inv_def failed_defs dest: g fc_keeps split: prod.splits option.splits sum.splits if_splits\<close>)
qed

lemma task_step_holds:
  assumes "task_step env rnd t srv pos = (Some t', srv', pos')" and "srv_inv srv" and "holds (srv_os srv) t"
  shows "holds (srv_os srv') t'"
proof (cases "task_fd t' = None \<or> task_fd t' = task_fd t")
  case True
  then show ?thesis
    using holds_later [OF assms(3) task_step_later [OF assms(1)]] holds_none by (auto simp: holds_def)
next
  case False
  have fi: "fc_inv (srv_fdCache srv, srv_os srv)" by (rule srv_invD [OF assms(2)])
  show ?thesis
    using False assms(1)
    by (cases t) (auto simp: get_cache_def dest: begin_msg_cases intro!: holds_get [OF fi] split: prod.splits option.splits sum.splits if_splits)
qed

definition workers_inv :: "workers \<Rightarrow> bool" where
  "workers_inv P \<longleftrightarrow> srv_inv (wp_srv P) \<and> (\<forall>t \<in> set (wp_busy P). holds (srv_os (wp_srv P)) t)"

lemma workers_inv_later:
  assumes "workers_inv P" and "srv_inv srv'" and "later (srv_os (wp_srv P)) (srv_os srv')" and "\<And>t. t \<in> set ts \<Longrightarrow> t \<in> set (wp_busy P) \<or> holds (srv_os srv') t"
  shows "workers_inv (P\<lparr>wp_srv := srv', wp_pos := pos', wp_busy := ts\<rparr>)"
proof -
  have "holds (srv_os srv') t" if "t \<in> set ts" for t
    using assms(1,4) that holds_later [OF _ assms(3)] unfolding workers_inv_def by blast
  then show ?thesis using assms(2) by (simp add: workers_inv_def)
qed

lemma workers_run_inv: "workers_run env P0 ms P \<Longrightarrow> workers_inv P0 \<Longrightarrow> workers_inv P"
proof (induction rule: workers_run.induct)
  case (take_msg ms P wm q)
  then show ?case by (auto simp: workers_inv_def holds_none)
next
  case (work ms P ts t us rnd t' srv' pos')
  then have "workers_inv P" by blast
  then show ?case
    using task_step_inv [OF work.hyps(4)] task_step_later [OF work.hyps(4)] task_step_holds [OF work.hyps(4)] work.hyps(3)
    by (intro workers_inv_later) (auto simp: workers_inv_def)
next
  case (finish ms P ts t us rnd srv' pos')
  then have "workers_inv P" by blast
  then show ?case
    using task_step_inv [OF finish.hyps(4)] task_step_later [OF finish.hyps(4)] finish.hyps(3)
    by (intro workers_inv_later) (auto simp: workers_inv_def)
next
  case (sweep ms P now)
  then show ?case
    using fc_sweep_inv later_cache(2) [of "get_cache (wp_srv P)" now] holds_later
    by (auto simp: workers_inv_def srv_inv_def) (auto simp: get_cache_def)
next
  case (shutdown ms P)
  then show ?case
    using fc_close_inv later_cache(3) [of "get_cache (wp_srv P)"] holds_later
    by (auto simp: workers_inv_def srv_inv_def) (auto simp: get_cache_def)
next
  case (files ms P s')
  then show ?case
    using fc_inv_os [OF srv_invD, of "wp_srv P" s'] holds_later later_same [of s' "srv_os (wp_srv P)"]
    by (auto simp: workers_inv_def srv_inv_def)
qed (auto simp: workers_inv_def)

section \<open>Requests and replies\<close>

definition request_msg :: "wrappedMsg \<Rightarrow> bool" where
  "request_msg wm \<longleftrightarrow> is_request (wm_msg wm)"

text \<open>Connection and number of a request and of a reply, and what a worker still has to answer.\<close>

definition msg_key :: "wrappedMsg \<Rightarrow> connid \<times> int64" where
  "msg_key wm = (wm_conn wm, GetID (wm_msg wm))"

definition out_key :: "connid \<times> MSG \<times> bytes \<Rightarrow> connid \<times> int64" where
  "out_key = (\<lambda>(conn, m, p). (conn, GetID m))"

fun owed :: "task \<Rightarrow> (connid \<times> int64) multiset" where
  "owed (TMsg wm) = {#msg_key wm#}"
| "owed (TReadGet conn req ca p) = {#(conn, rreq_ID req)#}"
| "owed (TReadStat conn req ca p f) = {#(conn, rreq_ID req)#}"
| "owed (TReadAt conn req ca p f) = {#(conn, rreq_ID req)#}"
| "owed (TWriteGet conn req p d) = {#(conn, wreq_ID req)#}"
| "owed (TWriteAt conn req p d f) = {#(conn, wreq_ID req)#}"
| "owed (TWriteEvict conn req p e) = {#(conn, wreq_ID req)#}"
| "owed (THashGet conn req p) = {#(conn, hreq_ID req)#}"
| "owed (THashSeek conn req p f) = {#(conn, hreq_ID req)#}"
| "owed (THashCopy conn req p f h) = {#(conn, hreq_ID req)#}"
| "owed (THashEvict p) = {#}"

definition replies :: "copierServer \<Rightarrow> (connid \<times> int64) multiset" where
  "replies srv = image_mset out_key (mset (srv_out srv))"

lemma replies_simps [simp]:
  "replies (reply conn m p srv) = add_mset (conn, GetID m) (replies srv)" "replies (put_cache st srv) = replies srv"
  "replies (srv\<lparr>srv_os := s\<rparr>) = replies srv" "replies (srv\<lparr>srv_chan := q\<rparr>) = replies srv"
  by (simp_all add: replies_def out_key_def)

lemma handle_msg_chan:
  assumes "srv_inv srv" and "is_request (wm_msg wm)"
  shows "srv_chan (handle_msg env rnd wm srv) = srv_chan srv"
proof (cases "Type (wm_msg wm) = AuthReqT")
  case True
  then obtain req where "wm_msg wm = MAuthReq req" by (cases "wm_msg wm") (simp_all add: mtype_defs)
  then show ?thesis
    by (cases rule: handleAuth_cases [of env rnd "wm_conn wm" req srv]) (auto simp: handle_msg_auth)
next
  case na: False
  show ?thesis
  proof (cases "authenticated (srv_ctx srv (wm_conn wm))")
    case False
    then show ?thesis using na by (simp add: handle_msg_unauth rejectUnauthenticated_def)
  next
    case True
    then obtain ca where "srv_ctx srv (wm_conn wm) = Some ca" "ca_state ca = authOK" by (auto split: option.splits)
    from handle_msg_request [OF assms(1) this assms(2) na, of env rnd] show ?thesis
      by (auto dest!: replied_same_auth simp: same_auth_def panicked_def)
  qed
qed

lemma begin_msg_owed:
  assumes inv: "srv_inv srv" and m: "is_request (wm_msg wm)" and b: "begin_msg env rnd wm srv = (r, srv')" and np: "\<not> srv_panic srv'"
  shows "replies srv' + (case r of None \<Rightarrow> {#} | Some t \<Rightarrow> owed t) = replies srv + {#msg_key wm#} \<and> srv_chan srv' = srv_chan srv"
proof (cases "r = None \<and> srv' = handle_msg env rnd wm srv")
  case True
  then obtain m' p where "srv_out srv' = srv_out srv @ [(wm_conn wm, m', p)]" "GetID m' = GetID (wm_msg wm)"
    using handle_msg_reply_or_panic [OF inv m, of env rnd srv'] np by (auto simp: answers_def)
  then show ?thesis using True handle_msg_chan [OF inv m, of env rnd] by (simp add: replies_def out_key_def msg_key_def)
next
  case False
  then show ?thesis
    using b by (cases "wm_msg wm")
      (auto simp: begin_defs failed_defs msg_key_def split: option.splits if_splits sum.splits)
qed

lemma task_step_owed:
  assumes inv: "srv_inv srv" and m: "\<And>wm. t = TMsg wm \<Longrightarrow> request_msg wm" and st: "task_step env rnd t srv pos = (r, srv', pos')"
    and np: "\<not> srv_panic srv'"
  shows "replies srv' + (case r of None \<Rightarrow> {#} | Some t' \<Rightarrow> owed t') = replies srv + owed t \<and> srv_chan srv' = srv_chan srv"
proof (cases t)
  case (TMsg wm)
  then show ?thesis using begin_msg_owed [OF inv m [OF TMsg, unfolded request_msg_def] _ np, of env rnd r] st by simp
next
  case (TReadAt conn req ca p f)
  then show ?thesis
    using st by (auto simp: read_finish_def failed_defs split: prod.splits option.splits sum.splits if_splits)
qed (use st np in \<open>auto simp: failed_defs split: prod.splits option.splits sum.splits if_splits\<close>)

text \<open>Only requests wait in the channel and with the workers, if only requests were accepted.\<close>

definition only_requests :: "workers \<Rightarrow> bool" where
  "only_requests P \<longleftrightarrow> (\<forall>wm \<in> set (srv_chan (wp_srv P)). request_msg wm) \<and> (\<forall>wm. TMsg wm \<in> set (wp_busy P) \<longrightarrow> request_msg wm)"

lemma only_requests_mono:
  assumes "only_requests P" and "srv_chan (wp_srv Q) = srv_chan (wp_srv P)" and "\<And>wm. TMsg wm \<in> set (wp_busy Q) \<Longrightarrow> TMsg wm \<in> set (wp_busy P)"
  shows "only_requests Q"
  using assms unfolding only_requests_def by simp

definition pending :: "workers \<Rightarrow> (connid \<times> int64) multiset" where
  "pending P = image_mset msg_key (mset (srv_chan (wp_srv P))) + sum_list (map owed (wp_busy P))"

lemma pending_same [simp]:
  "pending (P\<lparr>wp_srv := put_cache st (wp_srv P)\<rparr>) = pending P" "pending (P\<lparr>wp_srv := (wp_srv P)\<lparr>srv_os := s\<rparr>\<rparr>) = pending P"
  "pending (P\<lparr>wp_cancelled := b\<rparr>) = pending P"
  by (simp_all add: pending_def)

lemma only_requests_same [simp]:
  "only_requests (P\<lparr>wp_srv := put_cache st (wp_srv P)\<rparr>) = only_requests P" "only_requests (P\<lparr>wp_srv := (wp_srv P)\<lparr>srv_os := s\<rparr>\<rparr>) = only_requests P"
  "only_requests (P\<lparr>wp_cancelled := b\<rparr>) = only_requests P"
  by (simp_all add: only_requests_def)

lemma task_step_no_msg: "task_step env rnd t srv pos = (Some (TMsg wm), srv', pos') \<Longrightarrow> False"
  by (cases t) (auto simp: begin_defs split: prod.splits option.splits sum.splits if_splits MSG.splits)

lemma step_balance:
  assumes inv: "srv_inv (wp_srv P)" and o: "only_requests P" and b: "wp_busy P = ts @ t # us" and st: "task_step env rnd t (wp_srv P) (wp_pos P) = (r, srv', pos')"
    and np: "\<not> srv_panic srv'" and Q: "Q = P\<lparr>wp_srv := srv', wp_pos := pos', wp_busy := ts @ (case r of None \<Rightarrow> [] | Some t' \<Rightarrow> [t']) @ us\<rparr>"
  shows "only_requests Q \<and> replies (wp_srv Q) + pending Q = replies (wp_srv P) + pending P \<and> srv_chan srv' = srv_chan (wp_srv P)"
proof -
  have m: "request_msg wm" if "t = TMsg wm" for wm using o b that by (simp add: only_requests_def)
  have s: "replies srv' + (case r of None \<Rightarrow> {#} | Some t' \<Rightarrow> owed t') = replies (wp_srv P) + owed t" "srv_chan srv' = srv_chan (wp_srv P)"
    using task_step_owed [OF inv m st np] by blast+
  have "r \<noteq> Some (TMsg wm)" for wm using task_step_no_msg st by blast
  then have "only_requests Q" using b s(2) by (intro only_requests_mono [OF o]) (auto simp: Q split: option.splits)
  moreover have "replies (wp_srv Q) + pending Q = replies (wp_srv P) + pending P"
    using s b by (cases r) (simp_all add: Q pending_def ac_simps)
  ultimately show ?thesis using s(2) by blast
qed

lemma workers_run_balance:
  assumes "workers_run env P0 ms P" and "workers_inv P0" and "only_requests P0" and "\<And>wm. wm \<in> set ms \<Longrightarrow> request_msg wm" and "\<not> srv_panic (wp_srv P)"
  shows "only_requests P \<and> replies (wp_srv P) + pending P = replies (wp_srv P0) + pending P0 + image_mset msg_key (mset ms)"
  using assms
proof (induction rule: workers_run.induct)
  case (work ms P ts t us rnd t' srv' pos')
  have inv: "srv_inv (wp_srv P)" using workers_run_inv [OF work.hyps(1) work.prems(1)] by (simp add: workers_inv_def)
  show ?case using work step_balance [OF inv _ work.hyps(3,4) _ refl] by simp
next
  case (finish ms P ts t us rnd srv' pos')
  have inv: "srv_inv (wp_srv P)" using workers_run_inv [OF finish.hyps(1) finish.prems(1)] by (simp add: workers_inv_def)
  show ?case using finish step_balance [OF inv _ finish.hyps(3,4) _ refl] by simp
next
  case (arrive ms P wm)
  have p: "pending (P\<lparr>wp_srv := (wp_srv P)\<lparr>srv_chan := srv_chan (wp_srv P) @ [wm]\<rparr>\<rparr>) = add_mset (msg_key wm) (pending P)"
    by (simp add: pending_def)
  have "only_requests P" "replies (wp_srv P) + pending P = replies (wp_srv P0) + pending P0 + image_mset msg_key (mset ms)" "request_msg wm"
    using arrive.IH arrive.hyps(2) arrive.prems by auto
  then show ?case unfolding p by (auto simp: only_requests_def)
next
  case (take_msg ms P wm q)
  have p: "pending (P\<lparr>wp_srv := (wp_srv P)\<lparr>srv_chan := q\<rparr>, wp_busy := wp_busy P @ [TMsg wm]\<rparr>) = pending P"
    using take_msg.hyps(3) by (simp add: pending_def)
  have "only_requests P" "replies (wp_srv P) + pending P = replies (wp_srv P0) + pending P0 + image_mset msg_key (mset ms)"
    using take_msg.IH take_msg.hyps(2) take_msg.prems by auto
  then show ?case unfolding p using take_msg.hyps(3) by (auto simp: only_requests_def)
qed simp_all

section \<open>Which files a worker touches\<close>

text \<open>What a step may do to files, and what an answer says about them: a read answers with an error or from
  the file the request names, every call of a copy takes its bytes from that file, a write changes no other file, and no other step changes any.\<close>

fun right_file ::
  "('pk, 'sig) server_env \<Rightarrow> (nat \<Rightarrow> goerror + bytes) \<Rightarrow> task \<Rightarrow> copierServer \<Rightarrow> (fd \<Rightarrow> nat) \<Rightarrow> task option \<Rightarrow> copierServer \<Rightarrow> bool" where
  "right_file env rnd (TMsg wm) srv pos r srv' \<longleftrightarrow> True"
| "right_file env rnd (TReadAt conn req ca p f) srv pos r srv' \<longleftrightarrow> same_files (srv_os srv) (srv_os srv') \<and>
     ((\<exists>err. srv' = readFailed conn req err (srv\<lparr>srv_os := srv_os srv'\<rparr>))
      \<or> (\<exists>d. read_done (env_codec env) rnd (ca_encryptionKey ca) conn req d srv srv' \<and>
           (d = [] \<or> (\<exists>c k. file_data (srv_os srv) p = Some c \<and> 0 \<le> rreq_Offset req \<and> k \<le> nat (rreq_Size req) \<and> d = take k (drop (nat (rreq_Offset req)) c)))))"
| "right_file env rnd (TWriteAt conn req p d f) srv pos r srv' \<longleftrightarrow>
     (\<forall>q. resolve (srv_os srv) q \<noteq> resolve (srv_os srv) p \<longrightarrow> file_data (srv_os srv') q = file_data (srv_os srv) q)
     \<and> (r = None \<longrightarrow> d = [] \<or> (\<exists>c. file_data (srv_os srv) p = Some c \<and> file_data (srv_os srv') p = Some (write_at c (nat (wreq_Offset req)) d)))"
| "right_file env rnd (THashCopy conn req p f h) srv pos r srv' \<longleftrightarrow> same_files (srv_os srv) (srv_os srv') \<and>
     ((\<exists>err. srv' = hashFailed conn req err (srv\<lparr>srv_os := srv_os srv'\<rparr>))
      \<or> (\<exists>c. file_data (srv_os srv) p = Some c \<and>
           (r = Some (THashCopy conn req p f (h @ take copyBuf (drop (pos f) c))) \<and> srv' = srv\<lparr>srv_os := srv_os srv'\<rparr>
            \<or> length c \<le> pos f \<and>
              srv' = reply conn (MHashRes \<lparr>hres_ID = hreq_ID req, hres_Success = True, hres_Hash = Sum256 h, hres_Error = []\<rparr>) [] (srv\<lparr>srv_os := srv_os srv'\<rparr>))))"
| "right_file env rnd t srv pos r srv' \<longleftrightarrow> same_files (srv_os srv) (srv_os srv')"

lemma read_right:
  assumes h: "holds (srv_os srv) (TReadAt conn req ca p f)" and co: "coherent (srv_os srv)"
    and st: "task_step env rnd (TReadAt conn req ca p f) srv pos = (r, srv', pos')"
  shows "right_file env rnd (TReadAt conn req ca p f) srv pos r srv'"
proof -
  let ?n = "nat (rreq_Size req)" and ?off = "rreq_Offset req"
  obtain d e s' where rd: "os_ReadAt f ?n ?off (srv_os srv) = ((d, e), s')" by (metis prod.exhaust)
  have srv': "srv' = read_finish (env_codec env) rnd conn req ca d e (srv\<lparr>srv_os := s'\<rparr>)" using st rd by simp
  then have os: "srv_os srv' = s'" by (auto simp: read_finish_def failed_defs split: option.splits sum.splits)
  have sf: "same_files (srv_os srv) s'" using same_files_ReadAt [of "srv_os srv" f ?n ?off] rd by simp
  have "d = [] \<or> (\<exists>c k. file_data (srv_os srv) p = Some c \<and> 0 \<le> ?off \<and> k \<le> ?n \<and> d = take k (drop (nat ?off) c))"
  proof (cases "fds (srv_os srv) f")
    case None
    then show ?thesis using rd by (auto simp: os_ReadAt_def Let_def split: if_splits)
  next
    case (Some x)
    then obtain i w where "fds (srv_os srv) f = Some (p, i, w)" using h by (cases x) (auto simp: holds_def)
    then show ?thesis using ReadAt_data [OF co _ rd] by (cases "d = []") (simp, metis)
  qed
  moreover have "(\<exists>err. srv' = readFailed conn req err (srv\<lparr>srv_os := s'\<rparr>)) \<or> read_done (env_codec env) rnd (ca_encryptionKey ca) conn req d srv srv'"
    unfolding srv' by (auto simp: read_finish_def read_done_def readSuccess_def split: option.splits sum.splits)
  ultimately show ?thesis using sf os by auto
qed

lemma write_right:
  assumes h: "holds (srv_os srv) (TWriteAt conn req p d f)" and wf: "os_wf (srv_os srv)" "coherent (srv_os srv)"
    and st: "task_step env rnd (TWriteAt conn req p d f) srv pos = (r, srv', pos')"
  shows "right_file env rnd (TWriteAt conn req p d f) srv pos r srv'"
proof -
  let ?s = "srv_os srv" and ?off = "wreq_Offset req"
  obtain n e s' where w: "os_WriteAt f d ?off ?s = ((n, e), s')" by (metis prod.exhaust)
  have os: "srv_os srv' = s'" "r = None \<longleftrightarrow> e = None" using st w by (auto simp: failed_defs split: option.splits)
  show ?thesis
  proof (cases "fds ?s f")
    case None
    then show ?thesis using w os by (auto simp: os_WriteAt_def Let_def split: if_splits)
  next
    case (Some x)
    then obtain i w' where f: "fds ?s f = Some (p, i, w')" using h by (cases x) (auto simp: holds_def)
    obtain nd where "lookup ?s p = Some (i, nd)" using wf(2) f unfolding coherent_def by blast
    then have "file_data s' q = file_data ?s q" if "resolve ?s q \<noteq> resolve ?s p" for q
      using lookup_WriteAt_other [OF wf(1) f _ w that] by (simp add: file_data_def)
    moreover have "d = [] \<or> (\<exists>c. file_data ?s p = Some c \<and> file_data s' p = Some (write_at c (nat ?off) d))" if "e = None"
      using WriteAt_data(1) [OF wf(2) f w _ that] by auto
    ultimately show ?thesis using os by simp
  qed
qed

lemma hash_right:
  assumes h: "holds (srv_os srv) (THashCopy conn req p f h)" and co: "coherent (srv_os srv)"
    and st: "task_step env rnd (THashCopy conn req p f h) srv pos = (r, srv', pos')"
  shows "right_file env rnd (THashCopy conn req p f h) srv pos r srv'"
proof -
  obtain b s' where rd: "os_ReadAll f (srv_os srv) = (b, s')" by (metis prod.exhaust)
  have os: "srv_os srv' = s'" using st rd by (auto simp: hashFailed_def fd_Read_def split: sum.splits if_splits)
  have sf: "same_files (srv_os srv) s'" using same_files_ReadAll [of "srv_os srv" f] rd by simp
  show ?thesis
  proof (cases b)
    case (Inl e)
    then have "srv' = hashFailed conn req e (srv\<lparr>srv_os := srv_os srv'\<rparr>)" using st rd os by (simp add: fd_Read_def)
    then show ?thesis using sf os by auto
  next
    case (Inr c)
    obtain x where "fds (srv_os srv) f = Some x" using rd Inr by (auto simp: os_ReadAll_def split: option.splits)
    then obtain i w where f: "fds (srv_os srv) f = Some (p, i, w)" using h by (cases x) (auto simp: holds_def)
    obtain n where "inodes (srv_os srv) i = Some n" "\<not> i_dir n" "c = i_data n" using ReadAll_open [OF rd [unfolded Inr] f] by blast
    then have "file_data (srv_os srv) p = Some c" using coherent_handle(2) [OF co f] by simp
    then show ?thesis using st rd Inr os sf by (auto simp: fd_Read_def copyBuf_def split: if_splits)
  qed
qed

lemma step_right:
  assumes inv: "srv_inv srv" and co: "coherent (srv_os srv)" and h: "holds (srv_os srv) t" and st: "task_step env rnd t srv pos = (r, srv', pos')"
  shows "right_file env rnd t srv pos r srv'"
proof -
  have fi: "fc_inv (srv_fdCache srv, srv_os srv)" by (rule srv_invD [OF inv])
  have g: "fc_get p w (get_cache srv) = (q, a, s1) \<Longrightarrow> same_files (srv_os srv) s1" for p w q a s1
    using fc_get_files [OF fi co] by (simp add: get_cache_def)
  have ev: "same_files (srv_os srv) (snd (fc_evict p (get_cache srv)))" for p
    using fc_evict_files [OF co, of p "srv_fdCache srv"] by (metis get_cache_def prod.collapse)
  have sf: "fd_Stat f s = (i, s1) \<Longrightarrow> same_files s s1" "fd_Seek f s = (e, s1) \<Longrightarrow> same_files s s1" for f s i s1 e
    by (auto simp: same_files_def fd_Stat_def fd_Seek_def tick_def split: option.splits)
  show ?thesis
  proof (cases t)
    case (TReadAt conn req ca p f)
    then show ?thesis using read_right h co st by blast
  next
    case (TWriteAt conn req p d f)
    then show ?thesis using write_right h fc_invD(2) [OF fi] co st by blast
  next
    case (THashCopy conn req p f h')
    then show ?thesis using hash_right h co st by blast
  qed (use st ev in \<open>auto simp: failed_defs dest!: g dest: sf split: prod.splits option.splits sum.splits if_splits\<close>)
qed

section \<open>Progress\<close>

text \<open>A worker that is not interrupted gets done: every other task has a bounded number of steps left, and a copy reads on
  until the end of the file.\<close>

lemma alone_step:
  assumes "task_step env rnd t srv pos = (r, srv', pos')" and "\<And>t'. r = Some t' \<Longrightarrow> \<exists>k. fst (run_alone env rnd k t' srv' pos') = None"
  shows "\<exists>k. fst (run_alone env rnd k t srv pos) = None"
proof (cases r)
  case None
  then show ?thesis using assms(1) by (intro exI [of _ 1]) simp
next
  case (Some t')
  then obtain k where "fst (run_alone env rnd k t' srv' pos') = None" using assms(2) by blast
  then show ?thesis using assms(1) Some by (intro exI [of _ "Suc k"]) simp
qed

lemma alone_evict: "\<exists>k. fst (run_alone env rnd k (THashEvict p) srv pos) = None"
  by (intro exI [of _ 1]) simp

lemma alone_copy_ends: "\<exists>k. fst (run_alone env rnd k (THashCopy conn req p f h) srv pos) = None"
proof (cases "fst (os_ReadAll f (srv_os srv))")
  case (Inl e)
  then show ?thesis by (intro exI [of _ "Suc (Suc 0)"]) (auto simp: fd_Read_def split: prod.splits)
next
  case (Inr b)
  have "\<forall>n c. fst (os_ReadAll f ((srv_os srv)\<lparr>ticks := n\<rparr>)) = Inr c \<longrightarrow> c = b"
    using ReadAll_same [of f "srv_os srv" b] Inr by (metis prod.collapse)
  then show ?thesis
  proof (induction "length b - pos f" arbitrary: h pos srv rule: less_induct)
    case less
    obtain m where rd: "os_ReadAll f (srv_os srv) = (fst (os_ReadAll f (srv_os srv)), (srv_os srv)\<lparr>ticks := m\<rparr>)"
      by (rule ReadAll_shape)
    obtain r srv' pos' where st: "task_step env rnd (THashCopy conn req p f h) srv pos = (r, srv', pos')" by (metis prod.exhaust)
    show ?case
    proof (rule alone_step [OF st])
      fix t' assume r: "r = Some t'"
      have c: "fst (os_ReadAll f (srv_os srv)) = Inr c \<Longrightarrow> c = b" for c
        using less.prems [rule_format, of "ticks (srv_os srv)"] by simp
      show "\<exists>k. fst (run_alone env rnd k t' srv' pos') = None"
      proof (cases "\<exists>h'. t' = THashCopy conn req p f h'")
        case True
        then have "pos f < length b" "srv' = srv\<lparr>srv_os := (srv_os srv)\<lparr>ticks := m\<rparr>\<rparr>" "pos' = pos(f := pos f + length (take copyBuf (drop (pos f) b)))"
          using st r rd c by (auto simp: fd_Read_def split: sum.splits prod.splits if_splits)
        then show ?thesis using True less.hyps [of pos' srv'] less.prems by (auto simp: copyBuf_def)
      next
        case False
        then have "t' = THashEvict p" using st r by (auto split: sum.splits prod.splits if_splits)
        then show ?thesis by (simp add: alone_evict)
      qed
    qed
  qed
qed

fun rank :: "task \<Rightarrow> nat" where
  "rank (TMsg _) = 5"
| "rank (TReadGet _ _ _ _) = 3"
| "rank (TReadStat _ _ _ _ _) = 2"
| "rank (TReadAt _ _ _ _ _) = 1"
| "rank (TWriteGet _ _ _ _) = 3"
| "rank (TWriteAt _ _ _ _ _) = 2"
| "rank (TWriteEvict _ _ _ _) = 1"
| "rank (THashGet _ _ _) = 4"
| "rank (THashSeek _ _ _ _) = 3"
| "rank (THashCopy _ _ _ _ _) = 2"
| "rank (THashEvict _) = 1"

lemma task_step_rank:
  "task_step env rnd t srv pos = (Some t', srv', pos') \<Longrightarrow> (\<exists>conn req p f h. t' = THashCopy conn req p f h) \<or> rank t' < rank t"
  by (cases t) (auto simp: begin_defs split: prod.splits option.splits sum.splits if_splits MSG.splits)

lemma alone_ends: "\<exists>k. fst (run_alone env rnd k t srv pos) = None"
proof (induction "rank t" arbitrary: t srv pos rule: less_induct)
  case less
  obtain r srv' pos' where st: "task_step env rnd t srv pos = (r, srv', pos')" by (metis prod.exhaust)
  show ?case
  proof (rule alone_step [OF st])
    fix t' assume "r = Some t'"
    then show "\<exists>k. fst (run_alone env rnd k t' srv' pos') = None"
      using task_step_rank [of env rnd t srv pos t' srv' pos'] st less alone_copy_ends by auto
  qed
qed

text \<open>The steps of a worker that is not interrupted are steps of the pool, up to a panic.\<close>

lemma task_step_panic: "task_step env rnd t srv pos = (Some t', srv', pos') \<Longrightarrow> srv_panic srv' = srv_panic srv"
  by (cases t) (auto simp: begin_defs failed_defs put_cache_def split: prod.splits option.splits sum.splits if_splits MSG.splits)

lemma workers_run_alone:
  assumes "workers_run env P0 ms P" and "\<not> srv_panic (wp_srv P)" and "wp_busy P = t # us"
    and "run_alone env rnd k t (wp_srv P) (wp_pos P) = (None, srv', pos')"
  shows "workers_run env P0 ms (P\<lparr>wp_srv := srv', wp_pos := pos', wp_busy := us\<rparr>)"
  using assms
proof (induction k arbitrary: t P)
  case (Suc k)
  obtain r srv1 pos1 where st: "task_step env rnd t (wp_srv P) (wp_pos P) = (r, srv1, pos1)" by (metis prod.exhaust)
  show ?case
  proof (cases r)
    case None
    then show ?thesis using Suc.prems st workers_run.finish [OF Suc.prems(1,2), of "[]" t us rnd srv' pos'] by simp
  next
    case (Some t')
    let ?P = "P\<lparr>wp_srv := srv1, wp_pos := pos1, wp_busy := t' # us\<rparr>"
    have "workers_run env P0 ms ?P" using workers_run.work [OF Suc.prems(1,2), of "[]" t us rnd t' srv1 pos1] st Some Suc.prems(3) by simp
    then show ?thesis using Suc.IH [of ?P t'] Suc.prems(2,4) st Some task_step_panic [of env rnd t "wp_srv P" "wp_pos P" t' srv1 pos1] by simp
  qed
qed simp

lemma run_alone_chan:
  assumes "run_alone env rnd k t srv pos = (None, srv', pos')" and "srv_inv srv" and "\<And>wm. t = TMsg wm \<Longrightarrow> request_msg wm"
    and "\<not> srv_panic srv" and "\<not> srv_panic srv'"
  shows "srv_chan srv' = srv_chan srv"
  using assms(1-4)
proof (induction k arbitrary: t srv pos)
  case (Suc k)
  obtain r srv1 pos1 where st: "task_step env rnd t srv pos = (r, srv1, pos1)" by (metis prod.exhaust)
  have s: "\<not> srv_panic srv1 \<Longrightarrow> srv_chan srv1 = srv_chan srv" using task_step_owed [OF Suc.prems(2,3) st] by blast
  show ?case
  proof (cases r)
    case None
    then show ?thesis using Suc.prems(1) st s assms(5) by simp
  next
    case (Some t')
    have p: "\<not> srv_panic srv1" using task_step_panic st Some Suc.prems(4) by metis
    have "t' \<noteq> TMsg wm" for wm using task_step_no_msg st Some by blast
    then have "srv_chan srv' = srv_chan srv1"
      using Suc.IH [of t' srv1 pos1] Suc.prems(1) st Some task_step_inv [OF st Suc.prems(2)] p by auto
    moreover have "srv_chan srv1 = srv_chan srv" using s p by blast
    ultimately show ?thesis by simp
  qed
qed simp

text \<open>A message can wait only where there are workers.\<close>

lemma workers_run_chan:
  assumes "workers_run env P0 ms P" and "length (srv_chan (wp_srv P0)) \<le> wp_procs P0" and "workers_inv P0" and "only_requests P0"
    and "\<And>wm. wm \<in> set ms \<Longrightarrow> request_msg wm" and "\<not> srv_panic (wp_srv P)"
  shows "wp_procs P = wp_procs P0 \<and> length (srv_chan (wp_srv P)) \<le> wp_procs P"
  using assms(1,2,5,6)
proof (induction rule: workers_run.induct)
  case (work ms P ts t us rnd t' srv' pos')
  have inv: "srv_inv (wp_srv P)" using workers_run_inv [OF work.hyps(1) assms(3)] by (simp add: workers_inv_def)
  have "only_requests P" using workers_run_balance [OF work.hyps(1) assms(3,4)] work.prems work.hyps(2) by blast
  then show ?case using work step_balance [OF inv _ work.hyps(3,4) _ refl] by simp
next
  case (finish ms P ts t us rnd srv' pos')
  have inv: "srv_inv (wp_srv P)" using workers_run_inv [OF finish.hyps(1) assms(3)] by (simp add: workers_inv_def)
  have "only_requests P" using workers_run_balance [OF finish.hyps(1) assms(3,4)] finish.prems finish.hyps(2) by blast
  then show ?case using finish step_balance [OF inv _ finish.hyps(3,4) _ refl] by simp
qed auto

text \<open>From any state the workers can get done with what was accepted, or the server panics.\<close>

lemma workers_drain:
  assumes "workers_run env P0 ms P" and "length (srv_chan (wp_srv P0)) \<le> wp_procs P0" and "workers_inv P0" and "only_requests P0"
    and "\<And>wm. wm \<in> set ms \<Longrightarrow> request_msg wm"
  shows "\<exists>Q. workers_run env P0 ms Q \<and> (srv_panic (wp_srv Q) \<or> srv_chan (wp_srv Q) = [] \<and> wp_busy Q = [])"
  using assms(1)
proof (induction "2 * length (srv_chan (wp_srv P)) + length (wp_busy P)" arbitrary: P rule: less_induct)
  case less
  consider (panic) "srv_panic (wp_srv P)" | (idle) "\<not> srv_panic (wp_srv P)" "wp_busy P = []" "srv_chan (wp_srv P) = []"
    | (take) wm q where "\<not> srv_panic (wp_srv P)" "wp_busy P = []" "srv_chan (wp_srv P) = wm # q"
    | (busy) t us where "\<not> srv_panic (wp_srv P)" "wp_busy P = t # us" by (metis list.exhaust)
  then show ?case
  proof cases
    case take
    let ?P = "P\<lparr>wp_srv := (wp_srv P)\<lparr>srv_chan := q\<rparr>, wp_busy := wp_busy P @ [TMsg wm]\<rparr>"
    have "length (srv_chan (wp_srv P)) \<le> wp_procs P" using workers_run_chan [OF less.prems assms(2-5) take(1)] by blast
    then have "workers_run env P0 ms ?P" using take by (intro workers_run.take_msg [OF less.prems]) simp_all
    then show ?thesis using less.hyps [of ?P] take by simp
  next
    case busy
    obtain k where "fst (run_alone env undefined k t (wp_srv P) (wp_pos P)) = None" using alone_ends by blast
    then obtain srv' pos' where r: "run_alone env undefined k t (wp_srv P) (wp_pos P) = (None, srv', pos')" by (metis prod.collapse)
    let ?Q = "P\<lparr>wp_srv := srv', wp_pos := pos', wp_busy := us\<rparr>"
    have run: "workers_run env P0 ms ?Q" by (rule workers_run_alone [OF less.prems busy r])
    show ?thesis
    proof (cases "srv_panic srv'")
      case False
      have "srv_inv (wp_srv P)" using workers_run_inv [OF less.prems assms(3)] by (simp add: workers_inv_def)
      moreover have "only_requests P" using workers_run_balance [OF less.prems assms(3-5) busy(1)] by blast
      ultimately have "srv_chan srv' = srv_chan (wp_srv P)"
        using run_alone_chan [OF r] False busy by (auto simp: only_requests_def)
      then show ?thesis using less.hyps [OF _ run] busy by simp
    qed (use run in auto)
  qed (use less.prems in blast)+
qed

section \<open>Schedules\<close>

text \<open>The worker at a position takes a step; a schedule is the order in which they do.\<close>

definition step_worker :: "('pk, 'sig) server_env \<Rightarrow> (nat \<Rightarrow> goerror + bytes) \<Rightarrow> nat \<Rightarrow> workers \<Rightarrow> workers" where
  "step_worker env rnd i P =
     (case task_step env rnd (wp_busy P ! i) (wp_srv P) (wp_pos P) of
        (None, srv', pos') \<Rightarrow> P\<lparr>wp_srv := srv', wp_pos := pos', wp_busy := take i (wp_busy P) @ drop (Suc i) (wp_busy P)\<rparr>
      | (Some t', srv', pos') \<Rightarrow> P\<lparr>wp_srv := srv', wp_pos := pos', wp_busy := (wp_busy P)[i := t']\<rparr>)"

fun schedule :: "('pk, 'sig) server_env \<Rightarrow> (nat \<Rightarrow> goerror + bytes) \<Rightarrow> nat list \<Rightarrow> workers \<Rightarrow> workers option" where
  "schedule env rnd [] P = Some P"
| "schedule env rnd (i # is) P =
     (if i < length (wp_busy P) \<and> \<not> srv_panic (wp_srv P) then schedule env rnd is (step_worker env rnd i P) else None)"

lemma step_worker_run:
  assumes "workers_run env P0 ms P" and "\<not> srv_panic (wp_srv P)" and "i < length (wp_busy P)"
  shows "workers_run env P0 ms (step_worker env rnd i P)"
proof -
  obtain r srv' pos' where st: "task_step env rnd (wp_busy P ! i) (wp_srv P) (wp_pos P) = (r, srv', pos')" by (metis prod.exhaust)
  have b: "wp_busy P = take i (wp_busy P) @ wp_busy P ! i # drop (Suc i) (wp_busy P)" using assms(3) by (rule id_take_nth_drop)
  show ?thesis
    using workers_run.work [OF assms(1,2) b] workers_run.finish [OF assms(1,2) b] st assms(3)
    by (cases r) (auto simp: step_worker_def upd_conv_take_nth_drop)
qed

lemma schedule_run: "schedule env rnd is P = Some Q \<Longrightarrow> workers_run env P0 ms P \<Longrightarrow> workers_run env P0 ms Q"
  by (induction env rnd "is" P rule: schedule.induct) (auto intro: step_worker_run split: if_splits)

text \<open>Two workers, one connection logged in, one file of three bytes.\<close>

definition sample_pool :: workers where
  "sample_pool = \<lparr>wp_srv = (newServer sample_local)\<lparr>srv_ctx := [7 \<mapsto> sample_ca]\<rparr>, wp_procs = 2, wp_busy = [], wp_pos = (\<lambda>_. 0), wp_cancelled = False\<rparr>"

definition hash_msg :: "int64 \<Rightarrow> wrappedMsg" where
  "hash_msg i = \<lparr>wm_msg = MHashReq \<lparr>hreq_ID = i, hreq_Path = ''f''\<rparr>, wm_payload = [], wm_conn = 7\<rparr>"

lemma sample_accepted: "workers_run env sample_pool [a, b] (sample_pool\<lparr>wp_busy := [TMsg a, TMsg b]\<rparr>)"
proof -
  let ?srv = "wp_srv sample_pool"
  have "workers_run env sample_pool [a] (sample_pool\<lparr>wp_srv := ?srv\<lparr>srv_chan := [a]\<rparr>\<rparr>)"
    using workers_run.arrive [OF workers_run.start, of sample_pool env a] by (simp add: sample_pool_def newServer_def)
  then have "workers_run env sample_pool [a, b] (sample_pool\<lparr>wp_srv := ?srv\<lparr>srv_chan := [a, b]\<rparr>\<rparr>)"
    using workers_run.arrive [of env sample_pool "[a]" _ b] by (fastforce simp: sample_pool_def newServer_def)
  then have "workers_run env sample_pool [a, b] (sample_pool\<lparr>wp_srv := ?srv\<lparr>srv_chan := [b]\<rparr>, wp_busy := [TMsg a]\<rparr>)"
    using workers_run.take_msg [of env sample_pool "[a, b]" _ a "[b]"] by (fastforce simp: sample_pool_def newServer_def)
  then show ?thesis
    using workers_run.take_msg [of env sample_pool "[a, b]" _ b "[]"] by (fastforce simp: sample_pool_def newServer_def)
qed

definition read_msg :: wrappedMsg where
  "read_msg = \<lparr>wm_msg = MReadReq (zeroReadReq\<lparr>rreq_ID := 1, rreq_Path := ''f'', rreq_Size := 3\<rparr>), wm_payload = [], wm_conn = 7\<rparr>"

definition write_msg :: wrappedMsg where
  "write_msg = \<lparr>wm_msg = MWriteReq (zeroWriteReq\<lparr>wreq_ID := 2, wreq_Path := ''f''\<rparr>), wm_payload = [9], wm_conn = 7\<rparr>"

definition race_state :: "wrappedMsg \<Rightarrow> wrappedMsg \<Rightarrow> nat list \<Rightarrow> workers" where
  "race_state a b is = the (schedule sample_env sample_rnd is (sample_pool\<lparr>wp_busy := [TMsg a, TMsg b]\<rparr>))"

lemma race_run:
  assumes "\<not> Option.is_none (schedule sample_env sample_rnd is (sample_pool\<lparr>wp_busy := [TMsg a, TMsg b]\<rparr>))"
  shows "workers_run sample_env sample_pool [a, b] (race_state a b is)"
proof -
  have "schedule sample_env sample_rnd is (sample_pool\<lparr>wp_busy := [TMsg a, TMsg b]\<rparr>) = Some (race_state a b is)"
    using assms by (simp add: race_state_def Option.is_none_def)
  then show ?thesis using schedule_run sample_accepted by blast
qed

section \<open>Properties of the pool\<close>

lemma newWorkers_start:
  assumes "newWorkers n s = Some P0" and "os_wf s" and "fds s = Map.empty"
  shows "workers_inv P0" "only_requests P0" "length (srv_chan (wp_srv P0)) \<le> wp_procs P0" "replies (wp_srv P0) + pending P0 = {#}"
  using assms newServer_inv [OF assms(2,3)]
  by (auto simp: newWorkers_def workers_inv_def only_requests_def pending_def replies_def newServer_def split: if_splits)

text \<open>C11: a worker that is not interrupted between its steps does what the handlers of \<open>Server\<close> say: it gets done, and the
  server is then as \<open>handle_msg\<close> leaves it (for a hash up to the number of system calls, and where none fails: the copy
  makes more of them).\<close>

theorem run_alone_handle_msg:
  assumes "Type (wm_msg wm) = HashReqT \<Longrightarrow> no_faults (srv_os srv)"
  shows "\<exists>k srv' pos'. run_alone env rnd k (TMsg wm) srv pos = (None, srv', pos') \<and> untick srv' = untick (handle_msg env rnd wm srv)
    \<and> (Type (wm_msg wm) \<noteq> HashReqT \<longrightarrow> srv' = handle_msg env rnd wm srv)"
proof (cases "begin_msg env rnd wm srv = (None, handle_msg env rnd wm srv)")
  case True
  then show ?thesis by (intro exI [of _ "Suc 0"]) simp
next
  case False
  then obtain ca where ca: "getConnAuth (wm_conn wm) srv = Some ca" "ca_state ca = authOK"
    by (auto simp: begin_msg_def split: option.splits if_splits)
  show ?thesis
  proof (cases "wm_msg wm")
    case (MReadReq req)
    then have "handle_msg env rnd wm srv = srv_read (env_codec env) rnd (wm_conn wm) req ca srv" using ca by (simp add: handle_msg_def)
    then show ?thesis using alone_read [OF MReadReq ca, of env rnd pos] by metis
  next
    case (MWriteReq req)
    then have "handle_msg env rnd wm srv = srv_write (env_codec env) (wm_conn wm) req (wm_payload wm) ca srv" using ca by (simp add: handle_msg_def)
    then show ?thesis using alone_write [OF MWriteReq ca, of env rnd pos] by metis
  next
    case (MHashReq req)
    then show ?thesis using alone_hash [OF MHashReq ca] ca assms by (simp add: handle_msg_def mtype_defs)
  qed (use False ca in \<open>simp_all add: begin_msg_def\<close>)
qed

theorem run_alone_handle_msg_witness:
  "\<exists>k srv' pos'. run_alone sample_env sample_rnd k (TMsg (hash_msg 1)) (wp_srv sample_pool) (\<lambda>_. 0) = (None, srv', pos')
     \<and> untick srv' = untick (handle_msg sample_env sample_rnd (hash_msg 1) (wp_srv sample_pool))"
proof -
  have "no_faults (srv_os (wp_srv sample_pool))" using sample_local_ok(3) by (simp add: sample_pool_def newServer_def)
  then show ?thesis
    using run_alone_handle_msg [of "hash_msg 1" "wp_srv sample_pool" sample_env sample_rnd "\<lambda>_. 0"] by blast
qed


lemma sample_hello_accepted:
  "newWorkers 4 sample_os = Some \<lparr>wp_srv = newServer sample_os, wp_procs = 4, wp_busy = [], wp_pos = (\<lambda>_. 0), wp_cancelled = False\<rparr>"
  "workers_run sample_env \<lparr>wp_srv = newServer sample_os, wp_procs = 4, wp_busy = [], wp_pos = (\<lambda>_. 0), wp_cancelled = False\<rparr> [sample_hello]
     \<lparr>wp_srv = (newServer sample_os)\<lparr>srv_chan := [sample_hello]\<rparr>, wp_procs = 4, wp_busy = [], wp_pos = (\<lambda>_. 0), wp_cancelled = False\<rparr>"
proof -
  let ?P = "\<lparr>wp_srv = newServer sample_os, wp_procs = 4, wp_busy = [], wp_pos = (\<lambda>_. 0), wp_cancelled = False\<rparr>"
  show "newWorkers 4 sample_os = Some ?P" by (simp add: newWorkers_def)
  show "workers_run sample_env ?P [sample_hello] \<lparr>wp_srv = (newServer sample_os)\<lparr>srv_chan := [sample_hello]\<rparr>, wp_procs = 4, wp_busy = [],
      wp_pos = (\<lambda>_. 0), wp_cancelled = False\<rparr>"
    using workers_run.arrive [OF workers_run.start, of ?P sample_env sample_hello] by (simp add: newServer_def)
qed


text \<open>C38: no descriptor leaks, whatever the workers, the sweep and the shutdown do in whatever order: in every state the
  open handles of the process are exactly those in the cache, one per path, also while workers are in the middle of a request,
  and closing the cache closes them all.\<close>

theorem workers_no_leak:
  assumes "newWorkers n s = Some P0" and "os_wf s" and "fds s = Map.empty" and "workers_run env P0 ms P"
  shows "(\<forall>f. fds (srv_os (wp_srv P)) f \<noteq> None \<longleftrightarrow> (\<exists>p e. map_of (files (srv_fdCache (wp_srv P))) p = Some e \<and> e_file e = f))
    \<and> fds (snd (fc_close (get_cache (wp_srv P)))) = Map.empty"
proof -
  have inv: "fc_inv (srv_fdCache (wp_srv P), srv_os (wp_srv P))"
    using workers_run_inv [OF assms(4) newWorkers_start(1) [OF assms(1-3)]] by (simp add: workers_inv_def srv_invD)
  note t = fc_invD(3) [OF inv]
  have "\<forall>f. fds (srv_os (wp_srv P)) f \<noteq> None \<longleftrightarrow> (\<exists>p e. map_of (files (srv_fdCache (wp_srv P))) p = Some e \<and> e_file e = f)"
    using tiesD [OF t] tiesD2 [OF t] by fastforce
  then show ?thesis using fc_close_all [OF inv] by (simp add: get_cache_def)
qed

theorem workers_no_leak_witness:
  "\<exists>P0 P. newWorkers 4 sample_os = Some P0 \<and> workers_run sample_env P0 [sample_hello] P \<and> fds (snd (fc_close (get_cache (wp_srv P)))) = Map.empty"
  using sample_hello_accepted workers_no_leak [OF sample_hello_accepted(1) os_wf_sample sample_hello_accepted(2)] by blast


lemma sample_pool_inv: "srv_inv (wp_srv sample_pool)" "wp_busy sample_pool = []"
proof -
  have "srv_inv (newServer sample_local)" by (rule newServer_inv [OF sample_local_ok(1)]) (simp add: sample_local_def)
  then show "srv_inv (wp_srv sample_pool)" by (simp add: sample_pool_def srv_inv_def get_cache_def newServer_def)
qed (simp add: sample_pool_def)

text \<open>A read that has its descriptor, before it reads.\<close>

definition read_got :: workers where
  "read_got = race_state read_msg write_msg [0, 0, 0]"

lemma read_got_run: "workers_run sample_env sample_pool [read_msg, write_msg] read_got"
  unfolding read_got_def by (rule race_run) code_simp

lemma read_got_coherent: "coherent (srv_os (wp_srv read_got))"
proof -
  let ?s = "srv_os (wp_srv read_got)"
  have "srv_inv (wp_srv read_got)" using workers_run_inv [OF read_got_run] sample_pool_inv by (simp add: workers_inv_def)
  then have wf: "os_wf ?s" using fc_invD(2) srv_invD by blast
  have n: "next_fd ?s = 1" "fds ?s 0 = Some (''/f'', 1, False)" "map_option fst (lookup ?s ''/f'') = Some 1" by code_simp+
  have "\<exists>m. lookup ?s p = Some (i, m)" if "fds ?s f = Some (p, i, w)" for f p i w
  proof -
    have "f = 0" using wf that n(1) unfolding os_wf_def by fastforce
    then show ?thesis using that n(2,3) by auto
  qed
  then show ?thesis unfolding coherent_def by blast
qed



text \<open>A descriptor can be closed between \<open>get\<close> and its use: a read of an existing file fails without any failure of a system call,
  because a write of the same file upgrades the entry of the cache in between.\<close>

theorem workers_read_closed:
  "\<exists>Q res. workers_run sample_env sample_pool [read_msg, write_msg] Q \<and> no_faults (srv_os (wp_srv sample_pool))
     \<and> file_data (srv_os (wp_srv sample_pool)) ''/f'' = Some [1, 2, 3]
     \<and> (7, MReadRes res, []) \<in> set (srv_out (wp_srv Q)) \<and> rres_ID res = 1 \<and> \<not> rres_Success res"
proof -
  let ?is = "[0, 0, 0, 1, 1, 0, 0]" and ?Q = "race_state read_msg write_msg [0, 0, 0, 1, 1, 0, 0]"
  have "\<not> Option.is_none (schedule sample_env sample_rnd ?is (sample_pool\<lparr>wp_busy := [TMsg read_msg, TMsg write_msg]\<rparr>))" by code_simp
  moreover have "no_faults (srv_os (wp_srv sample_pool))" using sample_local_ok(3) by (simp add: sample_pool_def newServer_def)
  moreover have "file_data (srv_os (wp_srv sample_pool)) ''/f'' = Some [1, 2, 3]" by code_simp
  moreover have out: "case srv_out (wp_srv ?Q) of (c, MReadRes res, p) # _ \<Rightarrow> c = 7 \<and> p = [] \<and> rres_ID res = 1 \<and> \<not> rres_Success res | _ \<Rightarrow> False" by code_simp
  then obtain c m p xs where o: "srv_out (wp_srv ?Q) = (c, m, p) # xs" by (auto split: list.split_asm)
  obtain res where "(7, MReadRes res, []) \<in> set (srv_out (wp_srv ?Q))" "rres_ID res = 1" "\<not> rres_Success res"
    using out o by (cases m) auto
  ultimately show ?thesis using race_run by blast
qed

text \<open>Without workers nothing is ever accepted: the event loop blocks on its first message.\<close>

theorem workers_none:
  assumes "newWorkers 0 s = Some P0" and "workers_run env P0 ms P"
  shows "ms = [] \<and> srv_out (wp_srv P) = []"
proof -
  have "ms = [] \<and> wp_procs P = 0 \<and> wp_busy P = [] \<and> srv_chan (wp_srv P) = [] \<and> srv_out (wp_srv P) = []"
    using assms(2,1) by (induction rule: workers_run.induct) (auto simp: newWorkers_def newServer_def)
  then show ?thesis by blast
qed

end
