(* ===== verification/Spec2Isabelle.thy ===== *)
theory Spec2Isabelle
  imports Command Mirror ProgressBar Workers
begin

text \<open>
  A verification development of \<open>gcp\<close>, a parallel file copier over TCP (\<open>src/\<close>).

  \<^bold>\<open>The program.\<close> A server (\<open>gcp serve\<close>, \<open>serve.go\<close>) accepts connections, authenticates them with SSH keys
  (\<open>auth.go\<close>) and carries out requests on its file system: create, write, read, stat, list, hash. A client
  (\<open>client.go\<close>) logs in once, keeps a pool of connections that join the session with a token, numbers
  its requests, and routes each response to the caller that waits for it. Both sides speak a framed
  protocol (\<open>message/\<close>): magic bytes, a type, two sizes, a CBOR message, a payload. On top of that, \<open>gcp cp\<close>
  (\<open>cp.go\<close>, \<open>glob.go\<close>, \<open>cp_to_host.go\<close>, \<open>cp_from_host.go\<close>, \<open>cp_dir.go\<close>, \<open>cp_from_host_dir.go\<close>, \<open>transfer.go\<close>)
  expands its sources, cuts every file into chunks that goroutines transfer concurrently, with
  compression, encryption, checksums, repeated attempts and a resume state, and compares SHA-256 sums at
  the end; \<open>gcp ls\<close> (\<open>ls.go\<close>) lists a directory.

  \<^bold>\<open>The theories\<close>, in the order of their imports.

  \<^item> \<open>Prelude\<close>: machine integers (\<open>wrap64\<close>, words), Go's errors as a datatype (panics among them), strings and
    big-endian integers. \<open>GoPath\<close>, \<open>GoOS\<close>, \<open>GoHash\<close>, \<open>GoWalk\<close>, \<open>GoMatch\<close>: the parts of the standard library the
    code relies on: \<open>path/filepath\<close>; a file system with inodes, descriptors and a fault for every system
    call; CRC-32 and SHA-256; \<open>filepath.Walk\<close> and \<open>Rel\<close>; \<open>path.Match\<close>, UTF-8 and \<open>filepath.Glob\<close>.
    \<open>Files\<close>: what system calls do to the contents of files (\<open>file_data\<close>), shared by both sides.

  \<^item> \<open>Framing\<close>, \<open>Message\<close> (\<open>message/message.go\<close>, \<open>implement.go\<close>, \<open>interface.go\<close>): the fourteen messages as records,
    \<open>MSG\<close> as their sum, \<open>EncodeMsg\<close>, \<open>DecodePre\<close>, \<open>ReadMessage\<close>, \<open>WriteMessage\<close>. CBOR is a parameter (\<open>cbor_lib\<close>).
    What is written is read back, a cut frame leaves the reader waiting, sizes are bounded.

  \<^item> \<open>FdCache\<close>, \<open>ChunkCodec\<close>, \<open>Auth\<close>, \<open>Server\<close>, \<open>ServerRun\<close>, \<open>ServerFiles\<close> (\<open>serve.go\<close>, \<open>auth.go\<close>, the coding of chunks in
    \<open>transfer.go\<close>): the server as a record (file system, descriptor cache, sessions, context of every
    connection, replies sent), one function per handler, the dispatch \<open>handle_msg\<close>, the frame loop \<open>OnTraffic\<close>,
    and runs of it as a step relation. gzip, secretbox and SSH are parameters. A connection is
    authenticated only by a signature of its own challenge or a token; an unauthenticated one has no effect;
    every request gets one reply of its type and number; no descriptor leaks; the frame loop does not depend
    on how the network cuts the bytes.

  \<^item> \<open>Workers\<close> (\<open>process\<close>, \<open>newServer\<close>, the shutdown in \<open>serveCmd\<close>): the pool of workers. The handlers that use cached
    descriptors are cut into steps, one per call of the cache and per system call, with the position that users of
    a descriptor share, and the steps of the workers are interleaved with each other, with arriving messages,
    the sweep and the shutdown. A worker that is not interrupted does what \<open>handle_msg\<close> says; under every
    interleaving each request is answered once, no descriptor leaks and no other file is touched; concurrent
    hashes of one file can be wrong, and a descriptor can be closed while it is in use.

  \<^item> \<open>ClientNet\<close>, \<open>Client\<close>, \<open>Rpc\<close>, \<open>Signer\<close>, \<open>Login\<close> (\<open>client.go\<close>, the client half of \<open>auth.go\<close>): the receive state machine,
    the router, the requests, the choice of a key, the login and the connection pool with its delays.
    The receive loop delivers exactly the frames; responses reach their callers; a call through
    frames, server and router is the same as a call of the handler (\<open>wire_call_direct\<close>), so that the
    theories above it use \<open>direct_call\<close>; a login that succeeds leaves a session of the owner of the key.

  \<^item> \<open>Chunks\<close>, \<open>Assemble\<close>, \<open>Resume\<close>, \<open>Session\<close>, \<open>Upload\<close>, \<open>Download\<close> (\<open>transfer.go\<close>, \<open>cp_to_host.go\<close>, \<open>cp_from_host.go\<close>):
    \<open>processChunks\<close> as a transition system over all schedules of its goroutines, cancellation included; the
    resume state on disk; the effect of every request in a session; whole transfers as relations. The
    chunks cover the file, \<open>processChunks\<close> ends and succeeds only when every chunk was transferred, a
    transfer that reports success has copied the bytes. The locale \<open>chunk_transfer\<close> of \<open>Assemble\<close> carries this
    proof for both directions; \<open>Upload\<close> and \<open>Download\<close> interpret it.

  \<^item> \<open>Address\<close>, \<open>Copy\<close>, \<open>Directories\<close>, \<open>Glob\<close>, \<open>Ls\<close>, \<open>Mirror\<close>, \<open>Command\<close> (\<open>cp.go\<close>, \<open>cp_dir.go\<close>, \<open>cp_from_host_dir.go\<close>, \<open>glob.go\<close>, \<open>ls.go\<close>):
    addresses, the choice between the four ways to copy, directories, patterns, the listing, and the
    command from its arguments to the last transfer. The network is a parameter there (\<open>network\<close>):
    dialling, requests and closing. A recursive download mirrors the remote tree (\<open>Mirror\<close>); a recursive upload into
    a fresh directory fails (\<open>Directories\<close>); a pattern stands for the matching entries; the command as a whole
    puts the bytes of a file where the address says.

  \<^item> \<open>ProgressBar\<close> (\<open>progressbar/progressbar.go\<close>, \<open>drainProgress\<close>): the loop of the display and the layout of its line.

  \<^bold>\<open>How states and operations correspond.\<close> A Go method becomes a function from its arguments and the state it
  touches to its results and the new state; an error result is the left side of a sum or an option; a
  panic is one of the errors \<open>PanicAssertion\<close> and \<open>PanicNil\<close> on the client and the field \<open>srv_panic\<close> on the
  server. Goroutines of \<open>processChunks\<close> are a step relation; what contains them (transfers, copies, the
  command) is a relation between parameters, state before, error, whether it was interrupted, and
  state after. Recursion over directory trees (\<open>filepath.Walk\<close>, \<open>walkRemoteDir\<close>) is an inductive relation as well.
  The locales state the interfaces: coders and their round trip, handlers and their reply, transfers of
  chunks, sort orders; each is interpreted on the definitions of the model.

  \<^bold>\<open>Bounds and fuel.\<close> \<open>chunk_loop\<close> returns an option: a loop that makes no progress is \<open>None\<close>, and for a positive
  chunk size it is shown to return. So does the receive loop of the client, for which not returning is the value
  \<open>None\<close>: it is shown to return on every input without empty messages, and not to return on one with an empty message. The number
  of turns of \<open>runConn\<close> is a parameter, and the statements hold for every number. Attempts are bounded by \<open>--retry\<close> as in
  the code. \<open>run_alone\<close> takes a number of steps, and for every task some number is shown to be enough. All other functions terminate by structural recursion or a measure.

  \<^bold>\<open>Not modelled.\<close> The flags of \<open>serveCmd\<close> and its call of \<open>gnet\<close>, \<open>OnBoot\<close> (\<open>serve.go\<close>), \<open>main.go\<close> and \<open>logger\<close>: they hand flags and callbacks to libraries.
  Of the progress display, the floating-point computation of percentage, speed and remaining time. Time
  passes only where the code branches on it (idle descriptors, delays of \<open>runConn\<close>); deadlines of reads
  and writes appear as errors of the network. The clients' theories talk to a server whose handlers run one after
  the other (\<open>handle_msg\<close>); \<open>Workers\<close> shows that this is what a worker does that is not interrupted. In \<open>Workers\<close> the handlers
  without cached descriptors (\<open>create\<close>, \<open>stat\<close>, \<open>readDir\<close>, \<open>handleAuth\<close>) are single steps. Symbolic links, permissions of directories and hard links do not
  exist in the model of the file system. Third-party libraries (CBOR, gnet, SSH, secretbox, gzip,
  go-humanize, the flag parser) are parameters whose documented behaviour the theorems name as hypotheses.
\<close>

end
